(* ===== verification/Prelude.thy ===== *)
theory Prelude
  imports Main
begin

text \<open>
  What every component shares. Tables of the PostgreSQL schema are lists of rows; the
  statements of the program are written with the four operators below, which follow SQL:
  an \<open>UPDATE ... WHERE\<close> rewrites the rows that match and keeps the others, a
  \<open>DELETE\<close> drops them, the command tag \<open>UPDATE n\<close> counts them and a
  \<open>fetchrow\<close> of a query returns the first match or nothing. The lemmas say how a lookup
  by key sees these operators; the component proofs rest on them.
\<close>

section \<open>Hint collections\<close>

named_theorems row_simps \<open>how an update of one row changes its fields\<close>
named_theorems inv_intros \<open>introduction rules of the invariants\<close>

section \<open>Time\<close>

text \<open>Timestamps and intervals are microseconds, the resolution of TIMESTAMPTZ and datetime.\<close>

type_synonym time = int

definition seconds :: "int \<Rightarrow> time" where
  "seconds n = n * 1000000"

lemma seconds_mono [simp]: "seconds a \<le> seconds b \<longleftrightarrow> a \<le> b"
  by (simp add: seconds_def)

lemma seconds_pos [simp]: "0 < seconds a \<longleftrightarrow> 0 < a"
  by (simp add: seconds_def zero_less_mult_iff)

text \<open>
  SQL comparisons with NULL are not true: \<open>col <= t\<close> and \<open>col > t\<close> both fail when the
  column is NULL.
\<close>

definition null_le :: "time option \<Rightarrow> time \<Rightarrow> bool" where
  "null_le c t = (case c of None \<Rightarrow> False | Some v \<Rightarrow> v \<le> t)"

definition null_gt :: "time option \<Rightarrow> time \<Rightarrow> bool" where
  "null_gt c t = (case c of None \<Rightarrow> False | Some v \<Rightarrow> t < v)"

lemma null_le_simps [simp]: "null_le None t = False" "null_le (Some v) t = (v \<le> t)"
  by (simp_all add: null_le_def)

lemma null_gt_simps [simp]: "null_gt None t = False" "null_gt (Some v) t = (t < v)"
  by (simp_all add: null_gt_def)

lemma null_le_gt: "null_gt c t \<Longrightarrow> \<not> null_le c t"
  by (cases c) auto

section \<open>Statements over a table\<close>

definition update_where :: "('r \<Rightarrow> bool) \<Rightarrow> ('r \<Rightarrow> 'r) \<Rightarrow> 'r list \<Rightarrow> 'r list" where
  "update_where P f rows = map (\<lambda>r. if P r then f r else r) rows"

definition delete_where :: "('r \<Rightarrow> bool) \<Rightarrow> 'r list \<Rightarrow> 'r list" where
  "delete_where P rows = filter (\<lambda>r. \<not> P r) rows"

definition count_where :: "('r \<Rightarrow> bool) \<Rightarrow> 'r list \<Rightarrow> nat" where
  "count_where P rows = length (filter P rows)"

definition fetch_key :: "('r \<Rightarrow> 'k) \<Rightarrow> 'k \<Rightarrow> 'r list \<Rightarrow> 'r option" where
  "fetch_key key k rows = find (\<lambda>r. key r = k) rows"

subsection \<open>update_where\<close>

lemma update_where_Nil [simp]: "update_where P f [] = []"
  by (simp add: update_where_def)

lemma update_where_Cons [simp]:
  "update_where P f (r # rs) = (if P r then f r else r) # update_where P f rs"
  by (simp add: update_where_def)

lemma length_update_where [simp]: "length (update_where P f rows) = length rows"
  by (simp add: update_where_def)

lemma set_update_where:
  "set (update_where P f rows) = (\<lambda>r. if P r then f r else r) ` set rows"
  by (simp add: update_where_def)

lemma update_whereE:
  assumes "r \<in> set (update_where P f rows)"
  obtains s where "s \<in> set rows" and "r = (if P s then f s else s)"
  using assms by (auto simp: set_update_where)

lemma ball_update_where:
  "(\<forall>r\<in>set (update_where P f rows). Q r)
     \<longleftrightarrow> (\<forall>r\<in>set rows. (P r \<longrightarrow> Q (f r)) \<and> (\<not> P r \<longrightarrow> Q r))"
  by (auto simp: set_update_where)

lemma map_update_where:
  "(\<And>r. P r \<Longrightarrow> key (f r) = key r) \<Longrightarrow> map key (update_where P f rows) = map key rows"
  by (induction rows) auto

lemma update_where_id: "(\<And>r. r \<in> set rows \<Longrightarrow> \<not> P r) \<Longrightarrow> update_where P f rows = rows"
  by (induction rows) auto

lemma filter_update_where_same:
  "(\<And>r. P r \<Longrightarrow> Q (f r) = Q r) \<Longrightarrow>
     filter Q (update_where P f rows) = update_where P f (filter Q rows)"
  by (induction rows) auto

subsection \<open>count_where\<close>

lemma count_where_Nil [simp]: "count_where P [] = 0"
  by (simp add: count_where_def)

lemma count_where_Cons [simp]:
  "count_where P (r # rs) = (if P r then Suc (count_where P rs) else count_where P rs)"
  by (simp add: count_where_def)

lemma count_where_0_iff: "count_where P rows = 0 \<longleftrightarrow> (\<forall>r\<in>set rows. \<not> P r)"
  by (induction rows) auto

lemma count_where_append [simp]:
  "count_where P (xs @ ys) = count_where P xs + count_where P ys"
  by (simp add: count_where_def)

lemma count_where_cong:
  "(\<And>r. r \<in> set rows \<Longrightarrow> P r = Q r) \<Longrightarrow> count_where P rows = count_where Q rows"
  by (induction rows) auto

lemma count_where_mono:
  "(\<And>r. r \<in> set rows \<Longrightarrow> P r \<Longrightarrow> Q r) \<Longrightarrow> count_where P rows \<le> count_where Q rows"
  by (induction rows) (auto simp: le_SucI)

lemma count_where_delete:
  "count_where P (delete_where Q rows) = count_where (\<lambda>r. P r \<and> \<not> Q r) rows"
  by (induction rows) (auto simp: delete_where_def)

subsection \<open>delete_where\<close>

lemma delete_where_Nil [simp]: "delete_where P [] = []"
  by (simp add: delete_where_def)

lemma delete_where_Cons [simp]:
  "delete_where P (r # rs) = (if P r then delete_where P rs else r # delete_where P rs)"
  by (simp add: delete_where_def)

lemma set_delete_where: "set (delete_where P rows) = {r \<in> set rows. \<not> P r}"
  by (auto simp: delete_where_def)

lemma in_delete_where [simp]: "r \<in> set (delete_where P rows) \<longleftrightarrow> r \<in> set rows \<and> \<not> P r"
  by (simp add: set_delete_where)

lemma distinct_map_delete_where:
  "distinct (map key rows) \<Longrightarrow> distinct (map key (delete_where P rows))"
  by (simp add: delete_where_def distinct_map_filter)

subsection \<open>Lookup by key\<close>

lemma fetch_key_Nil [simp]: "fetch_key key k [] = None"
  by (simp add: fetch_key_def)

lemma fetch_key_Cons [simp]:
  "fetch_key key k (r # rs) = (if key r = k then Some r else fetch_key key k rs)"
  by (simp add: fetch_key_def)

lemma fetch_key_SomeD: "fetch_key key k rows = Some r \<Longrightarrow> r \<in> set rows \<and> key r = k"
  by (induction rows) (auto split: if_splits)

lemma fetch_key_None_iff: "fetch_key key k rows = None \<longleftrightarrow> k \<notin> key ` set rows"
  by (induction rows) auto

lemma fetch_key_append:
  "fetch_key key k (xs @ ys)
     = (case fetch_key key k xs of None \<Rightarrow> fetch_key key k ys | Some r \<Rightarrow> Some r)"
  by (induction xs) auto

lemma fetch_key_unique:
  "distinct (map key rows) \<Longrightarrow> r \<in> set rows \<Longrightarrow> fetch_key key (key r) rows = Some r"
  by (induction rows) (auto simp: image_iff)

lemma fetch_key_Some_iff:
  "distinct (map key rows) \<Longrightarrow>
     fetch_key key k rows = Some r \<longleftrightarrow> r \<in> set rows \<and> key r = k"
  using fetch_key_unique fetch_key_SomeD by metis

lemma same_key_eq:
  "distinct (map key rows) \<Longrightarrow> r \<in> set rows \<Longrightarrow> s \<in> set rows \<Longrightarrow> key r = key s \<Longrightarrow> r = s"
  by (metis fetch_key_unique option.inject)

text \<open>A lookup after an \<open>UPDATE\<close> that keeps keys: the row found before, rewritten if it matches.\<close>

lemma fetch_key_update_where:
  "(\<And>r. P r \<Longrightarrow> key (f r) = key r) \<Longrightarrow>
     fetch_key key k (update_where P f rows)
       = map_option (\<lambda>r. if P r then f r else r) (fetch_key key k rows)"
  by (induction rows) auto

lemma fetch_key_delete_where:
  "distinct (map key rows) \<Longrightarrow>
     fetch_key key k (delete_where P rows)
       = (case fetch_key key k rows of None \<Rightarrow> None
          | Some r \<Rightarrow> if P r then None else Some r)"
proof (induction rows)
  case (Cons a rows)
  have "key a = k \<Longrightarrow> fetch_key key k (delete_where P rows) = None"
    using Cons.prems by (auto simp: fetch_key_None_iff)
  with Cons show ?case by auto
qed simp

text \<open>An \<open>UPDATE\<close> addressed by a unique key touches one row or none.\<close>

lemma count_where_key:
  assumes "distinct (map key rows)" and "\<And>r. P r \<Longrightarrow> key r = k"
  shows "count_where P rows
    = (case fetch_key key k rows of None \<Rightarrow> 0 | Some r \<Rightarrow> if P r then 1 else 0)"
  using assms(1)
proof (induction rows)
  case (Cons a rows)
  show ?case
  proof (cases "key a = k")
    case True
    with Cons.prems have "\<forall>r\<in>set rows. key r \<noteq> k" by (auto simp: image_iff)
    with assms(2) have "count_where P rows = 0" by (auto simp: count_where_0_iff)
    with True show ?thesis by simp
  next
    case False
    with assms(2) have "\<not> P a" by blast
    with False Cons show ?thesis by simp
  qed
qed simp

corollary count_where_key_1:
  "distinct (map key rows) \<Longrightarrow> (\<And>r. P r \<Longrightarrow> key r = k) \<Longrightarrow>
     count_where P rows = 1 \<longleftrightarrow> (\<exists>r. fetch_key key k rows = Some r \<and> P r)"
  by (auto simp: count_where_key split: option.splits)

lemma count_where_pos: "r \<in> set rows \<Longrightarrow> P r \<Longrightarrow> 0 < count_where P rows"
  by (induction rows) auto

section \<open>Fallible code\<close>

text \<open>
  A computation that may raise returns \<open>Inl\<close> of the exception or \<open>Inr\<close> of its result; a sequence
  of statements stops at the first exception.
\<close>

definition and_then :: "'e + 'a \<Rightarrow> ('a \<Rightarrow> 'e + 'b) \<Rightarrow> 'e + 'b" where
  "and_then m f = (case m of Inl e \<Rightarrow> Inl e | Inr v \<Rightarrow> f v)"

lemma and_then_simps [simp]: "and_then (Inl e) f = Inl e" "and_then (Inr v) f = f v"
  by (simp_all add: and_then_def)

lemma and_then_Inr: "and_then m f = Inr y \<longleftrightarrow> (\<exists>v. m = Inr v \<and> f v = Inr y)"
  by (cases m) auto

lemma if_raise_Inr [simp]:
  "((if P then Inl e else m) = Inr y) \<longleftrightarrow> \<not> P \<and> m = Inr y"
  "((if P then m else Inl e) = Inr y) \<longleftrightarrow> P \<and> m = Inr y"
  by auto

section \<open>Transition systems\<close>

text \<open>
  The interface between a component's step relation and its safety properties: an initial
  state, a step relation and an invariant that both respect. What is reachable satisfies
  the invariant, and a reflexive, transitive relation that every step respects relates a
  reachable state to everything that follows it.
\<close>

inductive reachable_from :: "('s \<Rightarrow> 's \<Rightarrow> bool) \<Rightarrow> 's \<Rightarrow> 's \<Rightarrow> bool" for step where
  here: "reachable_from step s s"
| next_step: "reachable_from step s t \<Longrightarrow> step t u \<Longrightarrow> reachable_from step s u"

lemma reachable_from_trans:
  "reachable_from step t u \<Longrightarrow> reachable_from step s t \<Longrightarrow> reachable_from step s u"
  by (induction rule: reachable_from.induct) (auto intro: reachable_from.next_step)

lemma reachable_from_one: "step s t \<Longrightarrow> reachable_from step s t"
  by (rule reachable_from.next_step [OF reachable_from.here])

locale safe_system =
  fixes init :: "'s"
    and step :: "'s \<Rightarrow> 's \<Rightarrow> bool"
    and inv :: "'s \<Rightarrow> bool"
  assumes inv_init: "inv init"
    and inv_step: "inv s \<Longrightarrow> step s t \<Longrightarrow> inv t"
begin

lemma inv_from:
  assumes "reachable_from step s t" and "inv s"
  shows "inv t"
  using assms by (induction rule: reachable_from.induct) (auto intro: inv_step)

lemma inv_reachable: "reachable_from step init s \<Longrightarrow> inv s"
  using inv_from inv_init by blast

text \<open>A relation kept by every step from a good state is kept by every run from a good state.\<close>

lemma run_preserves:
  assumes run: "reachable_from step s t" and good: "inv s"
    and keep: "\<And>u v. inv u \<Longrightarrow> step u v \<Longrightarrow> Q u \<Longrightarrow> Q v" and start: "Q s"
  shows "Q t"
  using run good start
proof (induction rule: reachable_from.induct)
  case (next_step s t u)
  then show ?case using keep inv_from by blast
qed

end

end
