(* ===== verification/PyValue.thy ===== *)
theory PyValue
  imports Complex_Main Prelude
begin

text \<open>
  The Python values and exceptions the components exchange. A string is a list of characters
  read as Latin-1 code points, so \<open>length\<close> counts code points as \<open>len\<close> does; an
  integer is unbounded; a float is its exact value or one of the three special values. A
  dictionary is an association list in insertion order. JSON documents (task payloads,
  result metadata) are such dictionaries.
\<close>

section \<open>Values\<close>

datatype pyfloat = Fin rat | PosInf | NegInf | NaN

datatype pyval =
    PNone
  | PBool bool
  | PInt int
  | PFloat pyfloat
  | PStr string
  | PList "pyval list"
  | PDict "(string \<times> pyval) list"

type_synonym pydict = "(string \<times> pyval) list"

definition dict_get :: "pydict \<Rightarrow> string \<Rightarrow> pyval" where
  "dict_get d k = (case map_of d k of None \<Rightarrow> PNone | Some v \<Rightarrow> v)"

text \<open>\<open>d.setdefault(k, v)\<close>: the entry is appended when the key is missing.\<close>

definition dict_setdefault :: "string \<Rightarrow> pyval \<Rightarrow> pydict \<Rightarrow> pydict" where
  "dict_setdefault k v d = (case map_of d k of None \<Rightarrow> d @ [(k, v)] | Some _ \<Rightarrow> d)"

lemma map_of_setdefault:
  "map_of (dict_setdefault k v d) k' =
     (if k' = k \<and> map_of d k = None then Some v else map_of d k')"
  by (auto simp: dict_setdefault_def map_add_def split: option.splits)

text \<open>Truth value testing, as in \<open>x or default\<close>.\<close>

fun truthy :: "pyval \<Rightarrow> bool" where
  "truthy PNone = False"
| "truthy (PBool b) = b"
| "truthy (PInt i) = (i \<noteq> 0)"
| "truthy (PFloat f) = (f \<noteq> Fin 0)"
| "truthy (PStr s) = (s \<noteq> [])"
| "truthy (PList xs) = (xs \<noteq> [])"
| "truthy (PDict d) = (d \<noteq> [])"

text \<open>Comparison of floats: every comparison with NaN is false.\<close>

fun fl_le :: "pyfloat \<Rightarrow> pyfloat \<Rightarrow> bool" where
  "fl_le NaN _ = False"
| "fl_le _ NaN = False"
| "fl_le NegInf _ = True"
| "fl_le _ PosInf = True"
| "fl_le PosInf _ = False"
| "fl_le _ NegInf = False"
| "fl_le (Fin a) (Fin b) = (a \<le> b)"

fun fl_lt :: "pyfloat \<Rightarrow> pyfloat \<Rightarrow> bool" where
  "fl_lt NaN _ = False"
| "fl_lt _ NaN = False"
| "fl_lt PosInf _ = False"
| "fl_lt _ NegInf = False"
| "fl_lt NegInf _ = True"
| "fl_lt _ PosInf = True"
| "fl_lt (Fin a) (Fin b) = (a < b)"

text \<open>Rounding to the nearest integer, halves to the even one.\<close>

definition round_half_even :: "rat \<Rightarrow> int" where
  "round_half_even x =
     (let f = \<lfloor>x\<rfloor>; d = x - of_int f
      in if d < 1/2 then f else if d > 1/2 then f + 1 else if even f then f else f + 1)"

definition fl_of_int :: "int \<Rightarrow> pyfloat" where
  "fl_of_int i = Fin (of_int i)"

section \<open>Strings\<close>

definition is_space :: "char \<Rightarrow> bool" where
  "is_space c = (let n = (of_char c :: nat)
     in (9 \<le> n \<and> n \<le> 13) \<or> (28 \<le> n \<and> n \<le> 32) \<or> n = 133 \<or> n = 160)"

definition lstrip :: "string \<Rightarrow> string" where
  "lstrip s = dropWhile is_space s"

definition strip :: "string \<Rightarrow> string" where
  "strip s = rev (dropWhile is_space (rev (dropWhile is_space s)))"

lemma length_strip: "length (strip s) \<le> length s"
proof -
  have "length (dropWhile is_space (rev (dropWhile is_space s))) \<le> length (rev (dropWhile is_space s))"
    by (rule length_dropWhile_le)
  also have "\<dots> \<le> length s" by (simp add: length_dropWhile_le)
  finally show ?thesis by (simp add: strip_def)
qed

lemma dropWhile_idem: "dropWhile P (dropWhile P xs) = dropWhile P xs"
  by (induction xs) auto

lemma dropWhile_rev_dropWhile:
  "dropWhile P (rev (dropWhile P (rev (dropWhile P xs)))) = rev (dropWhile P (rev (dropWhile P xs)))"
proof (cases "dropWhile P xs")
  case (Cons a ys)
  then have "\<not> P a" using hd_dropWhile [of P xs] by force
  then have "rev (dropWhile P (rev (a # ys))) = a # rev (dropWhile P (rev ys))"
    by (simp add: dropWhile_append3)
  with Cons \<open>\<not> P a\<close> show ?thesis by simp
next
  case Nil
  then show ?thesis by (simp only: rev.simps dropWhile.simps)
qed

lemma strip_strip [simp]: "strip (strip s) = strip s"
  by (simp add: strip_def dropWhile_idem dropWhile_rev_dropWhile)

text \<open>Decimal rendering of integers, as in \<open>str(i)\<close> and f-strings.\<close>

definition digit_char :: "nat \<Rightarrow> char" where
  "digit_char d = char_of (48 + d)"

fun nat_str :: "nat \<Rightarrow> string" where
  "nat_str n = (if n < 10 then [digit_char n] else nat_str (n div 10) @ [digit_char (n mod 10)])"

declare nat_str.simps [simp del]

definition int_str :: "int \<Rightarrow> string" where
  "int_str i = (if i < 0 then CHR ''-'' # nat_str (nat (- i)) else nat_str (nat i))"

text \<open>Reading the digits back, which makes the rendering injective.\<close>

definition digit_val :: "char \<Rightarrow> nat" where
  "digit_val c = of_char c - 48"

definition digits_val :: "string \<Rightarrow> nat" where
  "digits_val s = foldl (\<lambda>a c. 10 * a + digit_val c) 0 s"

lemma digit_val_char [simp]: "d < 10 \<Longrightarrow> digit_val (digit_char d) = d"
  by (simp add: digit_val_def digit_char_def of_char_of)

lemma digits_val_nat_str [simp]: "digits_val (nat_str n) = n"
proof (induction n rule: nat_str.induct)
  case (1 n)
  show ?case
  proof (cases "n < 10")
    case True
    then show ?thesis by (simp add: nat_str.simps [of n] digits_val_def)
  next
    case False
    with 1 have "digits_val (nat_str (n div 10)) = n div 10" by simp
    with False show ?thesis by (simp add: nat_str.simps [of n] digits_val_def)
  qed
qed

definition is_digit :: "char \<Rightarrow> bool" where
  "is_digit c = (let n = (of_char c :: nat) in 48 \<le> n \<and> n \<le> 57)"

lemma is_digit_char: "d < 10 \<Longrightarrow> is_digit (digit_char d)"
  by (simp add: is_digit_def digit_char_def of_char_of)

lemma nat_str_digits: "c \<in> set (nat_str n) \<Longrightarrow> is_digit c"
proof (induction n rule: nat_str.induct)
  case (1 n)
  then show ?case
    by (cases "n < 10") (auto simp: nat_str.simps [of n] is_digit_char)
qed

lemma int_str_chars: "c \<in> set (int_str i) \<Longrightarrow> is_digit c \<or> c = CHR ''-''"
  by (auto simp: int_str_def nat_str_digits split: if_splits)

lemma nat_str_inj: "nat_str m = nat_str n \<Longrightarrow> m = n"
  by (metis digits_val_nat_str)

lemma int_str_inj: "int_str i = int_str j \<longleftrightarrow> i = j"
proof
  have minus: "CHR ''-'' # nat_str k \<noteq> nat_str m" for k m
  proof
    assume "CHR ''-'' # nat_str k = nat_str m"
    then have "CHR ''-'' \<in> set (nat_str m)" by (metis list.set_intros(1))
    then have "is_digit (CHR ''-'')" by (rule nat_str_digits)
    then show False by (simp add: is_digit_def)
  qed
  assume "int_str i = int_str j"
  then show "i = j"
    using minus minus [symmetric]
    by (auto simp: int_str_def dest!: nat_str_inj split: if_splits)
qed simp

text \<open>A separator that no field contains splits a formatted key in one way only.\<close>

lemma split_at_sep:
  assumes "xs @ c # ys = xs' @ c # ys'" and "c \<notin> set xs" and "c \<notin> set xs'"
  shows "xs = xs' \<and> ys = ys'"
  using assms
proof (induction xs arbitrary: xs')
  case Nil
  then show ?case by (cases xs') auto
next
  case (Cons a xs)
  then show ?case by (cases xs') auto
qed

section \<open>Exceptions\<close>

text \<open>
  The collector errors of \<open>xingestion/collectors/base.py\<close>, one constructor per class,
  and the exceptions the modelled code raises or lets through. \<open>Other\<close> is any other
  exception of a library (asyncpg, redis, twikit, playwright), with its class name and text.
\<close>

datatype coll_kind =
    CollectionErrorBase
  | AuthenticationFailure
  | RateLimited
  | TransientNetworkFailure
  | CollectorChanged
  | PermanentTaskFailure

datatype exc =
    ValueError string
  | TypeError string
  | KeyError string
  | OverflowError string
  | RuntimeError string
  | CapabilityContractError string
  | UnsupportedCapability string
  | NoApprovedRoute string
  | Collection coll_kind string "rat option"
  | TaskLeaseLost string
  | CancelledError
  | DbError string
  | Other string string

fun exc_str :: "exc \<Rightarrow> string" where
  "exc_str (ValueError m) = m"
| "exc_str (TypeError m) = m"
| "exc_str (KeyError m) = m"
| "exc_str (OverflowError m) = m"
| "exc_str (RuntimeError m) = m"
| "exc_str (CapabilityContractError m) = m"
| "exc_str (UnsupportedCapability m) = m"
| "exc_str (NoApprovedRoute m) = m"
| "exc_str (Collection _ m _) = m"
| "exc_str (TaskLeaseLost m) = m"
| "exc_str CancelledError = []"
| "exc_str (DbError m) = m"
| "exc_str (Other _ m) = m"

end
