(* ===== verification/Schema.thy ===== *)
theory Schema
  imports PyValue
begin

text \<open>
  The tables of the control plane as \<open>schema_analytics.sql\<close> and the migrations leave
  them, the leases and events the Python code builds from their rows, and lookups by primary
  key. A table is the list of its rows and a SERIAL column draws from the table's sequence,
  which, as in PostgreSQL, also advances when \<open>ON CONFLICT\<close> discards the row.
\<close>

section \<open>Rows\<close>

datatype task_status =
    PENDING | RETRY_SCHEDULED | ENQUEUED | RUNNING | DONE | DEAD_LETTER
  | RETRYING \<comment> \<open>the legacy status that migration 0001 renames to \<open>RETRY_SCHEDULED\<close>\<close>

record task_row =
  t_id :: int
  t_task_type :: string
  t_payload :: pydict
  t_status :: task_status
  t_attempts :: int
  t_max_attempts :: int
  t_next_run_at :: time
  t_idempotency_key :: string
  t_priority :: int
  t_generation :: int
  t_enqueued_at :: "time option"
  t_lease_owner :: "string option"
  t_lease_started_at :: "time option"
  t_lease_expires_at :: "time option"
  t_leased_at :: "time option"
  t_completed_at :: "time option"
  t_last_error :: "string option"
  t_last_failure_class :: "string option"
  t_result_metadata :: "pydict option"
  t_origin_task_id :: "int option"
  t_replay_of :: "int option"
  t_created_at :: time
  t_updated_at :: time

record outbox_row =
  o_id :: int
  o_task_id :: int
  o_generation :: int
  o_event_type :: string
  o_payload :: pydict
  o_available_at :: time
  o_created_at :: time
  o_published_at :: "time option"
  o_message_id :: "string option"
  o_attempts :: int
  o_last_error :: "string option"
  o_claim_token :: "string option"
  o_claim_expires_at :: "time option"

record dead_row =
  d_id :: int
  d_original_task_id :: int
  d_task_type :: string
  d_payload :: pydict
  d_failed_at :: time
  d_last_error :: "string option"
  d_failure_class :: "string option"
  d_generation :: int
  d_replayed_at :: "time option"
  d_replay_task_id :: "int option"
  d_replay_generation :: int

record replay_row =
  r_id :: int
  r_dead_letter_id :: int
  r_generation :: int
  r_task_id :: int
  r_requested_at :: time
  r_selector :: pydict

section \<open>The database\<close>

record cdb =
  tasks :: "task_row list"
  outbox :: "outbox_row list"
  dead_letters :: "dead_row list"
  replays :: "replay_row list"
  task_seq :: int
  outbox_seq :: int
  dead_seq :: int
  replay_seq :: int

definition empty_cdb :: cdb where
  "empty_cdb = \<lparr>tasks = [], outbox = [], dead_letters = [], replays = [],
     task_seq = 1, outbox_seq = 1, dead_seq = 1, replay_seq = 1\<rparr>"

abbreviation task_by_id :: "cdb \<Rightarrow> int \<Rightarrow> task_row option" where
  "task_by_id db i \<equiv> fetch_key t_id i (tasks db)"

abbreviation task_by_key :: "cdb \<Rightarrow> string \<Rightarrow> task_row option" where
  "task_by_key db k \<equiv> fetch_key t_idempotency_key k (tasks db)"

abbreviation event_of :: "outbox_row \<Rightarrow> int \<times> int" where
  "event_of o' \<equiv> (o_task_id o', o_generation o')"

abbreviation outbox_event :: "cdb \<Rightarrow> int \<Rightarrow> int \<Rightarrow> outbox_row option" where
  "outbox_event db tid gen \<equiv> fetch_key event_of (tid, gen) (outbox db)"

section \<open>Values the Python code builds from rows\<close>

record task_lease =
  l_id :: int
  l_task_type :: string
  l_payload :: pydict
  l_attempts :: int
  l_max_attempts :: int
  l_generation :: int
  l_owner :: string
  l_expires_at :: time

record delivery =
  m_message_id :: string
  m_task_id :: int
  m_generation :: int

record claimed_event =
  c_outbox_id :: int
  c_task_id :: int
  c_generation :: int
  c_event_type :: string
  c_payload :: pydict
  c_claim_token :: string

end
