(* ===== verification/Ledger.thy ===== *)
theory Ledger
  imports Schema
begin

text \<open>
  \<open>TaskRepository\<close> of \<open>xingestion/control_plane.py\<close>: the durable task ledger and the
  transactional outbox rows it writes. Each method is one transaction and is modelled as one
  function of the database; \<open>utc\<close> is the worker's clock (\<open>utcnow()\<close>), \<open>now\<close> the
  database's (\<open>NOW()\<close>), and the two need not agree.
\<close>

section \<open>Rows written by INSERT\<close>

definition new_task :: "string \<Rightarrow> pydict \<Rightarrow> int \<Rightarrow> time \<Rightarrow> string \<Rightarrow> int \<Rightarrow> int option \<Rightarrow> int option \<Rightarrow> time \<Rightarrow> task_row" where
  "new_task ty payload maxa run_at key prio origin replay_of now =
     \<lparr>t_id = 0, t_task_type = ty, t_payload = payload, t_status = PENDING, t_attempts = 0,
      t_max_attempts = maxa, t_next_run_at = run_at, t_idempotency_key = key,
      t_priority = prio, t_generation = 0, t_enqueued_at = None, t_lease_owner = None,
      t_lease_started_at = None, t_lease_expires_at = None, t_leased_at = None,
      t_completed_at = None, t_last_error = None, t_last_failure_class = None,
      t_result_metadata = None, t_origin_task_id = origin, t_replay_of = replay_of,
      t_created_at = now, t_updated_at = now\<rparr>"

text \<open>
  \<open>INSERT INTO worker_tasks ... ON CONFLICT (idempotency_key) DO UPDATE SET updated_at =
  worker_tasks.updated_at RETURNING ...\<close>: the row that holds the key already, unchanged, or
  the inserted one.
\<close>

definition insert_task :: "task_row \<Rightarrow> cdb \<Rightarrow> task_row \<times> cdb" where
  "insert_task r db =
     (let db1 = db\<lparr>task_seq := task_seq db + 1\<rparr>
      in case task_by_key db (t_idempotency_key r) of
           Some r0 \<Rightarrow> (r0, db1)
         | None \<Rightarrow>
             (let r1 = r\<lparr>t_id := task_seq db\<rparr> in (r1, db1\<lparr>tasks := tasks db @ [r1]\<rparr>)))"

definition ready_event :: "int \<Rightarrow> int \<Rightarrow> time \<Rightarrow> time \<Rightarrow> outbox_row" where
  "ready_event tid gen available now =
     \<lparr>o_id = 0, o_task_id = tid, o_generation = gen, o_event_type = ''TASK_READY'',
      o_payload = [(''task_id'', PInt tid), (''generation'', PInt gen)],
      o_available_at = available, o_created_at = now, o_published_at = None,
      o_message_id = None, o_attempts = 0, o_last_error = None, o_claim_token = None,
      o_claim_expires_at = None\<rparr>"

text \<open>\<open>INSERT INTO task_outbox ... ON CONFLICT (task_id, delivery_generation) DO NOTHING\<close>.\<close>

definition insert_event :: "outbox_row \<Rightarrow> cdb \<Rightarrow> cdb" where
  "insert_event e db =
     (let db1 = db\<lparr>outbox_seq := outbox_seq db + 1\<rparr>
      in case fetch_key event_of (event_of e) (outbox db) of
           Some _ \<Rightarrow> db1
         | None \<Rightarrow> db1\<lparr>outbox := outbox db @ [e\<lparr>o_id := outbox_seq db\<rparr>]\<rparr>)"

section \<open>create\_task\<close>

definition create_task ::
  "string \<Rightarrow> pydict \<Rightarrow> string \<Rightarrow> int \<Rightarrow> int \<Rightarrow> time option \<Rightarrow> time \<Rightarrow> time \<Rightarrow> cdb \<Rightarrow> exc + (int \<times> cdb)" where
  "create_task task_type payload key maxa prio next_run_at utc now db =
     (if key = [] then Inl (ValueError ''idempotency_key is required'')
      else if maxa \<le> 0 then Inl (ValueError ''max_attempts must be > 0'')
      else
        (let run_at = (case next_run_at of None \<Rightarrow> utc | Some t \<Rightarrow> t);
             (row, db1) = insert_task (new_task task_type payload maxa run_at key prio None None now) db;
             task_id = t_id row;
             db2 = (case task_by_id db1 task_id of
                      None \<Rightarrow> db1
                    | Some wt \<Rightarrow>
                        if t_status wt \<in> {PENDING, RETRY_SCHEDULED}
                        then insert_event (ready_event (t_id wt) (t_generation wt) (t_next_run_at wt) now) db1
                        else db1)
         in Inr (task_id, db2)))"

section \<open>lease\_task\<close>

definition leasable :: "time \<Rightarrow> int \<Rightarrow> int \<Rightarrow> task_row \<Rightarrow> bool" where
  "leasable now task_id generation r \<longleftrightarrow>
     t_id r = task_id \<and> t_generation r = generation \<and> t_next_run_at r \<le> now \<and>
     (t_status r = ENQUEUED \<or> (t_status r = RUNNING \<and> null_le (t_lease_expires_at r) now))"

definition take_lease :: "string \<Rightarrow> int \<Rightarrow> time \<Rightarrow> task_row \<Rightarrow> task_row" where
  "take_lease worker_id lease_seconds now r =
     r\<lparr>t_status := RUNNING, t_lease_owner := Some worker_id, t_lease_started_at := Some now,
       t_lease_expires_at := Some (now + seconds lease_seconds), t_updated_at := now\<rparr>"

definition lease_of :: "task_row \<Rightarrow> string \<Rightarrow> time \<Rightarrow> task_lease" where
  "lease_of r owner expires =
     \<lparr>l_id = t_id r, l_task_type = t_task_type r, l_payload = t_payload r,
      l_attempts = t_attempts r, l_max_attempts = t_max_attempts r,
      l_generation = t_generation r, l_owner = owner, l_expires_at = expires\<rparr>"

definition lease_task ::
  "int \<Rightarrow> int \<Rightarrow> string \<Rightarrow> int \<Rightarrow> time \<Rightarrow> cdb \<Rightarrow> task_lease option \<times> cdb" where
  "lease_task task_id generation worker_id lease_seconds now db =
     (case find (leasable now task_id generation) (tasks db) of
        None \<Rightarrow> (None, db)
      | Some r \<Rightarrow>
          (Some (lease_of r worker_id (now + seconds lease_seconds)),
           db\<lparr>tasks := update_where (leasable now task_id generation)
                         (take_lease worker_id lease_seconds now) (tasks db)\<rparr>))"

section \<open>The fenced transitions out of RUNNING\<close>

text \<open>
  The \<open>WHERE\<close> clause the three terminal transitions and the guard's operations share: the
  row is this task at this generation, running, and leased to this owner.
\<close>

definition owns :: "task_lease \<Rightarrow> task_row \<Rightarrow> bool" where
  "owns task r \<longleftrightarrow>
     t_id r = l_id task \<and> t_generation r = l_generation task \<and>
     t_lease_owner r = Some (l_owner task) \<and> t_status r = RUNNING"

definition clear_lease :: "task_row \<Rightarrow> task_row" where
  "clear_lease r =
     r\<lparr>t_lease_owner := None, t_lease_started_at := None, t_lease_expires_at := None\<rparr>"

definition mark_done :: "pydict option \<Rightarrow> time \<Rightarrow> task_row \<Rightarrow> task_row" where
  "mark_done result_metadata now r =
     (clear_lease r)\<lparr>t_status := DONE, t_completed_at := Some now, t_last_error := None,
       t_result_metadata := (case result_metadata of None \<Rightarrow> t_result_metadata r | Some m \<Rightarrow> Some m),
       t_updated_at := now\<rparr>"

definition complete_task :: "task_lease \<Rightarrow> pydict option \<Rightarrow> time \<Rightarrow> cdb \<Rightarrow> bool \<times> cdb" where
  "complete_task task result_metadata now db =
     (count_where (owns task) (tasks db) = 1,
      db\<lparr>tasks := update_where (owns task) (mark_done result_metadata now) (tasks db)\<rparr>)"

text \<open>
  \<open>timedelta(seconds=max(delay_seconds, 0.0))\<close>: a timedelta holds whole microseconds and
  its constructor rounds halves to even.
\<close>

definition delay_us :: "rat \<Rightarrow> time" where
  "delay_us delay_seconds = round_half_even (max delay_seconds 0 * 1000000)"

definition mark_retry :: "time \<Rightarrow> string \<Rightarrow> string \<Rightarrow> time \<Rightarrow> task_row \<Rightarrow> task_row" where
  "mark_retry next_run_at error_message failure_class now r =
     (clear_lease r)\<lparr>t_status := RETRY_SCHEDULED, t_attempts := t_attempts r + 1,
       t_generation := t_generation r + 1, t_next_run_at := next_run_at,
       t_last_error := Some (take 4000 error_message),
       t_last_failure_class := Some (take 100 failure_class), t_updated_at := now\<rparr>"

definition schedule_retry ::
  "task_lease \<Rightarrow> string \<Rightarrow> rat \<Rightarrow> string \<Rightarrow> time \<Rightarrow> time \<Rightarrow> cdb \<Rightarrow> bool \<times> cdb" where
  "schedule_retry task error_message delay_seconds failure_class utc now db =
     (let next_run_at = utc + delay_us delay_seconds;
          f = mark_retry next_run_at error_message failure_class now
      in case find (owns task) (tasks db) of
           None \<Rightarrow> (False, db)
         | Some r \<Rightarrow>
             (let row = f r;
                  db1 = db\<lparr>tasks := update_where (owns task) f (tasks db)\<rparr>
              in (True, insert_event (ready_event (t_id row) (t_generation row) (t_next_run_at row) now) db1)))"

definition mark_dead :: "string \<Rightarrow> string \<Rightarrow> time \<Rightarrow> task_row \<Rightarrow> task_row" where
  "mark_dead error_message failure_class now r =
     (clear_lease r)\<lparr>t_status := DEAD_LETTER, t_attempts := t_attempts r + 1,
       t_last_error := Some (take 4000 error_message),
       t_last_failure_class := Some (take 100 failure_class), t_updated_at := now\<rparr>"

definition dead_letter_of :: "task_row \<Rightarrow> string \<Rightarrow> string \<Rightarrow> time \<Rightarrow> int \<Rightarrow> dead_row" where
  "dead_letter_of r error_message failure_class now i =
     \<lparr>d_id = i, d_original_task_id = t_id r, d_task_type = t_task_type r,
      d_payload = t_payload r, d_failed_at = now, d_last_error = Some (take 4000 error_message),
      d_failure_class = Some (take 100 failure_class), d_generation = t_generation r,
      d_replayed_at = None, d_replay_task_id = None, d_replay_generation = 0\<rparr>"

definition dead_letter_task ::
  "task_lease \<Rightarrow> string \<Rightarrow> string \<Rightarrow> time \<Rightarrow> cdb \<Rightarrow> bool \<times> cdb" where
  "dead_letter_task task error_message failure_class now db =
     (let f = mark_dead error_message failure_class now
      in case find (owns task) (tasks db) of
           None \<Rightarrow> (False, db)
         | Some r \<Rightarrow>
             (True, db\<lparr>tasks := update_where (owns task) f (tasks db),
                       dead_letters := dead_letters db
                         @ [dead_letter_of (f r) error_message failure_class now (dead_seq db)],
                       dead_seq := dead_seq db + 1\<rparr>))"

definition is_terminal_or_stale :: "int \<Rightarrow> int \<Rightarrow> cdb \<Rightarrow> bool" where
  "is_terminal_or_stale task_id generation db =
     (case task_by_id db task_id of
        None \<Rightarrow> True
      | Some r \<Rightarrow> t_generation r \<noteq> generation \<or> t_status r \<in> {DONE, DEAD_LETTER})"

end
