(* ===== verification/LedgerProps.thy ===== *)
theory LedgerProps
  imports Ledger
begin

text \<open>
  The invariant of the control-plane tables, the contract the fenced operations of a lease
  share, and what each ledger operation does to one task.
\<close>

section \<open>The invariant\<close>

text \<open>
  One row: a lease is recorded exactly while the task runs, and the attempt counter follows
  the delivery generation: both grow by one per scheduled retry, and dead-lettering counts
  the last attempt without a new generation.
\<close>

definition task_ok :: "task_row \<Rightarrow> bool" where
  "task_ok r \<longleftrightarrow>
     t_status r \<noteq> RETRYING \<and> 0 \<le> t_generation r \<and> 0 < t_max_attempts r \<and>
     t_attempts r = t_generation r + (if t_status r = DEAD_LETTER then 1 else 0) \<and>
     (t_status r = RUNNING \<longleftrightarrow> t_lease_owner r \<noteq> None) \<and>
     (t_status r = RUNNING \<longleftrightarrow> t_lease_expires_at r \<noteq> None) \<and>
     (t_status r = RUNNING \<longleftrightarrow> t_lease_started_at r \<noteq> None) \<and>
     t_leased_at r = None"

definition tasks_inv :: "cdb \<Rightarrow> bool" where
  "tasks_inv db \<longleftrightarrow>
     distinct (map t_id (tasks db)) \<and> distinct (map t_idempotency_key (tasks db)) \<and>
     (\<forall>r\<in>set (tasks db). task_ok r \<and> t_id r < task_seq db)"

definition event_ok :: "outbox_row \<Rightarrow> bool" where
  "event_ok e \<longleftrightarrow>
     (o_claim_token e = None \<longleftrightarrow> o_claim_expires_at e = None) \<and>
     (o_published_at e \<noteq> None \<longrightarrow> o_claim_token e = None) \<and>
     (o_published_at e = None \<longleftrightarrow> o_message_id e = None)"

definition outbox_inv :: "cdb \<Rightarrow> bool" where
  "outbox_inv db \<longleftrightarrow>
     distinct (map o_id (outbox db)) \<and> distinct (map event_of (outbox db)) \<and>
     (\<forall>e\<in>set (outbox db). event_ok e \<and> o_id e < outbox_seq db)"

text \<open>
  Every event belongs to a task and to a generation the task has reached, and every task has
  the event of its current generation, untouched while the task waits to be enqueued.
\<close>

definition pristine :: "outbox_row \<Rightarrow> bool" where
  "pristine e \<longleftrightarrow> o_published_at e = None \<and> o_claim_token e = None"

definition event_linked :: "cdb \<Rightarrow> outbox_row \<Rightarrow> bool" where
  "event_linked db e \<longleftrightarrow>
     (\<exists>r. task_by_id db (o_task_id e) = Some r \<and> o_generation e \<le> t_generation r)"

definition task_linked :: "cdb \<Rightarrow> task_row \<Rightarrow> bool" where
  "task_linked db r \<longleftrightarrow>
     (\<exists>e. outbox_event db (t_id r) (t_generation r) = Some e \<and>
          (t_status r \<in> {PENDING, RETRY_SCHEDULED} \<longrightarrow> pristine e))"

definition link_inv :: "cdb \<Rightarrow> bool" where
  "link_inv db \<longleftrightarrow>
     (\<forall>e\<in>set (outbox db). event_linked db e) \<and> (\<forall>r\<in>set (tasks db). task_linked db r)"

text \<open>Every dead letter archives a task that is still in the ledger, as \<open>DEAD_LETTER\<close>.\<close>

definition dead_linked :: "cdb \<Rightarrow> dead_row \<Rightarrow> bool" where
  "dead_linked db d \<longleftrightarrow>
     (\<exists>r. task_by_id db (d_original_task_id d) = Some r \<and> t_status r = DEAD_LETTER)"

definition dead_inv :: "cdb \<Rightarrow> bool" where
  "dead_inv db \<longleftrightarrow>
     distinct (map d_id (dead_letters db)) \<and>
     (\<forall>d\<in>set (dead_letters db). d_id d < dead_seq db \<and> dead_linked db d)"

definition ledger_inv :: "cdb \<Rightarrow> bool" where
  "ledger_inv db \<longleftrightarrow> tasks_inv db \<and> outbox_inv db \<and> link_inv db \<and> dead_inv db"

lemmas ledger_inv_defs =
  ledger_inv_def tasks_inv_def outbox_inv_def link_inv_def dead_inv_def

lemma ledger_invD:
  assumes "ledger_inv db"
  shows "tasks_inv db" "outbox_inv db" "link_inv db" "dead_inv db"
    and "distinct (map t_id (tasks db))" "distinct (map t_idempotency_key (tasks db))"
    and "distinct (map event_of (outbox db))" "distinct (map o_id (outbox db))"
  using assms by (auto simp: ledger_inv_defs)

lemma ledger_inv_empty: "ledger_inv empty_cdb"
  by (simp add: ledger_inv_defs empty_cdb_def)

lemma ledger_task_ok: "ledger_inv db \<Longrightarrow> r \<in> set (tasks db) \<Longrightarrow> task_ok r"
  by (simp add: ledger_inv_def tasks_inv_def)

lemma task_by_id_mem:
  "task_by_id db i = Some r \<Longrightarrow> r \<in> set (tasks db)" "task_by_id db i = Some r \<Longrightarrow> t_id r = i"
  by (auto dest: fetch_key_SomeD)

lemma ledger_task_by_id:
  "ledger_inv db \<Longrightarrow> r \<in> set (tasks db) \<Longrightarrow> task_by_id db (t_id r) = Some r"
  by (auto intro: fetch_key_unique ledger_invD)

text \<open>Without its guard, a \<open>find\<close> by a predicate on a unique key is a lookup by that key.\<close>

lemma find_key:
  assumes "distinct (map key rows)" and "\<And>r. P r \<Longrightarrow> key r = k"
  shows "find P rows = (case fetch_key key k rows of None \<Rightarrow> None
                        | Some r \<Rightarrow> if P r then Some r else None)"
  using assms(1)
proof (induction rows)
  case (Cons a rows)
  have "key a = k \<Longrightarrow> fetch_key key k rows = None"
    using Cons.prems by (auto simp: fetch_key_None_iff)
  moreover have "P a \<Longrightarrow> key a = k" by (rule assms(2))
  ultimately show ?case using Cons by (auto split: option.splits)
qed simp

section \<open>How updates of one row act\<close>

lemma owns_id: "owns L r \<Longrightarrow> t_id r = l_id L"
  by (simp add: owns_def)

lemma owns_running: "owns L r \<Longrightarrow> t_status r = RUNNING"
  by (simp add: owns_def)

lemma leasable_id: "leasable now i g r \<Longrightarrow> t_id r = i"
  by (simp add: leasable_def)

lemma clear_lease_fields [simp, row_simps]:
  "t_id (clear_lease r) = t_id r" "t_generation (clear_lease r) = t_generation r"
  "t_idempotency_key (clear_lease r) = t_idempotency_key r"
  "t_attempts (clear_lease r) = t_attempts r"
  "t_max_attempts (clear_lease r) = t_max_attempts r"
  "t_leased_at (clear_lease r) = t_leased_at r"
  "t_status (clear_lease r) = t_status r"
  "t_lease_owner (clear_lease r) = None"
  "t_lease_started_at (clear_lease r) = None"
  "t_lease_expires_at (clear_lease r) = None"
  by (simp_all add: clear_lease_def)

lemma take_lease_fields [simp, row_simps]:
  "t_id (take_lease w s now r) = t_id r"
  "t_generation (take_lease w s now r) = t_generation r"
  "t_idempotency_key (take_lease w s now r) = t_idempotency_key r"
  "t_attempts (take_lease w s now r) = t_attempts r"
  "t_max_attempts (take_lease w s now r) = t_max_attempts r"
  "t_status (take_lease w s now r) = RUNNING"
  "t_lease_owner (take_lease w s now r) = Some w"
  "t_lease_started_at (take_lease w s now r) = Some now"
  "t_lease_expires_at (take_lease w s now r) = Some (now + seconds s)"
  "t_leased_at (take_lease w s now r) = t_leased_at r"
  by (simp_all add: take_lease_def)

lemma mark_done_fields [simp, row_simps]:
  "t_id (mark_done m now r) = t_id r" "t_generation (mark_done m now r) = t_generation r"
  "t_idempotency_key (mark_done m now r) = t_idempotency_key r"
  "t_attempts (mark_done m now r) = t_attempts r"
  "t_max_attempts (mark_done m now r) = t_max_attempts r"
  "t_status (mark_done m now r) = DONE"
  "t_lease_owner (mark_done m now r) = None"
  "t_lease_started_at (mark_done m now r) = None"
  "t_lease_expires_at (mark_done m now r) = None"
  "t_leased_at (mark_done m now r) = t_leased_at r"
  by (simp_all add: mark_done_def)

lemma mark_dead_fields [simp, row_simps]:
  "t_id (mark_dead e c now r) = t_id r" "t_generation (mark_dead e c now r) = t_generation r"
  "t_idempotency_key (mark_dead e c now r) = t_idempotency_key r"
  "t_attempts (mark_dead e c now r) = t_attempts r + 1"
  "t_max_attempts (mark_dead e c now r) = t_max_attempts r"
  "t_status (mark_dead e c now r) = DEAD_LETTER"
  "t_lease_owner (mark_dead e c now r) = None"
  "t_lease_started_at (mark_dead e c now r) = None"
  "t_lease_expires_at (mark_dead e c now r) = None"
  "t_leased_at (mark_dead e c now r) = t_leased_at r"
  by (simp_all add: mark_dead_def)

lemma mark_retry_fields [simp, row_simps]:
  "t_id (mark_retry n e c now r) = t_id r"
  "t_generation (mark_retry n e c now r) = t_generation r + 1"
  "t_idempotency_key (mark_retry n e c now r) = t_idempotency_key r"
  "t_attempts (mark_retry n e c now r) = t_attempts r + 1"
  "t_max_attempts (mark_retry n e c now r) = t_max_attempts r"
  "t_status (mark_retry n e c now r) = RETRY_SCHEDULED"
  "t_next_run_at (mark_retry n e c now r) = n"
  "t_lease_owner (mark_retry n e c now r) = None"
  "t_lease_started_at (mark_retry n e c now r) = None"
  "t_lease_expires_at (mark_retry n e c now r) = None"
  "t_leased_at (mark_retry n e c now r) = t_leased_at r"
  by (simp_all add: mark_retry_def)

section \<open>Updates that keep the invariant\<close>

lemma task_by_id_update:
  "(\<And>r. P r \<Longrightarrow> t_id (f r) = t_id r) \<Longrightarrow>
     task_by_id (db\<lparr>tasks := update_where P f (tasks db)\<rparr>) i
       = map_option (\<lambda>r. if P r then f r else r) (task_by_id db i)"
  by (simp add: fetch_key_update_where)

text \<open>
  An \<open>UPDATE worker_tasks\<close> that keeps ids, keys and generations, leaves no row waiting to
  be enqueued and does not touch dead letters.
\<close>

lemma ledger_inv_update_tasks:
  assumes inv: "ledger_inv db"
    and keys: "\<And>r. P r \<Longrightarrow> t_id (f r) = t_id r"
      "\<And>r. P r \<Longrightarrow> t_idempotency_key (f r) = t_idempotency_key r"
      "\<And>r. P r \<Longrightarrow> t_generation (f r) = t_generation r"
    and ok: "\<And>r. task_ok r \<Longrightarrow> P r \<Longrightarrow> task_ok (f r)"
    and status: "\<And>r. P r \<Longrightarrow> t_status (f r) \<notin> {PENDING, RETRY_SCHEDULED}"
    and alive: "\<And>r. P r \<Longrightarrow> t_status r \<noteq> DEAD_LETTER"
  shows "ledger_inv (db\<lparr>tasks := update_where P f (tasks db)\<rparr>)" (is "ledger_inv ?db")
  unfolding ledger_inv_def
proof (intro conjI)
  have "map t_id (tasks ?db) = map t_id (tasks db)"
    "map t_idempotency_key (tasks ?db) = map t_idempotency_key (tasks db)"
    using keys by (simp_all add: map_update_where)
  moreover have "\<forall>r\<in>set (tasks ?db). task_ok r \<and> t_id r < task_seq db"
    using inv keys(1) ok by (simp add: ledger_inv_def tasks_inv_def ball_update_where)
  ultimately show "tasks_inv ?db"
    using inv by (simp add: ledger_inv_def tasks_inv_def)
  show "outbox_inv ?db"
    using inv by (simp add: ledger_inv_def outbox_inv_def)
  have look: "task_by_id ?db i = map_option (\<lambda>r. if P r then f r else r) (task_by_id db i)" for i
    using keys(1) by (rule task_by_id_update)
  have "event_linked ?db e" if e: "event_linked db e" for e
  proof -
    from e obtain r where r: "task_by_id db (o_task_id e) = Some r" "o_generation e \<le> t_generation r"
      by (auto simp: event_linked_def)
    then have "task_by_id ?db (o_task_id e) = Some (if P r then f r else r)"
      unfolding look by simp
    with r keys(3) [of r] show ?thesis by (auto simp: event_linked_def)
  qed
  moreover have "(P r \<longrightarrow> task_linked ?db (f r)) \<and> (\<not> P r \<longrightarrow> task_linked ?db r)"
    if "task_linked db r" for r
    using that keys status [of r] by (auto simp: task_linked_def)
  ultimately show "link_inv ?db"
    using inv by (simp add: ledger_inv_def link_inv_def ball_update_where)
  have "dead_linked ?db d" if "dead_linked db d" for d
    using that alive unfolding dead_linked_def look by auto
  then show "dead_inv ?db"
    using inv by (simp add: ledger_inv_def dead_inv_def)
qed

text \<open>A new dead letter for a task that is \<open>DEAD_LETTER\<close>.\<close>

lemma ledger_inv_add_dead:
  assumes inv: "ledger_inv db" and d: "d_id d = dead_seq db" "dead_linked db d"
  shows "ledger_inv (db\<lparr>dead_letters := dead_letters db @ [d], dead_seq := dead_seq db + 1\<rparr>)"
    (is "ledger_inv ?db")
proof -
  have same: "event_linked ?db e = event_linked db e" "task_linked ?db r = task_linked db r"
    "dead_linked ?db d' = dead_linked db d'" for e r d'
    by (simp_all add: event_linked_def task_linked_def dead_linked_def)
  have ids: "\<forall>x\<in>set (dead_letters db). d_id x < dead_seq db"
    using inv by (simp add: ledger_inv_def dead_inv_def)
  then have "dead_inv ?db"
    using inv d by (auto simp: ledger_inv_def dead_inv_def same)
  then show ?thesis
    using inv by (simp add: ledger_inv_def tasks_inv_def outbox_inv_def link_inv_def same)
qed

text \<open>
  A new event. It may be the event of a task whose generation has just been raised: the
  premise is the invariant but for the missing event of task \<open>i\<close>.
\<close>

definition ledger_inv_but :: "int \<Rightarrow> cdb \<Rightarrow> bool" where
  "ledger_inv_but i db \<longleftrightarrow>
     tasks_inv db \<and> outbox_inv db \<and> dead_inv db \<and>
     (\<forall>e\<in>set (outbox db). event_linked db e) \<and>
     (\<forall>r\<in>set (tasks db). t_id r \<noteq> i \<longrightarrow> task_linked db r)"

lemma ledger_inv_but_weak: "ledger_inv db \<Longrightarrow> ledger_inv_but i db"
  by (simp add: ledger_inv_def ledger_inv_but_def link_inv_def)

lemma outbox_event_insert:
  "outbox_event (insert_event e db) i g
     = (if event_of e = (i, g) \<and> outbox_event db i g = None
        then Some (e\<lparr>o_id := outbox_seq db\<rparr>) else outbox_event db i g)"
  by (auto simp: insert_event_def Let_def fetch_key_append split: option.splits)

lemma tasks_insert_event [simp]:
  "tasks (insert_event e db) = tasks db" "task_seq (insert_event e db) = task_seq db"
  "dead_letters (insert_event e db) = dead_letters db" "dead_seq (insert_event e db) = dead_seq db"
  "replays (insert_event e db) = replays db" "replay_seq (insert_event e db) = replay_seq db"
  by (auto simp: insert_event_def Let_def split: option.splits)

lemma outbox_inv_insert_event:
  assumes inv: "outbox_inv db" and e: "event_ok e"
  shows "outbox_inv (insert_event e db)"
proof (cases "fetch_key event_of (event_of e) (outbox db)")
  case None
  have ids: "\<forall>x\<in>set (outbox db). o_id x < outbox_seq db"
    using inv by (simp add: outbox_inv_def)
  have "event_ok (e\<lparr>o_id := n\<rparr>)" for n
    using e by (auto simp: event_ok_def)
  moreover from None have "event_of e \<notin> event_of ` set (outbox db)"
    by (simp only: fetch_key_None_iff not_False_eq_True)
  ultimately show ?thesis
    using None inv ids by (auto simp: outbox_inv_def insert_event_def)
next
  case (Some x)
  then show ?thesis
    using inv by (auto simp: outbox_inv_def insert_event_def)
qed

lemma ledger_inv_insert_event:
  assumes inv: "ledger_inv_but (o_task_id e) db"
    and r: "task_by_id db (o_task_id e) = Some r" and gen: "t_generation r = o_generation e"
    and e: "pristine e" "event_ok e"
    and old: "\<And>e0. outbox_event db (o_task_id e) (o_generation e) = Some e0 \<Longrightarrow>
                t_status r \<in> {PENDING, RETRY_SCHEDULED} \<longrightarrow> pristine e0"
  shows "ledger_inv (insert_event e db)" (is "ledger_inv ?db")
  unfolding ledger_inv_def
proof (intro conjI)
  have base: "tasks_inv db" "outbox_inv db" "dead_inv db"
    using inv by (auto simp: ledger_inv_but_def)
  show "tasks_inv ?db" using base by (simp add: tasks_inv_def)
  show "outbox_inv ?db" using base e by (simp add: outbox_inv_insert_event)
  show "dead_inv ?db" using base by (simp add: dead_inv_def dead_linked_def)
  have "event_linked ?db x" if "x \<in> set (outbox ?db)" for x
  proof -
    have "x \<in> set (outbox db) \<or> x = e\<lparr>o_id := outbox_seq db\<rparr>"
      using that by (auto simp: insert_event_def Let_def split: option.splits)
    then show ?thesis
      using inv r gen by (auto simp: event_linked_def ledger_inv_but_def)
  qed
  moreover have "task_linked ?db x" if x: "x \<in> set (tasks db)" for x
  proof (cases "t_id x = o_task_id e")
    case True
    with x r base(1) have "x = r"
      by (auto simp: tasks_inv_def dest: fetch_key_unique)
    moreover have "pristine (e\<lparr>o_id := n\<rparr>)" for n
      using e(1) by (simp add: pristine_def)
    ultimately show ?thesis
      using True gen old by (auto simp: task_linked_def outbox_event_insert)
  next
    case False
    then show ?thesis
      using inv x by (auto simp: task_linked_def outbox_event_insert ledger_inv_but_def)
  qed
  ultimately show "link_inv ?db" by (simp add: link_inv_def)
qed

section \<open>Each operation keeps the invariant\<close>

lemma lease_task_inv: "ledger_inv db \<Longrightarrow> ledger_inv (snd (lease_task i g w s now db))"
  by (auto simp: lease_task_def leasable_def task_ok_def split: option.splits
      intro!: ledger_inv_update_tasks)

lemma complete_task_inv: "ledger_inv db \<Longrightarrow> ledger_inv (snd (complete_task L m now db))"
  by (auto simp: complete_task_def owns_def task_ok_def intro!: ledger_inv_update_tasks)

lemma dead_letter_task_inv:
  assumes "ledger_inv db"
  shows "ledger_inv (snd (dead_letter_task L e c now db))"
proof (cases "find (owns L) (tasks db)")
  case None
  with assms show ?thesis by (simp add: dead_letter_task_def)
next
  case (Some r)
  let ?f = "mark_dead e c now"
  let ?db = "db\<lparr>tasks := update_where (owns L) ?f (tasks db)\<rparr>"
  have inv: "ledger_inv ?db"
    using assms by (auto simp: owns_def task_ok_def intro!: ledger_inv_update_tasks)
  from Some have r: "r \<in> set (tasks db)" "owns L r"
    by (auto simp: find_Some_iff)
  with assms have "task_by_id db (t_id r) = Some r" by (simp add: ledger_task_by_id)
  with r have "dead_linked ?db (dead_letter_of (?f r) e c now n)" for n
    by (simp add: dead_linked_def dead_letter_of_def fetch_key_update_where)
  with inv have "ledger_inv (?db\<lparr>dead_letters := dead_letters ?db @
      [dead_letter_of (?f r) e c now (dead_seq db)], dead_seq := dead_seq ?db + 1\<rparr>)"
    by (intro ledger_inv_add_dead) (simp_all add: dead_letter_of_def)
  with Some show ?thesis by (simp add: dead_letter_task_def Let_def)
qed

lemma ready_event_fields [simp, row_simps]:
  "o_task_id (ready_event i g a now) = i" "o_generation (ready_event i g a now) = g"
  "o_available_at (ready_event i g a now) = a" "o_published_at (ready_event i g a now) = None"
  "o_claim_token (ready_event i g a now) = None"
  "o_claim_expires_at (ready_event i g a now) = None"
  "event_ok (ready_event i g a now)" "pristine (ready_event i g a now)"
  by (simp_all add: ready_event_def event_ok_def pristine_def)

text \<open>No event exists yet for a generation the task has not reached.\<close>

lemma no_future_event:
  assumes "ledger_inv db" and "task_by_id db i = Some r" and "t_generation r < g"
  shows "outbox_event db i g = None"
proof (rule ccontr)
  assume "outbox_event db i g \<noteq> None"
  then obtain e where e: "e \<in> set (outbox db)" "o_task_id e = i" "o_generation e = g"
    by (auto dest: fetch_key_SomeD)
  with assms(1) have "event_linked db e" by (simp add: ledger_inv_def link_inv_def)
  with e assms(2,3) show False by (auto simp: event_linked_def)
qed

lemma schedule_retry_inv:
  assumes inv: "ledger_inv db"
  shows "ledger_inv (snd (schedule_retry L e d c utc now db))"
proof (cases "find (owns L) (tasks db)")
  case None
  with inv show ?thesis by (simp add: schedule_retry_def Let_def)
next
  case (Some r)
  define f where "f = mark_retry (utc + delay_us d) e c now"
  define db1 where "db1 = db\<lparr>tasks := update_where (owns L) f (tasks db)\<rparr>"
  have f [simp]: "t_id (f x) = t_id x" "t_idempotency_key (f x) = t_idempotency_key x"
    "t_generation (f x) = t_generation x + 1" "t_status (f x) = RETRY_SCHEDULED"
    "task_ok x \<Longrightarrow> owns L x \<Longrightarrow> task_ok (f x)" for x
    by (auto simp: f_def task_ok_def owns_def)
  have look: "task_by_id db1 i = map_option (\<lambda>x. if owns L x then f x else x) (task_by_id db i)" for i
    unfolding db1_def by (rule task_by_id_update) simp
  from Some have r: "r \<in> set (tasks db)" "owns L r" by (auto simp: find_Some_iff)
  with inv have row: "task_by_id db (t_id r) = Some r" by (simp add: ledger_task_by_id)
  then have row1: "task_by_id db1 (t_id r) = Some (f r)" using r by (simp add: look)
  have "tasks_inv db1"
    using inv unfolding tasks_inv_def db1_def
    by (simp add: ledger_inv_defs map_update_where ball_update_where)
  moreover have "event_linked db1 x" if "event_linked db x" for x
  proof -
    from that obtain y where "task_by_id db (o_task_id x) = Some y" "o_generation x \<le> t_generation y"
      by (auto simp: event_linked_def)
    then show ?thesis by (auto simp: event_linked_def look)
  qed
  moreover have "dead_linked db1 x" if "dead_linked db x" for x
  proof -
    from that obtain y where y: "task_by_id db (d_original_task_id x) = Some y" "t_status y = DEAD_LETTER"
      by (auto simp: dead_linked_def)
    then have "\<not> owns L y" by (auto dest: owns_running)
    with y show ?thesis by (simp add: dead_linked_def look)
  qed
  moreover have "task_linked db1 x" if "x \<in> set (tasks db)" "\<not> owns L x" for x
    using inv that by (simp add: ledger_inv_def link_inv_def task_linked_def db1_def)
  moreover have "x \<in> set (tasks db1) \<Longrightarrow> t_id x \<noteq> t_id r \<Longrightarrow> x \<in> set (tasks db) \<and> \<not> owns L x" for x
    using owns_id [OF r(2)] by (auto simp: db1_def set_update_where owns_id)
  ultimately have "ledger_inv_but (t_id r) db1"
    using inv by (auto simp: ledger_inv_but_def ledger_inv_defs db1_def)
  moreover have "outbox_event db1 (t_id r) (t_generation r + 1) = None"
    using no_future_event [OF inv row] by (simp add: db1_def)
  ultimately have "ledger_inv (insert_event (ready_event (t_id r) (t_generation r + 1) a now) db1)" for a
    using row1 by (intro ledger_inv_insert_event) auto
  with Some show ?thesis by (simp add: schedule_retry_def Let_def f_def db1_def)
qed

lemma ledger_inv_task_seq [simp]: "ledger_inv db \<Longrightarrow> ledger_inv (db\<lparr>task_seq := task_seq db + 1\<rparr>)"
proof -
  assume inv: "ledger_inv db"
  then have "\<forall>r\<in>set (tasks db). t_id r < task_seq db + 1"
    by (auto simp: ledger_inv_def tasks_inv_def)
  with inv show ?thesis
    by (simp add: ledger_inv_defs event_linked_def task_linked_def dead_linked_def)
qed

lemma new_task_fields [simp, row_simps]:
  "t_idempotency_key (new_task ty p m run key prio og rp now) = key"
  "t_status (new_task ty p m run key prio og rp now) = PENDING"
  "t_generation (new_task ty p m run key prio og rp now) = 0"
  "t_attempts (new_task ty p m run key prio og rp now) = 0"
  "t_max_attempts (new_task ty p m run key prio og rp now) = m"
  "t_next_run_at (new_task ty p m run key prio og rp now) = run"
  "0 < m \<Longrightarrow> task_ok (new_task ty p m run key prio og rp now\<lparr>t_id := i\<rparr>)"
  by (auto simp: new_task_def task_ok_def)

lemma insert_task_cases:
  obtains (old) r0 where "task_by_key db (t_idempotency_key r) = Some r0"
      "insert_task r db = (r0, db\<lparr>task_seq := task_seq db + 1\<rparr>)"
  | (new) "task_by_key db (t_idempotency_key r) = None"
      "insert_task r db = (r\<lparr>t_id := task_seq db\<rparr>,
         db\<lparr>task_seq := task_seq db + 1, tasks := tasks db @ [r\<lparr>t_id := task_seq db\<rparr>]\<rparr>)"
  by (cases "task_by_key db (t_idempotency_key r)") (auto simp: insert_task_def Let_def)

text \<open>
  Inserting a fresh task that waits for its first event leaves a database that only misses
  that event.
\<close>

lemma insert_task_new_inv:
  assumes inv: "ledger_inv db" and fresh: "task_by_key db (t_idempotency_key r) = None"
    and ok: "task_ok (r\<lparr>t_id := task_seq db\<rparr>)"
  defines "r1 \<equiv> r\<lparr>t_id := task_seq db\<rparr>"
  defines "db1 \<equiv> db\<lparr>task_seq := task_seq db + 1, tasks := tasks db @ [r1]\<rparr>"
  shows "ledger_inv_but (task_seq db) db1" and "task_by_id db1 (task_seq db) = Some r1"
    and "outbox_event db1 (task_seq db) g = None"
proof -
  have ids: "\<forall>x\<in>set (tasks db). t_id x < task_seq db"
    using inv by (simp add: ledger_inv_def tasks_inv_def)
  then have none: "task_by_id db (task_seq db) = None"
    by (auto simp: fetch_key_None_iff)
  then show row: "task_by_id db1 (task_seq db) = Some r1"
    by (simp add: db1_def r1_def fetch_key_append)
  have look: "task_by_id db i = Some x \<Longrightarrow> task_by_id db1 i = Some x" for i x
    by (simp add: db1_def fetch_key_append)
  have "event_linked db1 x" if "event_linked db x" for x
    using that look by (auto simp: event_linked_def)
  moreover have "dead_linked db1 x" if "dead_linked db x" for x
    using that look by (auto simp: dead_linked_def)
  moreover have "tasks_inv db1"
    using inv ids fresh ok
    by (auto simp: ledger_inv_defs db1_def r1_def fetch_key_None_iff)
  moreover have "task_linked db1 x = task_linked db x" for x
    by (simp add: task_linked_def db1_def)
  moreover have "t_id r1 = task_seq db" by (simp add: r1_def)
  ultimately show "ledger_inv_but (task_seq db) db1"
    using inv by (auto simp: ledger_inv_but_def ledger_inv_defs db1_def)
  have "event_linked db e" if "e \<in> set (outbox db)" for e
    using inv that by (simp add: ledger_inv_defs)
  then have "(task_seq db, g) \<notin> event_of ` set (outbox db)"
    using none by (fastforce simp: event_linked_def)
  then show "outbox_event db1 (task_seq db) g = None"
    by (simp add: db1_def fetch_key_None_iff)
qed

lemma create_task_inv:
  assumes inv: "ledger_inv db"
    and made: "create_task ty p key m prio nra utc now db = Inr (i, db')"
  shows "ledger_inv db'"
proof -
  define run where "run = (case nra of None \<Rightarrow> utc | Some t \<Rightarrow> t)"
  define r where "r = new_task ty p m run key prio None None now"
  from made have args: "key \<noteq> []" "0 < m"
    by (auto simp: create_task_def split: if_splits)
  show ?thesis
  proof (cases rule: insert_task_cases [of r db])
    case (old r0)
    define db1 where "db1 = db\<lparr>task_seq := task_seq db + 1\<rparr>"
    have inv1: "ledger_inv db1" using inv by (simp add: db1_def)
    from old(1) have r0: "r0 \<in> set (tasks db)" by (auto dest: fetch_key_SomeD)
    with inv have row: "task_by_id db1 (t_id r0) = Some r0"
      by (simp add: db1_def ledger_task_by_id)
    have "task_linked db1 r0" using inv1 r0 by (simp add: ledger_inv_def link_inv_def db1_def)
    then have "ledger_inv (insert_event (ready_event (t_id r0) (t_generation r0) (t_next_run_at r0) now) db1)"
      using inv1 row by (intro ledger_inv_insert_event) (auto simp: ledger_inv_but_weak task_linked_def)
    with made old row inv1 args show ?thesis
      by (auto simp: create_task_def Let_def r_def run_def db1_def split: if_splits)
  next
    case new
    let ?r1 = "r\<lparr>t_id := task_seq db\<rparr>"
    let ?db1 = "db\<lparr>task_seq := task_seq db + 1, tasks := tasks db @ [?r1]\<rparr>"
    have ok: "task_ok ?r1" using args by (simp add: r_def)
    note made1 = insert_task_new_inv [OF inv new(1) ok]
    have "ledger_inv (insert_event (ready_event (task_seq db) 0 a now) ?db1)" for a
      using made1 by (intro ledger_inv_insert_event [where r = ?r1]) (simp_all add: r_def)
    moreover have "db' = insert_event (ready_event (task_seq db) 0 run now) ?db1"
      using made args new made1(2) by (auto simp: create_task_def Let_def run_def r_def)
    ultimately show ?thesis by simp
  qed
qed

section \<open>What the operations answer\<close>

definition leased_by :: "cdb \<Rightarrow> task_lease \<Rightarrow> bool" where
  "leased_by db L \<longleftrightarrow> (case task_by_id db (l_id L) of None \<Rightarrow> False | Some r \<Rightarrow> owns L r)"

lemma find_owns:
  assumes "ledger_inv db"
  shows "find (owns L) (tasks db)
    = (case task_by_id db (l_id L) of None \<Rightarrow> None | Some r \<Rightarrow> if owns L r then Some r else None)"
  using assms by (intro find_key [where k = "l_id L"]) (auto simp: ledger_invD owns_id)

lemma find_leasable:
  assumes "ledger_inv db"
  shows "find (leasable now i g) (tasks db)
    = (case task_by_id db i of None \<Rightarrow> None | Some r \<Rightarrow> if leasable now i g r then Some r else None)"
  using assms by (intro find_key [where k = i]) (auto simp: ledger_invD leasable_id)

lemma count_owns:
  assumes "ledger_inv db" and "\<And>r. P r \<Longrightarrow> owns L r"
  shows "count_where P (tasks db) = 1 \<longleftrightarrow>
    (\<exists>r. task_by_id db (l_id L) = Some r \<and> P r)"
  using assms by (intro count_where_key_1) (auto simp: ledger_invD owns_id)

lemma leased_byE:
  assumes "leased_by db L"
  obtains r where "task_by_id db (l_id L) = Some r" and "owns L r"
  using assms by (auto simp: leased_by_def split: option.splits)

lemma not_owned_update:
  assumes "ledger_inv db" and "\<not> leased_by db L" and "\<And>r. P r \<Longrightarrow> owns L r"
  shows "update_where P f (tasks db) = tasks db"
proof (rule update_where_id)
  fix r assume r: "r \<in> set (tasks db)"
  show "\<not> P r"
  proof
    assume "P r"
    then have "owns L r" by (rule assms(3))
    moreover from this have "task_by_id db (l_id L) = Some r"
      using ledger_task_by_id [OF assms(1) r] by (simp add: owns_id)
    ultimately show False using assms(2) by (simp add: leased_by_def)
  qed
qed

section \<open>The contract of a fenced operation\<close>

text \<open>
  What a worker may rely on when it changes a task through its lease: the operation answers
  \<open>True\<close> exactly when the database still records this owner for this generation (and the
  guard of the operation holds), otherwise it changes nothing; it keeps the invariant and
  leaves every other task alone.
\<close>

locale fenced_op =
  fixes op :: "task_lease \<Rightarrow> cdb \<Rightarrow> bool \<times> cdb"
    and guard :: "task_row \<Rightarrow> bool"
  assumes answers: "ledger_inv db \<Longrightarrow>
      fst (op L db) \<longleftrightarrow> (\<exists>r. task_by_id db (l_id L) = Some r \<and> owns L r \<and> guard r)"
    and frame: "ledger_inv db \<Longrightarrow> \<not> fst (op L db) \<Longrightarrow> snd (op L db) = db"
    and keeps: "ledger_inv db \<Longrightarrow> ledger_inv (snd (op L db))"
    and others: "ledger_inv db \<Longrightarrow> i \<noteq> l_id L \<Longrightarrow> task_by_id (snd (op L db)) i = task_by_id db i"
begin

lemma needs_lease: "ledger_inv db \<Longrightarrow> fst (op L db) \<Longrightarrow> leased_by db L"
  by (auto simp: answers leased_by_def)

lemma lost_lease: "ledger_inv db \<Longrightarrow> \<not> leased_by db L \<Longrightarrow> \<not> fst (op L db) \<and> snd (op L db) = db"
  using needs_lease frame by blast

end

text \<open>A transition out of RUNNING also gives the lease up, whoever held it.\<close>

locale releasing_op = fenced_op op "\<lambda>_. True" for op :: "task_lease \<Rightarrow> cdb \<Rightarrow> bool \<times> cdb" +
  assumes gives_up: "ledger_inv db \<Longrightarrow> fst (op L db) \<Longrightarrow>
      \<exists>r. task_by_id (snd (op L db)) (l_id L) = Some r \<and> t_lease_owner r = None"
begin

lemma succeeds_iff: "ledger_inv db \<Longrightarrow> fst (op L db) \<longleftrightarrow> leased_by db L"
  by (auto simp: answers leased_by_def split: option.splits)

lemma nobody_after: "ledger_inv db \<Longrightarrow> fst (op L db) \<Longrightarrow> l_id L' = l_id L \<Longrightarrow> \<not> leased_by (snd (op L db)) L'"
  using gives_up by (fastforce simp: leased_by_def owns_def)

end

text \<open>The three transitions of the repository honour it.\<close>

lemma complete_task_row:
  assumes "ledger_inv db"
  shows "task_by_id (snd (complete_task L m now db)) i
    = map_option (\<lambda>r. if owns L r then mark_done m now r else r) (task_by_id db i)"
  by (simp add: complete_task_def fetch_key_update_where)

lemma schedule_retry_row:
  assumes "ledger_inv db"
  shows "task_by_id (snd (schedule_retry L e d c utc now db)) i
    = map_option (\<lambda>r. if owns L r then mark_retry (utc + delay_us d) e c now r else r) (task_by_id db i)"
proof (cases "task_by_id db i")
  case None
  with assms show ?thesis
    by (simp add: schedule_retry_def Let_def fetch_key_update_where split: option.splits)
next
  case (Some r)
  then have "owns L r \<Longrightarrow> i = l_id L" by (auto dest: fetch_key_SomeD simp: owns_id)
  with assms Some show ?thesis
    by (auto simp: schedule_retry_def Let_def fetch_key_update_where find_owns split: option.splits)
qed

lemma dead_letter_task_row:
  assumes "ledger_inv db"
  shows "task_by_id (snd (dead_letter_task L e c now db)) i
    = map_option (\<lambda>r. if owns L r then mark_dead e c now r else r) (task_by_id db i)"
proof (cases "task_by_id db i")
  case None
  with assms show ?thesis
    by (simp add: dead_letter_task_def Let_def fetch_key_update_where split: option.splits)
next
  case (Some r)
  then have "owns L r \<Longrightarrow> i = l_id L" by (auto dest: fetch_key_SomeD simp: owns_id)
  with assms Some show ?thesis
    by (auto simp: dead_letter_task_def Let_def fetch_key_update_where find_owns split: option.splits)
qed

lemma row_other:
  "i \<noteq> l_id L \<Longrightarrow> map_option (\<lambda>r. if owns L r then f r else r) (task_by_id db i) = task_by_id db i"
  by (cases "task_by_id db i") (auto dest: fetch_key_SomeD simp: owns_id)

lemma complete_task_answer:
  assumes "ledger_inv db"
  shows "fst (complete_task L m now db) \<longleftrightarrow> leased_by db L"
  using count_owns [OF assms, of "owns L" L]
  by (auto simp: complete_task_def leased_by_def split: option.splits)

interpretation complete: releasing_op "\<lambda>L. complete_task L m now" for m now
proof unfold_locales
  fix db L i assume inv: "ledger_inv db"
  show "fst (complete_task L m now db) = (\<exists>r. task_by_id db (l_id L) = Some r \<and> owns L r \<and> True)"
    unfolding complete_task_answer [OF inv] by (auto simp: leased_by_def split: option.splits)
  show "ledger_inv (snd (complete_task L m now db))" by (rule complete_task_inv [OF inv])
  show "i \<noteq> l_id L \<Longrightarrow> task_by_id (snd (complete_task L m now db)) i = task_by_id db i"
    by (simp add: complete_task_row [OF inv] row_other)
  show "\<not> fst (complete_task L m now db) \<Longrightarrow> snd (complete_task L m now db) = db"
    unfolding complete_task_answer [OF inv]
    by (simp add: complete_task_def not_owned_update [OF inv, of L])
  show "fst (complete_task L m now db) \<Longrightarrow>
      \<exists>r. task_by_id (snd (complete_task L m now db)) (l_id L) = Some r \<and> t_lease_owner r = None"
    unfolding complete_task_answer [OF inv] complete_task_row [OF inv]
    by (auto elim!: leased_byE)
qed

interpretation retry: releasing_op "\<lambda>L. schedule_retry L e d c utc now" for e d c utc now
proof unfold_locales
  fix db L i assume inv: "ledger_inv db"
  show "fst (schedule_retry L e d c utc now db) = (\<exists>r. task_by_id db (l_id L) = Some r \<and> owns L r \<and> True)"
    by (auto simp: schedule_retry_def Let_def find_owns [OF inv] split: option.splits)
  show "ledger_inv (snd (schedule_retry L e d c utc now db))" by (rule schedule_retry_inv [OF inv])
  show "i \<noteq> l_id L \<Longrightarrow> task_by_id (snd (schedule_retry L e d c utc now db)) i = task_by_id db i"
    by (simp add: schedule_retry_row [OF inv] row_other)
  show "\<not> fst (schedule_retry L e d c utc now db) \<Longrightarrow> snd (schedule_retry L e d c utc now db) = db"
    by (auto simp: schedule_retry_def Let_def split: option.splits)
  show "fst (schedule_retry L e d c utc now db) \<Longrightarrow>
      \<exists>r. task_by_id (snd (schedule_retry L e d c utc now db)) (l_id L) = Some r \<and> t_lease_owner r = None"
    unfolding schedule_retry_row [OF inv]
    by (auto simp: schedule_retry_def Let_def find_owns [OF inv] split: option.splits if_splits)
qed

interpretation bury: releasing_op "\<lambda>L. dead_letter_task L e c now" for e c now
proof unfold_locales
  fix db L i assume inv: "ledger_inv db"
  show "fst (dead_letter_task L e c now db) = (\<exists>r. task_by_id db (l_id L) = Some r \<and> owns L r \<and> True)"
    by (auto simp: dead_letter_task_def Let_def find_owns [OF inv] split: option.splits)
  show "ledger_inv (snd (dead_letter_task L e c now db))" by (rule dead_letter_task_inv [OF inv])
  show "i \<noteq> l_id L \<Longrightarrow> task_by_id (snd (dead_letter_task L e c now db)) i = task_by_id db i"
    by (simp add: dead_letter_task_row [OF inv] row_other)
  show "\<not> fst (dead_letter_task L e c now db) \<Longrightarrow> snd (dead_letter_task L e c now db) = db"
    by (auto simp: dead_letter_task_def Let_def split: option.splits)
  show "fst (dead_letter_task L e c now db) \<Longrightarrow>
      \<exists>r. task_by_id (snd (dead_letter_task L e c now db)) (l_id L) = Some r \<and> t_lease_owner r = None"
    unfolding dead_letter_task_row [OF inv]
    by (auto simp: dead_letter_task_def Let_def find_owns [OF inv] split: option.splits if_splits)
qed

section \<open>Sample databases for concrete runs\<close>

text \<open>Task 1 as it is created at time 0, as it waits in the stream, and as \<open>worker-1\<close> runs it.\<close>

definition sample_task :: task_row where
  "sample_task = (new_task ''CAPABILITY_REQUEST'' [] 5 0 ''k'' 100 None None 0)\<lparr>t_id := 1\<rparr>"

definition sample_event :: outbox_row where
  "sample_event = (ready_event 1 0 0 0)\<lparr>o_id := 1\<rparr>"

definition db_of :: "task_row \<Rightarrow> outbox_row \<Rightarrow> cdb" where
  "db_of r e = empty_cdb\<lparr>tasks := [r], outbox := [e], task_seq := 2, outbox_seq := 2\<rparr>"

definition pending_db :: cdb where
  "pending_db = db_of sample_task sample_event"

definition enqueued_db :: cdb where
  "enqueued_db = db_of (sample_task\<lparr>t_status := ENQUEUED, t_enqueued_at := Some 1\<rparr>)
     (sample_event\<lparr>o_published_at := Some 1, o_message_id := Some ''1-0''\<rparr>)"

definition running_db :: cdb where
  "running_db = db_of (take_lease ''worker-1'' 120 10 (sample_task\<lparr>t_enqueued_at := Some 1\<rparr>))
     (sample_event\<lparr>o_published_at := Some 1, o_message_id := Some ''1-0''\<rparr>)"

definition running_lease :: task_lease where
  "running_lease = lease_of sample_task ''worker-1'' (10 + seconds 120)"

lemmas sample_defs = sample_task_def sample_event_def db_of_def pending_db_def enqueued_db_def
  running_db_def running_lease_def empty_cdb_def new_task_def ready_event_def take_lease_def lease_of_def

lemmas sample_checks = ledger_inv_defs task_ok_def event_ok_def event_linked_def task_linked_def
  dead_linked_def pristine_def

lemma sample_inv: "ledger_inv pending_db" "ledger_inv enqueued_db" "ledger_inv running_db"
  by (simp_all add: sample_defs sample_checks)

lemma sample_rows:
  "task_by_id running_db 1 = Some (take_lease ''worker-1'' 120 10 (sample_task\<lparr>t_enqueued_at := Some 1\<rparr>))"
  "l_id running_lease = 1" "leased_by running_db running_lease"
  by (simp_all add: sample_defs leased_by_def owns_def)

section \<open>Leasing\<close>

lemma lease_task_row:
  assumes "ledger_inv db"
  shows "task_by_id (snd (lease_task i g w s now db)) j
    = map_option (\<lambda>r. if leasable now i g r then take_lease w s now r else r) (task_by_id db j)"
proof (cases "task_by_id db j")
  case None
  then show ?thesis by (simp add: lease_task_def fetch_key_update_where split: option.splits)
next
  case (Some r)
  then have "leasable now i g r \<Longrightarrow> j = i" by (auto dest: fetch_key_SomeD simp: leasable_id)
  with assms Some show ?thesis
    by (auto simp: lease_task_def fetch_key_update_where find_leasable split: option.splits)
qed

lemma lease_task_outcome:
  assumes inv: "ledger_inv db"
  shows "case lease_task i g w s now db of
      (None, db') \<Rightarrow> db' = db \<and> \<not> (\<exists>r. task_by_id db i = Some r \<and> leasable now i g r)
    | (Some L, db') \<Rightarrow> \<exists>r. task_by_id db i = Some r \<and> leasable now i g r \<and>
        task_by_id db' i = Some (take_lease w s now r) \<and>
        L = lease_of r w (now + seconds s) \<and> leased_by db' L"
proof (cases "find (leasable now i g) (tasks db)")
  case None
  then show ?thesis
    by (auto simp: lease_task_def find_leasable [OF inv] split: option.splits if_splits)
next
  case (Some r)
  then have r: "task_by_id db i = Some r" "leasable now i g r"
    by (auto simp: find_leasable [OF inv] split: option.splits if_splits)
  then have "task_by_id (snd (lease_task i g w s now db)) i = Some (take_lease w s now r)"
    by (simp add: lease_task_row [OF inv])
  with Some r show ?thesis
    by (auto simp: lease_task_def leased_by_def owns_def lease_of_def leasable_def)
qed

text \<open>
  C22: \<open>lease_task\<close> grants a lease exactly when the task exists at the delivered generation, is
  due, and is either enqueued or running under a lease that has expired. The lease describes
  the stored row and names the worker and the end of the time asked for; the row is then running under it and has changed in
  nothing else, and neither has any other task. A refusal changes nothing.
\<close>

theorem lease_task_grants:
  fixes now :: time and g :: int
  assumes inv: "ledger_inv db"
  defines "may_start \<equiv> \<lambda>r. t_generation r = g \<and> t_next_run_at r \<le> now \<and>
    (t_status r = ENQUEUED \<or> t_status r = RUNNING \<and> (\<exists>x. t_lease_expires_at r = Some x \<and> x \<le> now))"
  shows "case lease_task i g w s now db of
      (None, db') \<Rightarrow> db' = db \<and> \<not> (\<exists>r. task_by_id db i = Some r \<and> may_start r)
    | (Some L, db') \<Rightarrow> \<exists>r. task_by_id db i = Some r \<and> may_start r \<and>
        L = \<lparr>l_id = i, l_task_type = t_task_type r, l_payload = t_payload r, l_attempts = t_attempts r,
             l_max_attempts = t_max_attempts r, l_generation = g, l_owner = w, l_expires_at = now + s * 1000000\<rparr> \<and>
        task_by_id db' i = Some (r\<lparr>t_status := RUNNING, t_lease_owner := Some w, t_lease_started_at := Some now,
          t_lease_expires_at := Some (now + s * 1000000), t_updated_at := now\<rparr>) \<and>
        (\<forall>j. j \<noteq> i \<longrightarrow> task_by_id db' j = task_by_id db j) \<and>
        outbox db' = outbox db \<and> dead_letters db' = dead_letters db"
proof -
  have may: "leasable now i g r \<longleftrightarrow> t_id r = i \<and> may_start r" for r
    by (auto simp: leasable_def may_start_def null_le_def split: option.split)
  have row: "task_by_id db i = Some r \<Longrightarrow> t_id r = i" for r by (auto dest: fetch_key_SomeD)
  show ?thesis
  proof (cases "fst (lease_task i g w s now db)")
    case None
    then show ?thesis using lease_task_outcome [OF inv, where i = i and g = g and w = w and s = s and now = now] by (auto simp: may row split: prod.splits)
  next
    case (Some L)
    then obtain db' where run: "lease_task i g w s now db = (Some L, db')" by (cases "lease_task i g w s now db") auto
    then obtain r where r: "task_by_id db i = Some r" "leasable now i g r" "task_by_id db' i = Some (take_lease w s now r)"
      "L = lease_of r w (now + seconds s)"
      using lease_task_outcome [OF inv, where i = i and g = g and w = w and s = s and now = now] by auto
    have others: "task_by_id db' j = task_by_id db j" if "j \<noteq> i" for j
      using lease_task_row [OF inv, where i = i and g = g and w = w and s = s and now = now and j = j] that run
      by (auto simp: may dest: fetch_key_SomeD split: option.splits intro!: option.map_ident_strong)
    have "outbox db' = outbox db" "dead_letters db' = dead_letters db"
      using run by (auto simp: lease_task_def split: option.splits)
    then show ?thesis using run r others by (auto simp: may take_lease_def lease_of_def seconds_def may_start_def)
  qed
qed

theorem lease_task_grants_witness:
  "(case lease_task 1 0 ''worker-2'' 120 10 enqueued_db of
      (None, db') \<Rightarrow> False
    | (Some L, db') \<Rightarrow> l_owner L = ''worker-2'' \<and> (\<exists>r. task_by_id db' 1 = Some r \<and> t_status r = RUNNING))"
  using lease_task_grants [OF sample_inv(2), where i = 1 and g = 0 and w = "''worker-2''" and s = 120 and now = 10]
  by (auto simp: sample_inv lease_task_def leasable_def sample_defs split: option.splits)

text \<open>
  Mutual exclusion: while a lease is live no delivery of the task, whatever its generation and
  whichever worker handles it, obtains another one, and trying changes nothing.
\<close>

theorem live_lease_excludes:
  assumes "ledger_inv db" and "task_by_id db i = Some r"
    and "t_status r = RUNNING" and "null_gt (t_lease_expires_at r) now"
  shows "lease_task i g w s now db = (None, db)"
proof -
  have "\<not> leasable now i g r"
    using assms(3,4) by (auto simp: leasable_def dest: null_le_gt)
  with assms(1,2) show ?thesis by (simp add: lease_task_def find_leasable)
qed

theorem live_lease_excludes_witness:
  "lease_task 1 0 ''worker-2'' 120 (seconds 100) running_db = (None, running_db)"
  by (rule live_lease_excludes [OF sample_inv(3) sample_rows(1)]) (simp_all add: seconds_def)

section \<open>Creating tasks\<close>

lemma outbox_insert_event_old:
  "outbox_event db (o_task_id e) (o_generation e) \<noteq> None \<Longrightarrow> outbox (insert_event e db) = outbox db"
  by (auto simp: insert_event_def)

text \<open>
  Idempotency: creating a task under a key the ledger holds returns the id of the task that
  holds it and leaves the tasks and the outbox as they are, whatever the other arguments.
\<close>

theorem create_task_idempotent:
  assumes inv: "ledger_inv db" and key: "task_by_key db key = Some r"
    and args: "key \<noteq> []" "0 < m"
  shows "\<exists>db'. create_task ty p key m prio nra utc now db = Inr (t_id r, db') \<and>
    tasks db' = tasks db \<and> outbox db' = outbox db \<and> dead_letters db' = dead_letters db"
proof -
  from key have r: "r \<in> set (tasks db)" by (auto dest: fetch_key_SomeD)
  with inv have row: "task_by_id db (t_id r) = Some r" by (rule ledger_task_by_id)
  have "task_linked db r" using inv r by (simp add: ledger_inv_def link_inv_def)
  then have "outbox_event (db\<lparr>task_seq := n\<rparr>) (t_id r) (t_generation r) \<noteq> None" for n
    by (auto simp: task_linked_def)
  then have "outbox (insert_event (ready_event (t_id r) (t_generation r) a now) (db\<lparr>task_seq := n\<rparr>)) = outbox db" for a n
    using outbox_insert_event_old [of "ready_event (t_id r) (t_generation r) a now" "db\<lparr>task_seq := n\<rparr>"]
    by simp
  with key row args show ?thesis
    by (simp add: create_task_def Let_def insert_task_def)
qed

theorem create_task_idempotent_witness:
  "\<exists>db'. create_task ''X_KEYWORD_SEARCH'' [] ''k'' 3 7 None 5 5 pending_db = Inr (1, db') \<and>
    tasks db' = tasks pending_db \<and> outbox db' = outbox pending_db"
proof -
  have "task_by_key pending_db ''k'' = Some sample_task" by (simp add: sample_defs)
  from create_task_idempotent [OF sample_inv(1) this, of 3 "''X_KEYWORD_SEARCH''" "[]" 7 None 5 5]
  show ?thesis by (auto simp: sample_task_def)
qed

text \<open>
  A task created under a new key gets a fresh id and starts \<open>PENDING\<close> at generation 0 with
  no attempts, due at the requested time or at once, and its ready event is in the outbox of
  the same transaction; the ledger stays well formed and the older tasks are unchanged.
\<close>

theorem create_task_fresh:
  assumes inv: "ledger_inv db" and key: "task_by_key db key = None"
    and args: "key \<noteq> []" "0 < m"
  shows "\<exists>i db' r e. create_task ty p key m prio nra utc now db = Inr (i, db') \<and>
    ledger_inv db' \<and> task_by_id db i = None \<and> tasks db' = tasks db @ [r] \<and>
    task_by_id db' i = Some r \<and> t_idempotency_key r = key \<and> t_status r = PENDING \<and>
    t_generation r = 0 \<and> t_attempts r = 0 \<and> t_max_attempts r = m \<and>
    t_next_run_at r = (case nra of None \<Rightarrow> utc | Some t \<Rightarrow> t) \<and>
    outbox_event db' i 0 = Some e \<and> pristine e \<and> o_available_at e = t_next_run_at r"
proof -
  define run where "run = (case nra of None \<Rightarrow> utc | Some t \<Rightarrow> t)"
  define r where "r = new_task ty p m run key prio None None now"
  define r1 where "r1 = r\<lparr>t_id := task_seq db\<rparr>"
  define db1 where "db1 = db\<lparr>task_seq := task_seq db + 1, tasks := tasks db @ [r1]\<rparr>"
  define db2 where "db2 = insert_event (ready_event (task_seq db) 0 run now) db1"
  have "task_ok r1" using args by (simp add: r_def r1_def)
  moreover have "task_by_key db (t_idempotency_key r) = None" using key by (simp add: r_def)
  ultimately have made: "ledger_inv_but (task_seq db) db1" "task_by_id db1 (task_seq db) = Some r1"
    "outbox_event db1 (task_seq db) 0 = None"
    using insert_task_new_inv [OF inv, of r] by (auto simp: r1_def db1_def)
  have r1: "t_id r1 = task_seq db" "t_status r1 = PENDING" "t_generation r1 = 0" "t_attempts r1 = 0"
    "t_max_attempts r1 = m" "t_next_run_at r1 = run" "t_idempotency_key r1 = key"
    by (simp_all add: r1_def r_def)
  have "create_task ty p key m prio nra utc now db = Inr (task_seq db, db2)"
    using args key made(2) r1
    by (simp add: create_task_def Let_def insert_task_def r_def r1_def db1_def db2_def run_def)
  moreover have "ledger_inv db2"
    unfolding db2_def using made r1 by (intro ledger_inv_insert_event [where r = r1]) simp_all
  moreover have "task_by_id db (task_seq db) = None"
    using inv by (auto simp: fetch_key_None_iff ledger_inv_defs)
  moreover have "tasks db2 = tasks db @ [r1]" by (simp add: db1_def db2_def)
  moreover have "task_by_id db2 (task_seq db) = Some r1" using made(2) by (simp add: db2_def)
  moreover have "outbox_event db2 (task_seq db) 0
      = Some ((ready_event (task_seq db) 0 run now)\<lparr>o_id := outbox_seq db1\<rparr>)"
    using made(3) by (simp add: db2_def outbox_event_insert)
  moreover have "pristine ((ready_event i g a now)\<lparr>o_id := n\<rparr>)" for i g a n
    by (simp add: pristine_def)
  ultimately show ?thesis using r1 by (fastforce simp: run_def)
qed

theorem create_task_fresh_witness:
  "\<exists>i db' r. create_task ''CAPABILITY_REQUEST'' [] ''k2'' 5 100 (Some 7) 1 1 pending_db = Inr (i, db') \<and>
    ledger_inv db' \<and> task_by_id db' i = Some r \<and> t_status r = PENDING \<and> t_next_run_at r = 7"
proof -
  have "task_by_key pending_db ''k2'' = None" by (simp add: sample_defs)
  from create_task_fresh [OF sample_inv(1) this, of 5 "''CAPABILITY_REQUEST''" "[]" 100 "Some 7" 1 1]
  show ?thesis by auto
qed

section \<open>Retrying and dead-lettering\<close>

text \<open>
  C23: A retry scheduled by the current owner raises the attempt counter and the delivery
  generation by one, releases the lease, sets the due time to the worker's clock plus the
  delay, and puts the ready event of the new generation into the outbox, available at the due
  time; no other task changes and deliveries of the old generation can no longer be leased.
\<close>

theorem schedule_retry_effect:
  fixes utc :: time and d :: rat
  assumes inv: "ledger_inv db" and mine: "leased_by db L"
  defines "due \<equiv> utc + delay_us d"
  shows "\<exists>r db' ev. task_by_id db (l_id L) = Some r \<and>
    schedule_retry L e d c utc now db = (True, db') \<and> ledger_inv db' \<and>
    task_by_id db' (l_id L) = Some (mark_retry due e c now r) \<and>
    outbox_event db' (l_id L) (l_generation L + 1) = Some ev \<and> pristine ev \<and> o_available_at ev = due \<and>
    (\<forall>j. j \<noteq> l_id L \<longrightarrow> task_by_id db' j = task_by_id db j) \<and>
    (\<forall>w s t. lease_task (l_id L) (l_generation L) w s t db' = (None, db'))"
proof -
  from mine obtain r where r: "task_by_id db (l_id L) = Some r" "owns L r" by (rule leased_byE)
  let ?f = "mark_retry due e c now"
  let ?db1 = "db\<lparr>tasks := update_where (owns L) ?f (tasks db)\<rparr>"
  let ?ev = "ready_event (l_id L) (l_generation L + 1) due now"
  define db' where "db' = insert_event ?ev ?db1"
  have ids: "t_id r = l_id L" "t_generation r = l_generation L" using r(2) by (auto simp: owns_def)
  have eq: "schedule_retry L e d c utc now db = (True, db')"
    using r ids by (simp add: schedule_retry_def Let_def find_owns [OF inv] db'_def due_def)
  have inv': "ledger_inv db'" using schedule_retry_inv [OF inv, of L e d c utc now] eq by simp
  have row: "task_by_id db' j = map_option (\<lambda>r. if owns L r then ?f r else r) (task_by_id db j)" for j
    using schedule_retry_row [OF inv, where L = L and e = e and d = d and c = c and utc = utc and now = now] eq
    unfolding due_def by simp
  then have row': "task_by_id db' (l_id L) = Some (?f r)" using r by simp
  have "outbox_event ?db1 (l_id L) (l_generation L + 1) = None"
    using no_future_event [OF inv r(1)] ids by simp
  then have ev: "outbox_event db' (l_id L) (l_generation L + 1) = Some (?ev\<lparr>o_id := outbox_seq db\<rparr>)"
    by (simp add: db'_def outbox_event_insert)
  have "task_by_id db' j = task_by_id db j" if "j \<noteq> l_id L" for j
    using that by (simp add: row row_other)
  moreover have "lease_task (l_id L) (l_generation L) w s t db' = (None, db')" for w s t
    using row' ids by (simp add: lease_task_def find_leasable [OF inv'] leasable_def)
  ultimately show ?thesis using r eq inv' row' ev by (auto simp: pristine_def)
qed

theorem schedule_retry_effect_witness:
  "\<exists>r db'. schedule_retry running_lease ''boom'' 2 ''unexpected_error'' 20 21 running_db = (True, db') \<and>
    task_by_id db' 1 = Some r \<and> t_attempts r = 1 \<and> t_generation r = 1 \<and>
    t_next_run_at r = 20 + seconds 2"
proof -
  have "delay_us 2 = seconds 2" by (simp add: delay_us_def round_half_even_def seconds_def)
  then show ?thesis
    using schedule_retry_effect [OF sample_inv(3) sample_rows(3), of "''boom''" 2 "''unexpected_error''" 20 21]
    by (auto simp: sample_rows sample_task_def)
qed

text \<open>
  Dead-lettering by the current owner makes the task \<open>DEAD_LETTER\<close>, counts the attempt,
  keeps the generation, and archives exactly one dead letter with the task's type, payload and
  generation, not yet replayed; the error text is cut to 4000 characters in both places.
\<close>

theorem dead_letter_effect:
  assumes inv: "ledger_inv db" and mine: "leased_by db L"
  shows "\<exists>r d db'. task_by_id db (l_id L) = Some r \<and>
    dead_letter_task L e c now db = (True, db') \<and> ledger_inv db' \<and>
    task_by_id db' (l_id L) = Some (mark_dead e c now r) \<and>
    dead_letters db' = dead_letters db @ [d] \<and> d_original_task_id d = l_id L \<and>
    d_task_type d = t_task_type r \<and> d_payload d = t_payload r \<and> d_generation d = l_generation L \<and>
    d_last_error d = Some (take 4000 e) \<and> d_replayed_at d = None \<and>
    outbox db' = outbox db \<and> (\<forall>j. j \<noteq> l_id L \<longrightarrow> task_by_id db' j = task_by_id db j)"
proof -
  from mine obtain r where r: "task_by_id db (l_id L) = Some r" "owns L r" by (rule leased_byE)
  define db' where "db' = snd (dead_letter_task L e c now db)"
  have row: "task_by_id db' j = map_option (\<lambda>r. if owns L r then mark_dead e c now r else r) (task_by_id db j)" for j
    unfolding db'_def by (rule dead_letter_task_row [OF inv])
  have ids: "t_id r = l_id L" "t_generation r = l_generation L" using r(2) by (auto simp: owns_def)
  have "ledger_inv db'" unfolding db'_def by (rule dead_letter_task_inv [OF inv])
  moreover have "task_by_id db' (l_id L) = Some (mark_dead e c now r)" using r by (simp add: row)
  moreover have "task_by_id db' j = task_by_id db j" if "j \<noteq> l_id L" for j
    using that by (simp add: row row_other)
  moreover have "t_task_type (mark_dead e c now r) = t_task_type r" "t_payload (mark_dead e c now r) = t_payload r"
    by (simp_all add: mark_dead_def clear_lease_def)
  ultimately show ?thesis
    using r ids by (auto simp: db'_def dead_letter_task_def Let_def find_owns [OF inv] dead_letter_of_def)
qed

theorem dead_letter_effect_witness:
  "\<exists>d db'. dead_letter_task running_lease ''boom'' ''permanent_task_failure'' 21 running_db = (True, db') \<and>
    dead_letters db' = [d] \<and> d_original_task_id d = 1 \<and> d_last_error d = Some ''boom''"
  using dead_letter_effect [OF sample_inv(3) sample_rows(3), of "''boom''" "''permanent_task_failure''" 21]
  by (auto simp: sample_rows running_db_def db_of_def empty_cdb_def)

end
