(* ===== verification/LeaseGuard.thy ===== *)
theory LeaseGuard
  imports LedgerProps
begin

text \<open>
  \<open>TaskLeaseGuard\<close> of \<open>xingestion/lease_guard.py\<close>: the heartbeat that renews the durable
  lease while a delivery is worked on, and the ways a guarded run ends.
\<close>

section \<open>Model\<close>

definition guard_init :: "int \<Rightarrow> pyfloat \<Rightarrow> exc + (int \<times> pyfloat)" where
  "guard_init lease_seconds heartbeat_seconds =
     (if lease_seconds \<le> 0 then Inl (ValueError ''lease_seconds must be > 0'')
      else if fl_le heartbeat_seconds (Fin 0) then Inl (ValueError ''heartbeat_seconds must be > 0'')
      else if fl_le (fl_of_int lease_seconds) heartbeat_seconds
        then Inl (ValueError ''heartbeat_seconds must be shorter than lease_seconds'')
      else Inr (lease_seconds, heartbeat_seconds))"

text \<open>
  \<open>xclaim\<close> is Redis's: \<open>reply\<close> is what the call gave, an exception or the list of
  claimed message ids, possibly none.
\<close>

type_synonym xclaim_reply = "exc + string list option"

definition touch_pending :: "string \<Rightarrow> string list option \<Rightarrow> bool" where
  "touch_pending message_id claimed =
     (message_id \<in> set (case claimed of None \<Rightarrow> [] | Some ids \<Rightarrow> ids))"

text \<open>How a renewal that keeps the lease ends: silently, or with one of the two warnings.\<close>

datatype renewal = Renewed | TouchFailed exc | EntryMissing

definition renewable :: "task_lease \<Rightarrow> time \<Rightarrow> task_row \<Rightarrow> bool" where
  "renewable task now r \<longleftrightarrow> owns task r \<and> null_gt (t_lease_expires_at r) now"

definition extend_lease :: "int \<Rightarrow> time \<Rightarrow> task_row \<Rightarrow> task_row" where
  "extend_lease lease_seconds now r =
     r\<lparr>t_lease_expires_at := Some (now + seconds lease_seconds), t_updated_at := now\<rparr>"

definition renew_lease :: "task_lease \<Rightarrow> int \<Rightarrow> time \<Rightarrow> cdb \<Rightarrow> bool \<times> cdb" where
  "renew_lease task lease_seconds now db =
     (count_where (renewable task now) (tasks db) = 1,
      db\<lparr>tasks := update_where (renewable task now) (extend_lease lease_seconds now) (tasks db)\<rparr>)"

definition lease_lost :: "task_lease \<Rightarrow> exc" where
  "lease_lost task = TaskLeaseLost
     (''durable task lease is no longer owned by '' @ l_owner task @ '' for task='' @
      int_str (l_id task) @ '' generation='' @ int_str (l_generation task))"

definition renew_once ::
  "task_lease \<Rightarrow> delivery \<Rightarrow> int \<Rightarrow> time \<Rightarrow> xclaim_reply \<Rightarrow> cdb \<Rightarrow> (exc + renewal) \<times> cdb" where
  "renew_once task m lease_seconds now reply db =
     (case renew_lease task lease_seconds now db of
        (False, db1) \<Rightarrow> (Inl (lease_lost task), db1)
      | (True, db1) \<Rightarrow>
          (case reply of
             Inl e \<Rightarrow> (Inr (TouchFailed e), db1)
           | Inr claimed \<Rightarrow>
               (Inr (if touch_pending (m_message_id m) claimed then Renewed else EntryMissing), db1)))"

definition requeue :: "time \<Rightarrow> task_row \<Rightarrow> task_row" where
  "requeue now r = (clear_lease r)\<lparr>t_status := ENQUEUED, t_updated_at := now\<rparr>"

definition release_for_recovery :: "task_lease \<Rightarrow> time \<Rightarrow> cdb \<Rightarrow> bool \<times> cdb" where
  "release_for_recovery task now db =
     (count_where (owns task) (tasks db) = 1,
      db\<lparr>tasks := update_where (owns task) (requeue now) (tasks db)\<rparr>)"

text \<open>
  \<open>run_guarded\<close> waits for the first of two tasks, the operation and the heartbeat loop. Its
  run is driven by what happens while it waits, in order: other processes commit, a heartbeat
  interval elapses and the lease is renewed, the renewal fails with a database error, the
  operation returns or raises, or the worker is cancelled. When the operation returns, a
  renewal may be in flight, and the guard awaits it before it returns the result. An operation
  that raises \<open>CancelledError\<close> ends in the same handler as a cancelled worker and is the event
  \<open>CancelRequested\<close>; \<open>OpRaises\<close> is any other exception. \<open>None\<close> means that the guard is
  still waiting when the events end.
\<close>

datatype 'a guard_event =
    Elsewhere "cdb \<Rightarrow> cdb"
  | Heartbeat time xclaim_reply
  | HeartbeatFails exc
  | OpReturns 'a "(time \<times> xclaim_reply) option"
  | OpRaises exc
  | CancelRequested time

fun run_guarded ::
  "task_lease \<Rightarrow> delivery \<Rightarrow> int \<Rightarrow> 'a guard_event list \<Rightarrow> cdb \<Rightarrow> ((exc + 'a) \<times> cdb) option" where
  "run_guarded task m secs [] db = None"
| "run_guarded task m secs (Elsewhere f # es) db = run_guarded task m secs es (f db)"
| "run_guarded task m secs (Heartbeat now reply # es) db =
     (case renew_once task m secs now reply db of
        (Inl e, db1) \<Rightarrow> Some (Inl e, db1)
      | (Inr _, db1) \<Rightarrow> run_guarded task m secs es db1)"
| "run_guarded task m secs (HeartbeatFails e # es) db = Some (Inl e, db)"
| "run_guarded task m secs (OpReturns v inflight # es) db =
     (case inflight of
        None \<Rightarrow> Some (Inr v, db)
      | Some (now, reply) \<Rightarrow>
          (case renew_once task m secs now reply db of
             (Inl e, db1) \<Rightarrow> Some (Inl e, db1)
           | (Inr _, db1) \<Rightarrow> Some (Inr v, db1)))"
| "run_guarded task m secs (OpRaises e # es) db = Some (Inl e, db)"
| "run_guarded task m secs (CancelRequested now # es) db =
     Some (Inl CancelledError, snd (release_for_recovery task now db))"

section \<open>Both operations honour the contract of a lease\<close>

lemma extend_lease_fields [simp, row_simps]:
  "t_id (extend_lease s now r) = t_id r" "t_generation (extend_lease s now r) = t_generation r"
  "t_idempotency_key (extend_lease s now r) = t_idempotency_key r"
  "t_attempts (extend_lease s now r) = t_attempts r"
  "t_max_attempts (extend_lease s now r) = t_max_attempts r"
  "t_status (extend_lease s now r) = t_status r"
  "t_lease_owner (extend_lease s now r) = t_lease_owner r"
  "t_lease_started_at (extend_lease s now r) = t_lease_started_at r"
  "t_lease_expires_at (extend_lease s now r) = Some (now + seconds s)"
  "t_leased_at (extend_lease s now r) = t_leased_at r"
  by (simp_all add: extend_lease_def)

lemma requeue_fields [simp, row_simps]:
  "t_id (requeue now r) = t_id r" "t_generation (requeue now r) = t_generation r"
  "t_idempotency_key (requeue now r) = t_idempotency_key r"
  "t_attempts (requeue now r) = t_attempts r"
  "t_max_attempts (requeue now r) = t_max_attempts r"
  "t_status (requeue now r) = ENQUEUED"
  "t_lease_owner (requeue now r) = None"
  "t_lease_started_at (requeue now r) = None"
  "t_lease_expires_at (requeue now r) = None"
  "t_leased_at (requeue now r) = t_leased_at r"
  by (simp_all add: requeue_def)

lemma renewable_owns: "renewable L now r \<Longrightarrow> owns L r"
  by (simp add: renewable_def)

lemma renew_lease_row:
  "task_by_id (snd (renew_lease L s now db)) i
    = map_option (\<lambda>r. if renewable L now r then extend_lease s now r else r) (task_by_id db i)"
  by (simp add: renew_lease_def fetch_key_update_where)

lemma release_row:
  "task_by_id (snd (release_for_recovery L now db)) i
    = map_option (\<lambda>r. if owns L r then requeue now r else r) (task_by_id db i)"
  by (simp add: release_for_recovery_def fetch_key_update_where)

lemma renew_lease_answer:
  assumes "ledger_inv db"
  shows "fst (renew_lease L s now db) \<longleftrightarrow>
    (\<exists>r. task_by_id db (l_id L) = Some r \<and> owns L r \<and> null_gt (t_lease_expires_at r) now)"
  using count_owns [OF assms, of "renewable L now" L]
  by (simp add: renew_lease_def renewable_def)

lemma renew_lease_inv: "ledger_inv db \<Longrightarrow> ledger_inv (snd (renew_lease L s now db))"
  by (auto simp: renew_lease_def renewable_def owns_def task_ok_def intro!: ledger_inv_update_tasks)

lemma release_inv: "ledger_inv db \<Longrightarrow> ledger_inv (snd (release_for_recovery L now db))"
  by (auto simp: release_for_recovery_def owns_def task_ok_def intro!: ledger_inv_update_tasks)

lemma release_answer:
  assumes "ledger_inv db"
  shows "fst (release_for_recovery L now db) \<longleftrightarrow> leased_by db L"
  using count_owns [OF assms, of "owns L" L]
  by (auto simp: release_for_recovery_def leased_by_def split: option.splits)

lemma renew_lease_frame:
  assumes inv: "ledger_inv db" and no: "\<not> fst (renew_lease L s now db)"
  shows "snd (renew_lease L s now db) = db"
proof -
  have "update_where (renewable L now) (extend_lease s now) (tasks db) = tasks db"
  proof (rule update_where_id)
    fix r assume r: "r \<in> set (tasks db)"
    show "\<not> renewable L now r"
    proof
      assume ren: "renewable L now r"
      then have "task_by_id db (l_id L) = Some r"
        using ledger_task_by_id [OF inv r] owns_id [of L r] by (simp add: renewable_def)
      with ren no show False
        by (auto simp: renew_lease_answer [OF inv] renewable_def)
    qed
  qed
  then show ?thesis by (simp add: renew_lease_def)
qed

interpretation renew: fenced_op "\<lambda>L. renew_lease L s now"
    "\<lambda>r. null_gt (t_lease_expires_at r) now" for s now
proof unfold_locales
  fix db L i assume inv: "ledger_inv db"
  show "fst (renew_lease L s now db) =
      (\<exists>r. task_by_id db (l_id L) = Some r \<and> owns L r \<and> null_gt (t_lease_expires_at r) now)"
    by (rule renew_lease_answer [OF inv])
  show "ledger_inv (snd (renew_lease L s now db))" by (rule renew_lease_inv [OF inv])
  show "\<not> fst (renew_lease L s now db) \<Longrightarrow> snd (renew_lease L s now db) = db"
    by (rule renew_lease_frame [OF inv])
  show "i \<noteq> l_id L \<Longrightarrow> task_by_id (snd (renew_lease L s now db)) i = task_by_id db i"
    unfolding renew_lease_row
    by (cases "task_by_id db i") (auto dest: fetch_key_SomeD simp: renewable_def owns_id)
qed

interpretation release: releasing_op "\<lambda>L. release_for_recovery L now" for now
proof unfold_locales
  fix db L i assume inv: "ledger_inv db"
  show "fst (release_for_recovery L now db) = (\<exists>r. task_by_id db (l_id L) = Some r \<and> owns L r \<and> True)"
    unfolding release_answer [OF inv] by (auto simp: leased_by_def split: option.splits)
  show "ledger_inv (snd (release_for_recovery L now db))" by (rule release_inv [OF inv])
  show "i \<noteq> l_id L \<Longrightarrow> task_by_id (snd (release_for_recovery L now db)) i = task_by_id db i"
    by (simp add: release_row row_other)
  show "\<not> fst (release_for_recovery L now db) \<Longrightarrow> snd (release_for_recovery L now db) = db"
    unfolding release_answer [OF inv]
    by (simp add: release_for_recovery_def not_owned_update [OF inv, of L])
  show "fst (release_for_recovery L now db) \<Longrightarrow>
      \<exists>r. task_by_id (snd (release_for_recovery L now db)) (l_id L) = Some r \<and> t_lease_owner r = None"
    unfolding release_answer [OF inv] release_row
    by (auto elim!: leased_byE)
qed

section \<open>The fence\<close>

text \<open>The statements a lease holder can issue against its task.\<close>

datatype fenced_call =
    CallComplete "pydict option"
  | CallRetry string rat string time
  | CallBury string string
  | CallRelease
  | CallRenew int

fun run_call :: "fenced_call \<Rightarrow> task_lease \<Rightarrow> time \<Rightarrow> cdb \<Rightarrow> bool \<times> cdb" where
  "run_call (CallComplete m) L now db = complete_task L m now db"
| "run_call (CallRetry e d c utc) L now db = schedule_retry L e d c utc now db"
| "run_call (CallBury e c) L now db = dead_letter_task L e c now db"
| "run_call CallRelease L now db = release_for_recovery L now db"
| "run_call (CallRenew s) L now db = renew_lease L s now db"

fun releases :: "fenced_call \<Rightarrow> bool" where
  "releases (CallRenew _) = False"
| "releases _ = True"

lemma run_call_needs: "ledger_inv db \<Longrightarrow> fst (run_call c L now db) \<Longrightarrow> leased_by db L"
  by (cases c) (auto dest: complete.needs_lease retry.needs_lease bury.needs_lease
      release.needs_lease renew.needs_lease)

lemma run_call_lost:
  "ledger_inv db \<Longrightarrow> \<not> leased_by db L \<Longrightarrow> run_call c L now db = (False, db)"
  by (cases c) (simp_all add: prod_eq_iff complete.lost_lease retry.lost_lease bury.lost_lease
      release.lost_lease renew.lost_lease)

lemma run_call_inv: "ledger_inv db \<Longrightarrow> ledger_inv (snd (run_call c L now db))"
  by (cases c) (simp_all add: complete_task_inv schedule_retry_inv dead_letter_task_inv release_inv renew_lease_inv)

lemma run_call_nobody:
  "ledger_inv db \<Longrightarrow> releases c \<Longrightarrow> fst (run_call c L now db) \<Longrightarrow> l_id L' = l_id L \<Longrightarrow>
     \<not> leased_by (snd (run_call c L now db)) L'"
  by (cases c) (simp_all add: complete.nobody_after retry.nobody_after bury.nobody_after
      release.nobody_after)

text \<open>
  C11: The fence: a worker whose lease the database no longer records (another owner, another
  generation, another status, or no such task) can do nothing to the task. Completing, retrying,
  dead-lettering, releasing and renewing all answer \<open>False\<close> and leave the database as it is.
\<close>

theorem stale_holder_powerless:
  assumes "ledger_inv db"
    and "\<forall>r. task_by_id db (l_id L) = Some r \<longrightarrow>
      t_generation r \<noteq> l_generation L \<or> t_lease_owner r \<noteq> Some (l_owner L) \<or> t_status r \<noteq> RUNNING"
  shows "run_call c L now db = (False, db)"
proof (rule run_call_lost [OF assms(1)])
  show "\<not> leased_by db L"
    using assms(2) by (auto simp: leased_by_def owns_def split: option.splits)
qed

theorem stale_holder_powerless_witness:
  "run_call (CallComplete None) (running_lease\<lparr>l_owner := ''worker-2''\<rparr>) 11 running_db = (False, running_db)"
  by (rule stale_holder_powerless [OF sample_inv(3)]) (simp add: sample_defs)

text \<open>
  One winner: once a holder has completed, retried, dead-lettered or released a task, no call by
  any holder of that task, itself included, changes it until a new lease is granted.
\<close>

theorem fence_single_winner:
  assumes inv: "ledger_inv db" and first: "releases c" "fst (run_call c L now db)"
    and same: "l_id L' = l_id L"
  shows "run_call c' L' now' (snd (run_call c L now db)) = (False, snd (run_call c L now db))"
  using run_call_lost [OF run_call_inv [OF inv] run_call_nobody [OF inv first same]] .

theorem fence_single_winner_witness:
  "fst (run_call CallRelease running_lease 20 running_db) \<and>
   run_call (CallComplete None) running_lease 21 (snd (run_call CallRelease running_lease 20 running_db))
     = (False, snd (run_call CallRelease running_lease 20 running_db))"
proof -
  have won: "fst (run_call CallRelease running_lease 20 running_db)"
    using sample_rows(3) by (simp add: release_answer [OF sample_inv(3)])
  then show ?thesis
    using fence_single_winner [OF sample_inv(3), of CallRelease running_lease 20 running_lease] by simp
qed

text \<open>
  C37: The fence names the owner and the generation only: when a task is leased again at the same
  generation under the same worker id, the earlier lease with that id is honoured as well. Worker
  ids are \<open>worker-1\<close>, \<open>worker-2\<close>, ... in every process, so a second process that takes
  over an expired lease under the same id does not fence the first one off.
\<close>

theorem same_owner_revives_old_lease:
  assumes inv: "ledger_inv db" and grant: "lease_task i g w s now db = (Some L', db')"
    and old: "l_id L = i" "l_generation L = g" "l_owner L = w"
  shows "fst (complete_task L m now' db')"
proof -
  have inv': "ledger_inv db'" using lease_task_inv [OF inv, where i = i and g = g and w = w and s = s and now = now] grant by simp
  have "leased_by db' L'"
    using lease_task_outcome [OF inv, where i = i and g = g and w = w and s = s and now = now] grant by auto
  moreover have "l_id L' = i \<and> l_generation L' = g \<and> l_owner L' = w"
    using lease_task_outcome [OF inv, where i = i and g = g and w = w and s = s and now = now] grant by (auto simp: lease_of_def leasable_def)
  ultimately have "leased_by db' L"
    using old by (auto simp: leased_by_def owns_def split: option.splits)
  then show ?thesis by (simp add: complete_task_answer [OF inv'])
qed

theorem same_owner_revives_old_lease_witness:
  "let late = seconds 500 in
   case lease_task 1 0 ''worker-1'' 120 late running_db of
     (None, _) \<Rightarrow> False
   | (Some L', db') \<Rightarrow> L' \<noteq> running_lease \<and> fst (complete_task running_lease None (late + 1) db')"
proof -
  obtain L' db' where g: "lease_task 1 0 ''worker-1'' 120 (seconds 500) running_db = (Some L', db')"
    and new: "L' \<noteq> running_lease"
    by (simp add: lease_task_def leasable_def sample_defs seconds_def)
  have "fst (complete_task running_lease None (seconds 500 + 1) db')"
    by (rule same_owner_revives_old_lease [OF sample_inv(3) g]) (simp_all add: sample_defs)
  with g new show ?thesis by (simp add: Let_def)
qed

section \<open>Guarded runs\<close>

text \<open>The database a guard that is still waiting has reached.\<close>

fun guard_db :: "task_lease \<Rightarrow> int \<Rightarrow> 'a guard_event list \<Rightarrow> cdb \<Rightarrow> cdb" where
  "guard_db L s [] db = db"
| "guard_db L s (Elsewhere f # es) db = guard_db L s es (f db)"
| "guard_db L s (Heartbeat now reply # es) db = guard_db L s es (snd (renew_lease L s now db))"
| "guard_db L s (_ # es) db = db"

lemma renew_once_eq:
  "renew_once L m s now reply db =
     (if fst (renew_lease L s now db)
      then (case reply of Inl e \<Rightarrow> (Inr (TouchFailed e), snd (renew_lease L s now db))
            | Inr ids \<Rightarrow> (Inr (if touch_pending (m_message_id m) ids then Renewed else EntryMissing),
                         snd (renew_lease L s now db)))
      else (Inl (lease_lost L), snd (renew_lease L s now db)))"
  by (auto simp: renew_once_def split: prod.splits bool.splits sum.splits)

lemma run_guarded_append:
  "run_guarded L m s es db = None \<Longrightarrow>
     run_guarded L m s (es @ fs) db = run_guarded L m s fs (guard_db L s es db)"
  by (induction L s es db rule: guard_db.induct)
    (auto simp: renew_once_eq split: if_splits sum.splits option.splits prod.splits)

text \<open>
  A heartbeat that finds the lease gone or expired ends the run at once with
  \<open>TaskLeaseLost\<close>: whatever the operation would still have returned is discarded, and the guard
  writes nothing more.
\<close>

theorem lost_lease_stops_guard:
  assumes waiting: "run_guarded L m s es db = None" and inv: "ledger_inv (guard_db L s es db)"
    and lost: "\<not> (\<exists>r. task_by_id (guard_db L s es db) (l_id L) = Some r \<and> owns L r \<and>
                 null_gt (t_lease_expires_at r) now)"
  shows "run_guarded L m s (es @ Heartbeat now reply # rest) db
    = Some (Inl (lease_lost L), guard_db L s es db)"
proof -
  have "\<not> fst (renew_lease L s now (guard_db L s es db))"
    using lost by (simp add: renew_lease_answer [OF inv])
  then show ?thesis
    by (simp add: run_guarded_append [OF waiting] renew_once_eq renew_lease_frame [OF inv])
qed

theorem lost_lease_stops_guard_witness:
  "run_guarded running_lease \<lparr>m_message_id = ''1-0'', m_task_id = 1, m_generation = 0\<rparr> 120
     ([] @ Heartbeat (seconds 200) (Inr None) # [OpReturns (7::int) None]) running_db
   = Some (Inl (lease_lost running_lease), running_db)"
proof -
  have "\<not> (\<exists>r. task_by_id running_db (l_id running_lease) = Some r \<and> owns running_lease r \<and>
      null_gt (t_lease_expires_at r) (seconds 200))"
    by (simp add: sample_rows seconds_def)
  then show ?thesis
    using lost_lease_stops_guard [of running_lease _ 120 "[]" running_db "seconds 200"] sample_inv(3)
    by simp
qed

text \<open>
  What a healthy run looks like: heartbeats come before the lease runs out, the other processes
  respect the invariant and do not write this row, and the operation returns at the end.
\<close>

definition leaves_row :: "task_lease \<Rightarrow> (cdb \<Rightarrow> cdb) \<Rightarrow> bool" where
  "leaves_row L f \<longleftrightarrow> (\<forall>db. ledger_inv db \<longrightarrow>
     ledger_inv (f db) \<and> task_by_id (f db) (l_id L) = task_by_id db (l_id L))"

fun healthy :: "task_lease \<Rightarrow> int \<Rightarrow> time \<Rightarrow> 'a guard_event list \<Rightarrow> 'a \<Rightarrow> bool" where
  "healthy L s expires (Elsewhere f # es) v = (leaves_row L f \<and> healthy L s expires es v)"
| "healthy L s expires (Heartbeat now _ # es) v =
     (now < expires \<and> healthy L s (now + seconds s) es v)"
| "healthy L s expires (OpReturns u inflight # es) v =
     (u = v \<and> (case inflight of None \<Rightarrow> True | Some (now, _) \<Rightarrow> now < expires))"
| "healthy L s expires _ v = False"

lemma healthy_run:
  assumes "healthy L s expires es v" and "ledger_inv db"
    and "task_by_id db (l_id L) = Some r" and "owns L r" and "t_lease_expires_at r = Some expires"
  shows "\<exists>db' r'. run_guarded L m s es db = Some (Inr v, db') \<and> ledger_inv db' \<and>
    task_by_id db' (l_id L) = Some r' \<and> owns L r'"
  using assms
proof (induction L s expires es v arbitrary: db r rule: healthy.induct)
  case (1 L s expires f es v)
  then show ?case by (auto simp: leaves_row_def)
next
  case (2 L s expires now reply es v)
  let ?db = "snd (renew_lease L s now db)" and ?r = "extend_lease s now r"
  have ok: "fst (renew_lease L s now db)"
    using 2 by (auto simp: renew_lease_answer)
  have "renewable L now r" using 2 by (simp add: renewable_def)
  then have row: "task_by_id ?db (l_id L) = Some ?r" using 2 by (simp add: renew_lease_row)
  have "owns L ?r" using 2 by (simp add: owns_def)
  then have "\<exists>db' r'. run_guarded L m s es ?db = Some (Inr v, db') \<and> ledger_inv db' \<and>
      task_by_id db' (l_id L) = Some r' \<and> owns L r'"
    using 2 row by (intro "2.IH") (auto simp: renew_lease_inv)
  with ok show ?case by (auto simp: renew_once_eq split: sum.splits)
next
  case (3 L s expires u inflight es v)
  show ?case
  proof (cases inflight)
    case None
    with 3 show ?thesis by auto
  next
    case (Some p)
    obtain now reply where p: "p = (now, reply)" by (cases p)
    have live: "renewable L now r" using 3 Some p by (simp add: renewable_def)
    then have ok: "fst (renew_lease L s now db)"
      using 3 by (auto simp: renew_lease_answer renewable_def)
    have "task_by_id (snd (renew_lease L s now db)) (l_id L) = Some (extend_lease s now r)"
      using 3 live by (simp add: renew_lease_row)
    moreover have "owns L (extend_lease s now r)" using 3 by (simp add: owns_def)
    ultimately show ?thesis
      using 3 Some p ok by (auto simp: renew_once_eq renew_lease_inv split: sum.splits)
  qed
qed auto

text \<open>
  Liveness of the guard: if every heartbeat comes before the lease written by the previous one
  runs out and nobody else writes the row, the run returns the operation's result, and the worker
  still owns the task, so the completion that follows succeeds. Redis failures during the
  heartbeats do not matter.
\<close>

theorem healthy_guard_returns:
  assumes healthy: "healthy L s expires es v" and inv: "ledger_inv db"
    and row: "task_by_id db (l_id L) = Some r" "owns L r" "t_lease_expires_at r = Some expires"
  shows "\<exists>db'. run_guarded L m s es db = Some (Inr v, db') \<and> fst (complete_task L meta now db')"
proof -
  obtain db' r' where "run_guarded L m s es db = Some (Inr v, db')" and "ledger_inv db'"
    and "task_by_id db' (l_id L) = Some r'" and "owns L r'"
    using healthy_run [OF healthy inv row] by blast
  then show ?thesis by (auto simp: complete_task_answer leased_by_def)
qed

theorem healthy_guard_returns_witness:
  "\<exists>db'. run_guarded running_lease \<lparr>m_message_id = ''1-0'', m_task_id = 1, m_generation = 0\<rparr> 120
     [Heartbeat (seconds 40) (Inr (Some [''1-0''])), Elsewhere id,
      Heartbeat (seconds 80) (Inl (Other ''ConnectionError'' [])), OpReturns (7::int) (Some (seconds 150, Inr None))]
     running_db = Some (Inr 7, db') \<and> fst (complete_task running_lease None (seconds 151) db')"
proof (rule healthy_guard_returns [OF _ sample_inv(3)])
  show "task_by_id running_db (l_id running_lease)
      = Some (take_lease ''worker-1'' 120 10 (sample_task\<lparr>t_enqueued_at := Some 1\<rparr>))"
    by (simp add: sample_rows)
qed (simp_all add: leaves_row_def seconds_def owns_def sample_defs)

text \<open>
  Graceful cancellation does not fabricate a retry: the task goes back to \<open>ENQUEUED\<close> at the same
  generation with the same attempts, the outbox is untouched, and the next delivery of that
  generation can lease it at once if the task is due.
\<close>

theorem cancel_requeues:
  assumes waiting: "run_guarded L m s es db = None" and inv: "ledger_inv (guard_db L s es db)"
    and mine: "leased_by (guard_db L s es db) L"
  shows "\<exists>r db'. task_by_id (guard_db L s es db) (l_id L) = Some r \<and>
    run_guarded L m s (es @ CancelRequested now # rest) db = Some (Inl CancelledError, db') \<and>
    task_by_id db' (l_id L) = Some (requeue now r) \<and> outbox db' = outbox (guard_db L s es db) \<and>
    (t_next_run_at r \<le> now' \<longrightarrow> fst (lease_task (l_id L) (l_generation L) w s' now' db') \<noteq> None)"
proof -
  let ?d = "guard_db L s es db"
  from mine obtain r where r: "task_by_id ?d (l_id L) = Some r" "owns L r" by (rule leased_byE)
  define db' where "db' = snd (release_for_recovery L now ?d)"
  have row: "task_by_id db' (l_id L) = Some (requeue now r)"
    using r by (simp add: db'_def release_row)
  have inv': "ledger_inv db'" unfolding db'_def by (rule release_inv [OF inv])
  have "fst (lease_task (l_id L) (l_generation L) w s' now' db') \<noteq> None" if "t_next_run_at r \<le> now'"
  proof -
    have "leasable now' (l_id L) (l_generation L) (requeue now r)"
      using that r(2) by (simp add: leasable_def owns_def) (simp add: requeue_def clear_lease_def)
    with row show ?thesis by (simp add: lease_task_def find_leasable [OF inv'])
  qed
  moreover have "outbox db' = outbox ?d" by (simp add: db'_def release_for_recovery_def)
  ultimately show ?thesis
    using r row by (auto simp: run_guarded_append [OF waiting] db'_def)
qed

theorem cancel_requeues_witness:
  "\<exists>db'. run_guarded running_lease \<lparr>m_message_id = ''1-0'', m_task_id = 1, m_generation = 0\<rparr> 120
     ([] @ CancelRequested 20 # ([] :: int guard_event list)) running_db = Some (Inl CancelledError, db') \<and>
   fst (lease_task 1 0 ''worker-2'' 120 30 db') \<noteq> None"
  using cancel_requeues [of running_lease "\<lparr>m_message_id = ''1-0'', m_task_id = 1, m_generation = 0\<rparr>"
      120 "[] :: int guard_event list" running_db 20 "[]" 30 "''worker-2''" 120] sample_inv(3) sample_rows(3)
  by (auto simp: sample_defs)

end
