(* ===== verification/Outbox.thy ===== *)
theory Outbox
  imports LeaseGuard
begin

text \<open>
  \<open>DurableOutboxDispatcher\<close> of \<open>xingestion/outbox.py\<close> and the older \<open>OutboxDispatcher\<close> of
  \<open>xingestion/control_plane.py\<close>: how ready events leave the outbox for the Redis stream. Redis is
  a parameter: \<open>reply\<close> is what \<open>XADD\<close> gave, a message id or an \<open>Exception\<close>; a dispatcher that
  is cancelled or dies between two statements stops there, with what has been committed.
\<close>

section \<open>The order of dispatch\<close>

text \<open>\<open>ORDER BY wt.priority DESC, o.available_at ASC, o.id ASC\<close>.\<close>

datatype dispatch_key = DispatchKey (dk_priority: int) (dk_available: time) (dk_id: int)

instantiation dispatch_key :: linorder
begin

definition less_eq_dispatch_key :: "dispatch_key \<Rightarrow> dispatch_key \<Rightarrow> bool" where
  "less_eq_dispatch_key a b \<longleftrightarrow>
     dk_priority b < dk_priority a \<or>
     (dk_priority a = dk_priority b \<and>
       (dk_available a < dk_available b \<or>
        (dk_available a = dk_available b \<and> dk_id a \<le> dk_id b)))"

definition less_dispatch_key :: "dispatch_key \<Rightarrow> dispatch_key \<Rightarrow> bool" where
  "less_dispatch_key a b \<longleftrightarrow> a \<le> b \<and> \<not> b \<le> (a :: dispatch_key)"

instance
  by standard
    (auto simp: less_eq_dispatch_key_def less_dispatch_key_def intro: dispatch_key.expand)

end

section \<open>Claiming\<close>

definition claimable :: "time \<Rightarrow> cdb \<Rightarrow> outbox_row \<Rightarrow> bool" where
  "claimable now db e \<longleftrightarrow>
     o_published_at e = None \<and> o_available_at e \<le> now \<and>
     (o_claim_expires_at e = None \<or> null_le (o_claim_expires_at e) now) \<and>
     (case task_by_id db (o_task_id e) of
        None \<Rightarrow> False
      | Some wt \<Rightarrow> t_generation wt = o_generation e \<and>
                  t_status wt \<in> {PENDING, RETRY_SCHEDULED, ENQUEUED})"

definition event_key :: "cdb \<Rightarrow> outbox_row \<Rightarrow> dispatch_key" where
  "event_key db e = DispatchKey
     (case task_by_id db (o_task_id e) of None \<Rightarrow> 0 | Some wt \<Rightarrow> t_priority wt)
     (o_available_at e) (o_id e)"

text \<open>
  \<open>FOR UPDATE OF o SKIP LOCKED LIMIT n\<close>: \<open>locked\<close> are the rows other transactions hold.
\<close>

definition select_claimable :: "int \<Rightarrow> int list \<Rightarrow> time \<Rightarrow> cdb \<Rightarrow> outbox_row list" where
  "select_claimable batch_size locked now db =
     take (nat batch_size)
       (filter (\<lambda>e. o_id e \<notin> set locked)
         (sort_key (event_key db) (filter (claimable now db) (outbox db))))"

definition claim_row :: "string \<Rightarrow> time \<Rightarrow> outbox_row \<Rightarrow> outbox_row" where
  "claim_row claim_token claim_until e =
     e\<lparr>o_claim_token := Some claim_token, o_claim_expires_at := Some claim_until,
       o_attempts := o_attempts e + 1, o_last_error := None\<rparr>"

definition awaits_enqueue :: "int \<Rightarrow> int \<Rightarrow> task_row \<Rightarrow> bool" where
  "awaits_enqueue task_id generation r \<longleftrightarrow>
     t_id r = task_id \<and> t_generation r = generation \<and> t_status r \<in> {PENDING, RETRY_SCHEDULED}"

definition mark_enqueued :: "time \<Rightarrow> task_row \<Rightarrow> task_row" where
  "mark_enqueued now r =
     r\<lparr>t_status := ENQUEUED, t_enqueued_at := Some now, t_updated_at := now\<rparr>"

definition claimed_of :: "string \<Rightarrow> outbox_row \<Rightarrow> claimed_event" where
  "claimed_of claim_token e =
     \<lparr>c_outbox_id = o_id e, c_task_id = o_task_id e, c_generation = o_generation e,
      c_event_type = o_event_type e, c_payload = o_payload e, c_claim_token = claim_token\<rparr>"

fun claim_rows :: "string \<Rightarrow> time \<Rightarrow> time \<Rightarrow> outbox_row list \<Rightarrow> cdb \<Rightarrow> claimed_event list \<times> cdb" where
  "claim_rows tok until now [] db = ([], db)"
| "claim_rows tok until now (e # es) db =
     (let db1 = db\<lparr>outbox := update_where (\<lambda>x. o_id x = o_id e) (claim_row tok until) (outbox db)\<rparr>;
          db2 = db1\<lparr>tasks := update_where (awaits_enqueue (o_task_id e) (o_generation e))
                              (mark_enqueued now) (tasks db1)\<rparr>;
          (claimed, db3) = claim_rows tok until now es db2
      in (claimed_of tok e # claimed, db3))"

definition dispatcher_init :: "int \<Rightarrow> exc + int" where
  "dispatcher_init claim_seconds =
     (if claim_seconds \<le> 0 then Inl (ValueError ''claim_seconds must be > 0'') else Inr claim_seconds)"

text \<open>\<open>tok\<close> is the fresh \<open>uuid4().hex\<close>.\<close>

definition claim_ready ::
  "int \<Rightarrow> string \<Rightarrow> int \<Rightarrow> int list \<Rightarrow> time \<Rightarrow> time \<Rightarrow> cdb \<Rightarrow> exc + (claimed_event list \<times> cdb)" where
  "claim_ready batch_size tok claim_seconds locked utc now db =
     (if batch_size \<le> 0 then Inl (ValueError ''batch_size must be > 0'')
      else Inr (claim_rows tok (utc + seconds claim_seconds) now
                  (select_claimable batch_size locked now db) db))"

section \<open>Publishing\<close>

definition holds_claim :: "claimed_event \<Rightarrow> outbox_row \<Rightarrow> bool" where
  "holds_claim ev e \<longleftrightarrow>
     o_id e = c_outbox_id ev \<and> o_claim_token e = Some (c_claim_token ev) \<and> o_published_at e = None"

definition mark_published :: "string \<Rightarrow> time \<Rightarrow> outbox_row \<Rightarrow> outbox_row" where
  "mark_published message_id now e =
     e\<lparr>o_published_at := Some now, o_message_id := Some message_id, o_claim_token := None,
       o_claim_expires_at := None, o_last_error := None\<rparr>"

definition claim_lost :: "claimed_event \<Rightarrow> exc" where
  "claim_lost ev = RuntimeError
     (''outbox publish succeeded but claim ownership was lost for outbox_id='' @ int_str (c_outbox_id ev))"

definition publish_claimed ::
  "claimed_event \<Rightarrow> exc + string \<Rightarrow> time \<Rightarrow> cdb \<Rightarrow> (exc + string) \<times> cdb" where
  "publish_claimed ev reply now db =
     (case reply of
        Inl e \<Rightarrow> (Inl e, db)
      | Inr message_id \<Rightarrow>
          (let db1 = db\<lparr>outbox := update_where (holds_claim ev) (mark_published message_id now) (outbox db)\<rparr>
           in if count_where (holds_claim ev) (outbox db) \<noteq> 1
              then (Inl (claim_lost ev), db1) else (Inr message_id, db1)))"

definition drop_claim :: "string \<Rightarrow> outbox_row \<Rightarrow> outbox_row" where
  "drop_claim err e =
     e\<lparr>o_claim_token := None, o_claim_expires_at := None, o_last_error := Some (take 4000 err)\<rparr>"

definition record_failure :: "claimed_event \<Rightarrow> exc \<Rightarrow> cdb \<Rightarrow> cdb" where
  "record_failure ev err db =
     db\<lparr>outbox := update_where (holds_claim ev) (drop_claim (exc_str err)) (outbox db)\<rparr>"

text \<open>
  The loop of \<open>dispatch_ready\<close>: each event is published, and a failure is recorded. The
  replies and the database times of the single publications come from \<open>env\<close>.
\<close>

fun publish_all :: "(nat \<Rightarrow> (exc + string) \<times> time) \<Rightarrow> nat \<Rightarrow> claimed_event list \<Rightarrow> cdb \<Rightarrow> nat \<times> cdb" where
  "publish_all env i [] db = (0, db)"
| "publish_all env i (ev # evs) db =
     (case publish_claimed ev (fst (env i)) (snd (env i)) db of
        (Inl err, db1) \<Rightarrow> publish_all env (Suc i) evs (record_failure ev err db1)
      | (Inr _, db1) \<Rightarrow> (let (n, db2) = publish_all env (Suc i) evs db1 in (Suc n, db2)))"

definition dispatch_ready ::
  "int \<Rightarrow> string \<Rightarrow> int \<Rightarrow> int list \<Rightarrow> time \<Rightarrow> time \<Rightarrow> (nat \<Rightarrow> (exc + string) \<times> time) \<Rightarrow> cdb \<Rightarrow> exc + (nat \<times> cdb)" where
  "dispatch_ready batch_size tok claim_seconds locked utc now env db =
     (case claim_ready batch_size tok claim_seconds locked utc now db of
        Inl e \<Rightarrow> Inl e
      | Inr (events, db1) \<Rightarrow> Inr (publish_all env 0 events db1))"

section \<open>The older dispatcher\<close>

text \<open>
  \<open>OutboxDispatcher.dispatch_ready\<close> publishes inside the transaction that marks the rows. An
  exception of \<open>XADD\<close> rolls the transaction back, but the messages already sent stay in the
  stream: the third component lists them, as task and generation.
\<close>

definition legacy_ready :: "time \<Rightarrow> cdb \<Rightarrow> outbox_row \<Rightarrow> bool" where
  "legacy_ready now db e \<longleftrightarrow>
     o_published_at e = None \<and> o_available_at e \<le> now \<and>
     (case task_by_id db (o_task_id e) of
        None \<Rightarrow> False
      | Some wt \<Rightarrow> t_generation wt = o_generation e \<and> t_status wt \<in> {PENDING, RETRY_SCHEDULED})"

definition legacy_mark :: "string \<Rightarrow> time \<Rightarrow> outbox_row \<Rightarrow> outbox_row" where
  "legacy_mark message_id now e =
     e\<lparr>o_published_at := Some now, o_message_id := Some message_id,
       o_attempts := o_attempts e + 1, o_last_error := None\<rparr>"

fun legacy_rows :: "(nat \<Rightarrow> exc + string) \<Rightarrow> time \<Rightarrow> nat \<Rightarrow> outbox_row list \<Rightarrow> cdb \<Rightarrow> (exc + (nat \<times> cdb)) \<times> (int \<times> int) list" where
  "legacy_rows replies now i [] db = (Inr (0, db), [])"
| "legacy_rows replies now i (e # es) db =
     (case replies i of
        Inl err \<Rightarrow> (Inl err, [])
      | Inr message_id \<Rightarrow>
          (let db1 = db\<lparr>outbox := update_where (\<lambda>x. o_id x = o_id e) (legacy_mark message_id now) (outbox db)\<rparr>;
               db2 = db1\<lparr>tasks := update_where (awaits_enqueue (o_task_id e) (o_generation e))
                                   (mark_enqueued now) (tasks db1)\<rparr>;
               (res, sent) = legacy_rows replies now (Suc i) es db2
           in ((case res of Inl err \<Rightarrow> Inl err | Inr (n, db3) \<Rightarrow> Inr (Suc n, db3)),
               event_of e # sent)))"

definition legacy_dispatch_ready ::
  "int \<Rightarrow> int list \<Rightarrow> time \<Rightarrow> (nat \<Rightarrow> exc + string) \<Rightarrow> cdb \<Rightarrow> (exc + nat) \<times> cdb \<times> (int \<times> int) list" where
  "legacy_dispatch_ready batch_size locked now replies db =
     (let rows = take (nat batch_size) (filter (\<lambda>e. o_id e \<notin> set locked)
                   (sort_key (event_key db) (filter (legacy_ready now db) (outbox db))));
          (res, sent) = legacy_rows replies now 0 rows db
      in case res of
           Inl err \<Rightarrow> (Inl err, db, sent)
         | Inr (n, db') \<Rightarrow> (Inr n, db', sent))"

end
