(* ===== verification/OutboxProps.thy ===== *)
theory OutboxProps
  imports Outbox
begin

text \<open>
  Correctness of the dispatcher: what a claim changes, in which order events are claimed, that
  claims exclude each other while they last, and what publishing and its failures leave behind.
\<close>

section \<open>Closed form of a claim\<close>

lemma update_where_twice:
  "(\<And>x. Q x \<Longrightarrow> \<not> P (f x)) \<Longrightarrow>
     update_where P f (update_where Q f xs) = update_where (\<lambda>x. Q x \<or> P x) f xs"
  by (induction xs) auto

lemma update_where_cong:
  "(\<And>x. x \<in> set xs \<Longrightarrow> P x = Q x) \<Longrightarrow> update_where P f xs = update_where Q f xs"
  by (induction xs) auto

lemma claim_row_fields [simp, row_simps]:
  "o_id (claim_row tok u e) = o_id e" "o_task_id (claim_row tok u e) = o_task_id e"
  "o_generation (claim_row tok u e) = o_generation e"
  "o_claim_token (claim_row tok u e) = Some tok" "o_claim_expires_at (claim_row tok u e) = Some u"
  "o_published_at (claim_row tok u e) = o_published_at e" "o_message_id (claim_row tok u e) = o_message_id e"
  "o_available_at (claim_row tok u e) = o_available_at e"
  by (simp_all add: claim_row_def)

lemma mark_enqueued_fields [simp, row_simps]:
  "t_id (mark_enqueued now r) = t_id r" "t_generation (mark_enqueued now r) = t_generation r"
  "t_idempotency_key (mark_enqueued now r) = t_idempotency_key r"
  "t_status (mark_enqueued now r) = ENQUEUED" "t_attempts (mark_enqueued now r) = t_attempts r"
  "t_max_attempts (mark_enqueued now r) = t_max_attempts r"
  "t_lease_owner (mark_enqueued now r) = t_lease_owner r"
  "t_lease_expires_at (mark_enqueued now r) = t_lease_expires_at r"
  "t_lease_started_at (mark_enqueued now r) = t_lease_started_at r"
  "t_leased_at (mark_enqueued now r) = t_leased_at r"
  "t_next_run_at (mark_enqueued now r) = t_next_run_at r"
  "t_priority (mark_enqueued now r) = t_priority r"
  by (simp_all add: mark_enqueued_def)

lemma mark_published_fields [simp, row_simps]:
  "o_id (mark_published m now e) = o_id e" "o_task_id (mark_published m now e) = o_task_id e"
  "o_generation (mark_published m now e) = o_generation e"
  "o_claim_token (mark_published m now e) = None" "o_claim_expires_at (mark_published m now e) = None"
  "o_published_at (mark_published m now e) = Some now" "o_message_id (mark_published m now e) = Some m"
  by (simp_all add: mark_published_def)

lemma drop_claim_fields [simp, row_simps]:
  "o_id (drop_claim err e) = o_id e" "o_task_id (drop_claim err e) = o_task_id e"
  "o_generation (drop_claim err e) = o_generation e"
  "o_claim_token (drop_claim err e) = None" "o_claim_expires_at (drop_claim err e) = None"
  "o_published_at (drop_claim err e) = o_published_at e" "o_message_id (drop_claim err e) = o_message_id e"
  "o_available_at (drop_claim err e) = o_available_at e"
  by (simp_all add: drop_claim_def)

definition in_rows :: "outbox_row list \<Rightarrow> outbox_row \<Rightarrow> bool" where
  "in_rows es x \<longleftrightarrow> o_id x \<in> o_id ` set es"

definition enqueues :: "outbox_row list \<Rightarrow> task_row \<Rightarrow> bool" where
  "enqueues es r \<longleftrightarrow>
     (t_id r, t_generation r) \<in> event_of ` set es \<and> t_status r \<in> {PENDING, RETRY_SCHEDULED}"

definition claimed_db :: "string \<Rightarrow> time \<Rightarrow> time \<Rightarrow> outbox_row list \<Rightarrow> cdb \<Rightarrow> cdb" where
  "claimed_db tok u now es db =
     db\<lparr>outbox := update_where (in_rows es) (claim_row tok u) (outbox db),
        tasks := update_where (enqueues es) (mark_enqueued now) (tasks db)\<rparr>"

lemma claim_rows_eq:
  "distinct (map o_id es) \<Longrightarrow>
     claim_rows tok u now es db = (map (claimed_of tok) es, claimed_db tok u now es db)"
proof (induction es arbitrary: db)
  case Nil
  then show ?case by (simp add: claimed_db_def in_rows_def enqueues_def update_where_id)
next
  case (Cons e es)
  have out: "update_where (in_rows es) (claim_row tok u)
        (update_where (\<lambda>x. o_id x = o_id e) (claim_row tok u) (outbox db))
      = update_where (in_rows (e # es)) (claim_row tok u) (outbox db)"
    using Cons.prems by (subst update_where_twice) (auto simp: in_rows_def intro!: update_where_cong)
  have tks: "update_where (enqueues es) (mark_enqueued now)
        (update_where (awaits_enqueue (o_task_id e) (o_generation e)) (mark_enqueued now) (tasks db))
      = update_where (enqueues (e # es)) (mark_enqueued now) (tasks db)"
    by (subst update_where_twice) (auto simp: enqueues_def awaits_enqueue_def intro!: update_where_cong)
  show ?case
    using Cons.IH Cons.prems out tks by (simp add: Let_def claimed_db_def)
qed

lemma select_props:
  "set (select_claimable b lk now db) \<subseteq> {e \<in> set (outbox db). claimable now db e \<and> o_id e \<notin> set lk}"
  by (auto simp: select_claimable_def dest!: in_set_takeD)

lemma select_distinct:
  assumes "distinct (map o_id (outbox db))"
  shows "distinct (map o_id (select_claimable b lk now db))"
proof -
  have "distinct (map o_id (filter (claimable now db) (outbox db)))"
    using assms by (rule distinct_map_filter)
  then have "distinct (map o_id (sort_key (event_key db) (filter (claimable now db) (outbox db))))"
    by (simp add: distinct_map)
  then have "distinct (map o_id (filter (\<lambda>e. o_id e \<notin> set lk)
      (sort_key (event_key db) (filter (claimable now db) (outbox db)))))"
    by (rule distinct_map_filter)
  then show ?thesis
    unfolding select_claimable_def by (metis distinct_take take_map)
qed

lemma claim_ready_eq:
  assumes "ledger_inv db" and "0 < b"
  shows "claim_ready b tok cs lk utc now db =
    Inr (map (claimed_of tok) (select_claimable b lk now db),
         claimed_db tok (utc + seconds cs) now (select_claimable b lk now db) db)"
  using assms by (simp add: claim_ready_def claim_rows_eq select_distinct ledger_invD)

section \<open>Updates of the outbox that keep the invariant\<close>

lemma fetch_key_update_event:
  "(\<And>e. P e \<Longrightarrow> event_of (f e) = event_of e) \<Longrightarrow>
     fetch_key event_of k (update_where P f es) = map_option (\<lambda>e. if P e then f e else e) (fetch_key event_of k es)"
  by (rule fetch_key_update_where) blast

lemma ledger_inv_update_outbox:
  assumes inv: "ledger_inv db"
    and keys: "\<And>e. P e \<Longrightarrow> o_id (f e) = o_id e" "\<And>e. P e \<Longrightarrow> event_of (f e) = event_of e"
    and ok: "\<And>e. event_ok e \<Longrightarrow> P e \<Longrightarrow> event_ok (f e)"
    and safe: "\<And>e r. e \<in> set (outbox db) \<Longrightarrow> P e \<Longrightarrow> task_by_id db (o_task_id e) = Some r \<Longrightarrow>
      t_generation r = o_generation e \<Longrightarrow> t_status r \<in> {PENDING, RETRY_SCHEDULED} \<Longrightarrow> pristine (f e)"
  shows "ledger_inv (db\<lparr>outbox := update_where P f (outbox db)\<rparr>)" (is "ledger_inv ?db")
  unfolding ledger_inv_def
proof (intro conjI)
  show "tasks_inv ?db" "dead_inv ?db"
    using inv by (simp_all add: ledger_inv_defs dead_linked_def)
  have "map o_id (outbox ?db) = map o_id (outbox db)"
    "map event_of (outbox ?db) = map event_of (outbox db)"
    using keys by (simp_all add: map_update_where)
  moreover have "\<forall>e\<in>set (outbox ?db). event_ok e \<and> o_id e < outbox_seq db"
    using inv keys ok by (simp add: ledger_inv_defs ball_update_where)
  ultimately show "outbox_inv ?db"
    using inv by (simp add: ledger_inv_def outbox_inv_def)
  have look: "outbox_event ?db i g = map_option (\<lambda>e. if P e then f e else e) (outbox_event db i g)" for i g
    using keys(2) by (simp add: fetch_key_update_event)
  have "(P e \<longrightarrow> event_linked ?db (f e)) \<and> (\<not> P e \<longrightarrow> event_linked ?db e)" if "event_linked db e" for e
    using that keys(2) [of e] by (auto simp: event_linked_def)
  moreover have "task_linked ?db r" if r: "r \<in> set (tasks db)" for r
  proof -
    from inv r obtain e where e: "outbox_event db (t_id r) (t_generation r) = Some e"
      "t_status r \<in> {PENDING, RETRY_SCHEDULED} \<longrightarrow> pristine e"
      by (auto simp: ledger_inv_defs task_linked_def)
    then have ev: "e \<in> set (outbox db)" "event_of e = (t_id r, t_generation r)"
      by (auto dest: fetch_key_SomeD)
    have "task_by_id db (t_id r) = Some r" using inv r by (rule ledger_task_by_id)
    with ev safe [of e r] e(2)
    have "t_status r \<in> {PENDING, RETRY_SCHEDULED} \<longrightarrow> pristine (if P e then f e else e)"
      by auto
    moreover from e(1) have "outbox_event ?db (t_id r) (t_generation r) = Some (if P e then f e else e)"
      unfolding look by simp
    ultimately show ?thesis by (simp add: task_linked_def)
  qed
  ultimately show "link_inv ?db"
    using inv by (simp add: ledger_inv_def link_inv_def ball_update_where)
qed

lemma cdb_commute: "(db :: cdb)\<lparr>outbox := a, tasks := b\<rparr> = db\<lparr>tasks := b, outbox := a\<rparr>"
  by (cases db) simp

lemma claimed_db_inv:
  assumes inv: "ledger_inv db" and sub: "set es \<subseteq> set (outbox db)"
    and unpub: "\<And>e. e \<in> set es \<Longrightarrow> o_published_at e = None"
  shows "ledger_inv (claimed_db tok u now es db)"
proof -
  let ?P = "\<lambda>x. in_rows es x \<and> o_published_at x = None"
  let ?db1 = "db\<lparr>tasks := update_where (enqueues es) (mark_enqueued now) (tasks db)\<rparr>"
  have inv1: "ledger_inv ?db1"
    by (rule ledger_inv_update_tasks [OF inv]) (auto simp: enqueues_def task_ok_def)
  have mem: "x \<in> set es" if x: "x \<in> set (outbox db)" "in_rows es x" for x
  proof -
    from x(2) obtain y where "y \<in> set es" "o_id x = o_id y" by (auto simp: in_rows_def)
    moreover have "distinct (map o_id (outbox db))" by (rule ledger_invD [OF inv])
    ultimately show ?thesis using sub x(1) by (metis same_key_eq subsetD)
  qed
  have same: "update_where ?P (claim_row tok u) (outbox db) = update_where (in_rows es) (claim_row tok u) (outbox db)"
    using unpub mem by (auto intro: update_where_cong)
  have "ledger_inv (?db1\<lparr>outbox := update_where ?P (claim_row tok u) (outbox ?db1)\<rparr>)"
  proof (rule ledger_inv_update_outbox [OF inv1])
    fix e r
    assume e: "e \<in> set (outbox ?db1)" "?P e" and r: "task_by_id ?db1 (o_task_id e) = Some r"
      "t_generation r = o_generation e" "t_status r \<in> {PENDING, RETRY_SCHEDULED}"
    from e mem have "e \<in> set es" by simp
    moreover from r(1) have "t_id r = o_task_id e" by (auto dest: fetch_key_SomeD)
    ultimately have "enqueues es r"
      using r(2,3) by (force simp: enqueues_def)
    moreover from r(1) obtain y where "r = (if enqueues es y then mark_enqueued now y else y)"
      by (auto simp: fetch_key_update_where)
    with r(3) have "\<not> enqueues es r" by (cases "enqueues es y") auto
    ultimately show "pristine (claim_row tok u e)" by simp
  qed (auto simp: event_ok_def)
  then show ?thesis unfolding claimed_db_def cdb_commute by (simp add: same)
qed

lemma claim_ready_inv:
  assumes inv: "ledger_inv db" and run: "claim_ready b tok cs lk utc now db = Inr (evs, db')"
  shows "ledger_inv db'"
proof -
  let ?sel = "select_claimable b lk now db"
  have sel: "set ?sel \<subseteq> set (outbox db)" "\<And>e. e \<in> set ?sel \<Longrightarrow> o_published_at e = None"
    using select_props [of b lk now db] by (auto simp: claimable_def)
  from run have "0 < b" by (auto simp: claim_ready_def split: if_splits)
  with run sel claimed_db_inv [OF inv, of ?sel] show ?thesis
    by (auto simp: claim_ready_eq [OF inv])
qed

lemma publish_claimed_inv: "ledger_inv db \<Longrightarrow> ledger_inv (snd (publish_claimed ev reply now db))"
proof -
  assume inv: "ledger_inv db"
  have "ledger_inv (db\<lparr>outbox := update_where (holds_claim ev) (mark_published m now) (outbox db)\<rparr>)" for m
  proof (rule ledger_inv_update_outbox [OF inv])
    fix e r
    assume e: "e \<in> set (outbox db)" "holds_claim ev e" and r: "task_by_id db (o_task_id e) = Some r"
      "t_generation r = o_generation e" "t_status r \<in> {PENDING, RETRY_SCHEDULED}"
    have "outbox_event db (t_id r) (t_generation r) = Some e"
      using fetch_key_unique [of event_of "outbox db" e] ledger_invD(7) [OF inv] e(1) r(1,2)
      by (auto dest: fetch_key_SomeD)
    moreover have "task_linked db r"
      using inv r(1) by (auto simp: ledger_inv_defs dest: fetch_key_SomeD)
    ultimately have "pristine e" using r(3) by (auto simp: task_linked_def)
    with e(2) show "pristine (mark_published m now e)"
      by (simp add: pristine_def holds_claim_def)
  qed (auto simp: event_ok_def)
  with inv show ?thesis by (auto simp: publish_claimed_def Let_def split: sum.splits)
qed

lemma record_failure_inv: "ledger_inv db \<Longrightarrow> ledger_inv (record_failure ev err db)"
  unfolding record_failure_def
  by (rule ledger_inv_update_outbox) (auto simp: event_ok_def holds_claim_def pristine_def)

section \<open>What a claim guarantees\<close>

text \<open>The dispatcher's view of one claimed event in the database.\<close>

definition claim_visible :: "string \<Rightarrow> time \<Rightarrow> cdb \<Rightarrow> claimed_event \<Rightarrow> bool" where
  "claim_visible tok u db c \<longleftrightarrow> c_claim_token c = tok \<and>
     (\<exists>e. fetch_key o_id (c_outbox_id c) (outbox db) = Some e \<and>
          event_of e = (c_task_id c, c_generation c) \<and> o_published_at e = None \<and>
          o_claim_token e = Some tok \<and> o_claim_expires_at e = Some u) \<and>
     (\<exists>r. task_by_id db (c_task_id c) = Some r \<and> t_generation r = c_generation c \<and>
          t_status r = ENQUEUED)"

lemma claimed_task:
  assumes inv: "ledger_inv db" and e: "e \<in> set (select_claimable b lk now db)"
  shows "\<exists>r. task_by_id (claimed_db tok u now (select_claimable b lk now db) db) (o_task_id e) = Some r \<and>
    t_generation r = o_generation e \<and> t_status r = ENQUEUED"
proof -
  let ?es = "select_claimable b lk now db"
  from e have "claimable now db e" using select_props by blast
  then obtain r where r: "task_by_id db (o_task_id e) = Some r" "t_generation r = o_generation e"
    "t_status r \<in> {PENDING, RETRY_SCHEDULED, ENQUEUED}"
    by (auto simp: claimable_def split: option.splits)
  from r(1) have "t_id r = o_task_id e" by (auto dest: fetch_key_SomeD)
  with e r(2) have "(t_id r, t_generation r) \<in> event_of ` set ?es" by force
  with r(3) have "enqueues ?es r \<or> t_status r = ENQUEUED" by (auto simp: enqueues_def)
  with r show ?thesis
    by (auto simp: claimed_db_def fetch_key_update_where)
qed

lemma claim_ready_outcome:
  assumes inv: "ledger_inv db" and run: "claim_ready b tok cs lk utc now db = Inr (evs, db')"
  shows "(\<forall>c\<in>set evs. claim_visible tok (utc + seconds cs) db' c) \<and>
    distinct (map c_outbox_id evs) \<and> int (length evs) \<le> b \<and> ledger_inv db'"
proof -
  let ?es = "select_claimable b lk now db" and ?u = "utc + seconds cs"
  from run have b: "0 < b" by (auto simp: claim_ready_def split: if_splits)
  with run have evs: "evs = map (claimed_of tok) ?es" and db': "db' = claimed_db tok ?u now ?es db"
    by (auto simp: claim_ready_eq [OF inv])
  have ids: "distinct (map o_id (outbox db))" by (rule ledger_invD [OF inv])
  have "claim_visible tok ?u db' (claimed_of tok e)" if e: "e \<in> set ?es" for e
  proof -
    from e have mem: "e \<in> set (outbox db)" "o_published_at e = None"
      using select_props [of b lk now db] by (auto simp: claimable_def)
    with ids have "fetch_key o_id (o_id e) (outbox db) = Some e" by (simp add: fetch_key_unique)
    moreover have "in_rows ?es e" using e by (simp add: in_rows_def)
    ultimately have "fetch_key o_id (o_id e) (outbox db') = Some (claim_row tok ?u e)"
      by (simp add: db' claimed_db_def fetch_key_update_where)
    with mem claimed_task [OF inv e, of tok ?u] show ?thesis
      by (simp add: claim_visible_def claimed_of_def db')
  qed
  moreover have "c_outbox_id \<circ> claimed_of tok = o_id" by (auto simp: claimed_of_def)
  moreover have "length ?es \<le> nat b" by (simp add: select_claimable_def)
  ultimately show ?thesis
    using select_distinct [OF ids, of b lk now] claim_ready_inv [OF inv run] b
    by (auto simp: evs)
qed

text \<open>
  C17: No visibility race: every event that a claim hands out for publication belongs to a task that the
  same transaction has committed as \<open>ENQUEUED\<close>, at the event's generation; the outbox row carries
  the claim and is unpublished. At most the requested number is claimed, and the ledger stays well formed.
\<close>

theorem claim_before_visible:
  assumes inv: "ledger_inv db" and run: "claim_ready b tok cs lk utc now db = Inr (evs, db')"
  shows "(\<forall>c\<in>set evs. claim_visible tok (utc + seconds cs) db' c) \<and>
    distinct (map c_outbox_id evs) \<and> int (length evs) \<le> b \<and> ledger_inv db'"
  by (rule claim_ready_outcome [OF inv run])

theorem claim_before_visible_witness:
  "\<exists>evs db'. claim_ready 100 ''tok'' 30 [] 5 5 pending_db = Inr (evs, db') \<and> length evs = 1 \<and>
    (\<forall>c\<in>set evs. claim_visible ''tok'' (5 + seconds 30) db' c)"
proof -
  obtain evs db' where run: "claim_ready 100 ''tok'' 30 [] 5 5 pending_db = Inr (evs, db')"
    and "length evs = 1"
    by (simp add: claim_ready_def select_claimable_def claimable_def sample_defs)
  then show ?thesis using claim_before_visible [OF sample_inv(1) run] by blast
qed

text \<open>
  Claims exclude each other while they last: a second claim, by any dispatcher and with any batch,
  made before the database clock reaches the first claim's end, takes none of the events of the first.
\<close>

theorem claims_disjoint:
  assumes inv: "ledger_inv db"
    and first: "claim_ready b tok cs lk utc now db = Inr (evs, db1)"
    and second: "claim_ready b' tok' cs' lk' utc' now' db1 = Inr (evs', db2)"
    and live: "now' < utc + seconds cs"
  shows "c_outbox_id ` set evs \<inter> c_outbox_id ` set evs' = {}"
proof -
  note inv1 = claim_ready_inv [OF inv first]
  have ids1: "distinct (map o_id (outbox db1))" by (rule ledger_invD [OF inv1])
  from second have "0 < b'" by (auto simp: claim_ready_def split: if_splits)
  with second have evs': "evs' = map (claimed_of tok') (select_claimable b' lk' now' db1)"
    by (auto simp: claim_ready_eq [OF inv1])
  have "c_outbox_id c' \<noteq> c_outbox_id c" if c: "c \<in> set evs" and c': "c' \<in> set evs'" for c c'
  proof
    assume same: "c_outbox_id c' = c_outbox_id c"
    from c claim_ready_outcome [OF inv first]
    obtain e where e: "fetch_key o_id (c_outbox_id c) (outbox db1) = Some e"
      "o_claim_expires_at e = Some (utc + seconds cs)"
      by (auto simp: claim_visible_def)
    from c' evs' obtain e' where e': "e' \<in> set (outbox db1)" "claimable now' db1 e'" "c_outbox_id c' = o_id e'"
      using select_props [of b' lk' now' db1] by (auto simp: claimed_of_def)
    with ids1 e(1) same have "e' = e" by (metis fetch_key_unique option.inject)
    with e(2) e'(2) live show False by (simp add: claimable_def)
  qed
  then show ?thesis by (fastforce simp: disjoint_iff)
qed

theorem claims_disjoint_witness:
  "\<exists>evs db1 evs' db2. claim_ready 100 ''a'' 30 [] 5 5 pending_db = Inr (evs, db1) \<and>
    claim_ready 100 ''b'' 30 [] 9 9 db1 = Inr (evs', db2) \<and> evs \<noteq> [] \<and>
    c_outbox_id ` set evs \<inter> c_outbox_id ` set evs' = {}"
proof -
  obtain evs db1 where run: "claim_ready 100 ''a'' 30 [] 5 5 pending_db = Inr (evs, db1)" and "evs \<noteq> []"
    by (simp add: claim_ready_def select_claimable_def claimable_def sample_defs)
  moreover obtain evs' db2 where run': "claim_ready 100 ''b'' 30 [] 9 9 db1 = Inr (evs', db2)"
    by (simp add: claim_ready_def) (metis surj_pair)
  moreover have "(9::time) < 5 + seconds 30" by (simp add: seconds_def)
  ultimately show ?thesis using claims_disjoint [OF sample_inv(1) run run'] by blast
qed

lemma sorted_map_filter': "sorted (map f xs) \<Longrightarrow> sorted (map f (filter P xs))"
  by (induction xs) auto

text \<open>The two clauses of the query in terms of the rows: which events it asks for, and which comes before which.\<close>

definition awaits_dispatch :: "time \<Rightarrow> cdb \<Rightarrow> outbox_row \<Rightarrow> bool" where
  "awaits_dispatch now db e \<longleftrightarrow> o_published_at e = None \<and> o_available_at e \<le> now \<and>
     (\<forall>c. o_claim_expires_at e = Some c \<longrightarrow> c \<le> now) \<and>
     (\<exists>r. task_by_id db (o_task_id e) = Some r \<and> t_generation r = o_generation e \<and>
        (t_status r = PENDING \<or> t_status r = RETRY_SCHEDULED \<or> t_status r = ENQUEUED))"

definition dispatched_before :: "cdb \<Rightarrow> outbox_row \<Rightarrow> outbox_row \<Rightarrow> bool" where
  "dispatched_before db x y \<longleftrightarrow> (\<exists>a b. task_by_id db (o_task_id x) = Some a \<and> task_by_id db (o_task_id y) = Some b \<and>
     (t_priority a > t_priority b \<or> t_priority a = t_priority b \<and>
        (o_available_at x < o_available_at y \<or> o_available_at x = o_available_at y \<and> o_id x < o_id y)))"

lemma claimable_awaits: "claimable now db e \<longleftrightarrow> awaits_dispatch now db e"
  by (auto simp: claimable_def awaits_dispatch_def null_le_def split: option.splits)

lemma event_key_before:
  assumes "awaits_dispatch now db x" "awaits_dispatch now db y" "event_key db x \<le> event_key db y" "o_id x \<noteq> o_id y"
  shows "dispatched_before db x y"
  using assms by (auto simp: awaits_dispatch_def event_key_def less_eq_dispatch_key_def dispatched_before_def)

text \<open>
  C21: Events are claimed in dispatch order: of two claimed events the one whose task has the higher priority comes first, then
  the one that was available earlier, then the one with the lower id. Only events that wait for dispatch and are not locked are
  claimed, and none is skipped: one that is left behind is left because the batch is full, and comes after
  every claimed one in that order.
\<close>

theorem claim_order:
  assumes inv: "ledger_inv db" and run: "claim_ready b tok cs lk utc now db = Inr (evs, db')"
  shows "\<exists>es. map (\<lambda>ev. (c_outbox_id ev, c_task_id ev, c_generation ev)) evs = map (\<lambda>e. (o_id e, o_task_id e, o_generation e)) es \<and>
    sorted_wrt (dispatched_before db) es \<and>
    (\<forall>e\<in>set es. e \<in> set (outbox db) \<and> awaits_dispatch now db e \<and> o_id e \<notin> set lk) \<and>
    (\<forall>e\<in>set (outbox db). awaits_dispatch now db e \<and> o_id e \<notin> set lk \<and> e \<notin> set es \<longrightarrow>
      int (length es) = b \<and> (\<forall>x\<in>set es. dispatched_before db x e))"
proof -
  define all where "all = filter (\<lambda>e. o_id e \<notin> set lk)
    (sort_key (event_key db) (filter (claimable now db) (outbox db)))"
  define es where "es = select_claimable b lk now db"
  have es: "es = take (nat b) all" by (simp add: es_def all_def select_claimable_def)
  have ids: "distinct (map o_id (outbox db))" using inv by (simp add: ledger_inv_defs)
  have mem: "e \<in> set all \<longleftrightarrow> e \<in> set (outbox db) \<and> awaits_dispatch now db e \<and> o_id e \<notin> set lk" for e
    by (auto simp: all_def claimable_awaits)
  have "distinct (map o_id all)" unfolding all_def
    by (rule distinct_map_filter) (use ids in \<open>simp add: distinct_map inj_on_def\<close>)
  have before: "dispatched_before db x y" if "x \<in> set all" "y \<in> set all" "event_key db x \<le> event_key db y" "x \<noteq> y" for x y
    using that same_key_eq [OF ids, of x y] by (intro event_key_before [of now]) (auto simp: mem)
  have "sorted_wrt (\<lambda>x y. event_key db x \<le> event_key db y \<and> x \<noteq> y) all"
  proof -
    have "sorted (map (event_key db) all)" unfolding all_def by (rule sorted_map_filter') simp
    then have "sorted_wrt (\<lambda>x y. event_key db x \<le> event_key db y) all" by (simp only: sorted_map)
    moreover have "distinct all" using \<open>distinct (map o_id all)\<close> by (simp add: distinct_map)
    ultimately show ?thesis by (auto simp: sorted_wrt_iff_nth_less nth_eq_iff_index_eq)
  qed
  then have order: "sorted_wrt (dispatched_before db) all"
    by (rule sorted_wrt_mono_rel [rotated]) (use before in blast)
  from run have b: "0 < b" by (auto simp: claim_ready_def split: if_splits)
  with run have "evs = map (claimed_of tok) es"
    by (auto simp: claim_ready_eq [OF inv] es_def)
  then have evs: "map (\<lambda>ev. (c_outbox_id ev, c_task_id ev, c_generation ev)) evs = map (\<lambda>e. (o_id e, o_task_id e, o_generation e)) es"
    by (simp add: claimed_of_def)
  have chosen: "e \<in> set (outbox db) \<and> awaits_dispatch now db e \<and> o_id e \<notin> set lk" if "e \<in> set es" for e
    using that mem by (auto simp: es dest: in_set_takeD)
  have "int (length es) = b \<and> (\<forall>x\<in>set es. dispatched_before db x e)"
    if e: "e \<in> set (outbox db)" "awaits_dispatch now db e" "o_id e \<notin> set lk" "e \<notin> set es" for e
  proof -
    have "e \<in> set all" using e by (simp add: mem)
    then have d: "e \<in> set (drop (nat b) all)"
      using e(4) by (metis es Un_iff append_take_drop_id set_append)
    then have "nat b < length all" by (metis drop_all empty_iff list.set(1) not_le)
    moreover have "sorted_wrt (dispatched_before db) (es @ drop (nat b) all)" using order by (simp add: es)
    then have "\<forall>x\<in>set es. dispatched_before db x e" using d by (simp add: sorted_wrt_append)
    ultimately show ?thesis using b es by simp
  qed
  moreover have "sorted_wrt (dispatched_before db) es" using order by (simp add: es sorted_wrt_take)
  ultimately show ?thesis using evs chosen by (intro exI [of _ es]) blast
qed

theorem claim_order_witness:
  "\<exists>evs db'. claim_ready 1 ''t'' 30 [] 5 5 pending_db = Inr (evs, db') \<and>
    list_all (\<lambda>ev. \<exists>e. c_outbox_id ev = o_id e \<and> awaits_dispatch 5 pending_db e) evs \<and> length evs = 1"
proof -
  obtain evs db' where run: "claim_ready 1 ''t'' 30 [] 5 5 pending_db = Inr (evs, db')" and one: "length evs = 1"
    by (simp add: claim_ready_def select_claimable_def claimable_def sample_defs)
  from claim_order [OF sample_inv(1) run]
  obtain es where es: "map (\<lambda>ev. (c_outbox_id ev, c_task_id ev, c_generation ev)) evs = map (\<lambda>e. (o_id e, o_task_id e, o_generation e)) es"
    "\<forall>e\<in>set es. awaits_dispatch 5 pending_db e"
    by blast
  have "\<forall>ev\<in>set evs. \<exists>e\<in>set es. c_outbox_id ev = o_id e"
    using arg_cong [OF es(1), of "\<lambda>xs. fst ` set xs"] by (simp add: image_image) (metis (no_types, lifting) imageE imageI)
  with es(2) have "list_all (\<lambda>ev. \<exists>e. c_outbox_id ev = o_id e \<and> awaits_dispatch 5 pending_db e) evs" unfolding list_all_iff by metis
  with run one show ?thesis by blast
qed

section \<open>What publishing guarantees\<close>

abbreviation event_row :: "cdb \<Rightarrow> int \<Rightarrow> outbox_row option" where
  "event_row db i \<equiv> fetch_key o_id i (outbox db)"

definition held :: "cdb \<Rightarrow> claimed_event \<Rightarrow> bool" where
  "held db ev \<longleftrightarrow> (\<exists>e. event_row db (c_outbox_id ev) = Some e \<and> holds_claim ev e)"

lemma holds_claim_id: "holds_claim ev e \<Longrightarrow> o_id e = c_outbox_id ev"
  by (simp add: holds_claim_def)

lemma count_holds_claim:
  assumes "distinct (map o_id (outbox db))"
  shows "count_where (holds_claim ev) (outbox db) = 1 \<longleftrightarrow> held db ev"
  unfolding held_def by (rule count_where_key_1 [OF assms]) (rule holds_claim_id)

lemma publish_claimed_eq:
  assumes "distinct (map o_id (outbox db))"
  shows "publish_claimed ev (Inr m) now db =
    (if held db ev then Inr m else Inl (claim_lost ev),
     db\<lparr>outbox := update_where (holds_claim ev) (mark_published m now) (outbox db)\<rparr>)"
  using count_holds_claim [OF assms, of ev] by (simp add: publish_claimed_def Let_def)

lemma not_held_update:
  assumes ids: "distinct (map o_id (outbox db))" and no: "\<not> held db ev"
  shows "update_where (holds_claim ev) f (outbox db) = outbox db"
proof (rule update_where_id)
  fix e assume "e \<in> set (outbox db)"
  with ids have "event_row db (o_id e) = Some e" by (rule fetch_key_unique)
  with no show "\<not> holds_claim ev e"
    by (auto simp: held_def holds_claim_id)
qed

text \<open>
  Publication is decided by the claim: after a successful \<open>XADD\<close> the row is marked published with
  the message id if the dispatcher still holds the claim, and publishing the same event again fails
  without a trace in the database; if the claim is gone the call raises and changes nothing.
\<close>

theorem publish_needs_claim:
  assumes inv: "ledger_inv db"
  shows "if held db ev
    then \<exists>db' e. publish_claimed ev (Inr m) now db = (Inr m, db') \<and>
      event_row db' (c_outbox_id ev) = Some e \<and> o_published_at e = Some now \<and>
      o_message_id e = Some m \<and> o_claim_token e = None \<and> tasks db' = tasks db \<and>
      publish_claimed ev (Inr m') now' db' = (Inl (claim_lost ev), db')
    else publish_claimed ev (Inr m) now db = (Inl (claim_lost ev), db)"
proof (cases "held db ev")
  case True
  define db' where "db' = snd (publish_claimed ev (Inr m) now db)"
  have ids: "distinct (map o_id (outbox db))" by (rule ledger_invD [OF inv])
  have inv': "ledger_inv db'" unfolding db'_def by (rule publish_claimed_inv [OF inv])
  from True obtain e where e: "event_row db (c_outbox_id ev) = Some e" "holds_claim ev e"
    by (auto simp: held_def)
  have row: "event_row db' (c_outbox_id ev) = Some (mark_published m now e)"
    using e by (simp add: db'_def publish_claimed_eq [OF ids] fetch_key_update_where)
  then have "\<not> held db' ev" by (simp add: held_def holds_claim_def)
  then have "publish_claimed ev (Inr m') now' db' = (Inl (claim_lost ev), db')"
    using not_held_update ledger_invD(8) [OF inv'] by (simp add: publish_claimed_eq)
  with True row show ?thesis
    by (auto simp: db'_def publish_claimed_eq [OF ids])
next
  case False
  have ids: "distinct (map o_id (outbox db))" by (rule ledger_invD [OF inv])
  show ?thesis
    using False not_held_update [OF ids False] by (simp add: publish_claimed_eq [OF ids])
qed

definition sample_claim :: claimed_event where
  "sample_claim = claimed_of ''tok'' sample_event"

definition claimed_sample_db :: cdb where
  "claimed_sample_db = db_of (mark_enqueued 5 sample_task) (claim_row ''tok'' (5 + seconds 30) sample_event)"

lemma claimed_sample: "ledger_inv claimed_sample_db" "held claimed_sample_db sample_claim"
  by (simp_all add: claimed_sample_db_def sample_claim_def sample_defs sample_checks mark_enqueued_def
      claim_row_def claimed_of_def held_def holds_claim_def)

theorem publish_needs_claim_witness:
  "\<exists>db'. publish_claimed sample_claim (Inr ''1-0'') 6 claimed_sample_db = (Inr ''1-0'', db') \<and>
    publish_claimed sample_claim (Inr ''2-0'') 7 db' = (Inl (claim_lost sample_claim), db')"
  using publish_needs_claim [OF claimed_sample(1), of sample_claim "''1-0''" 6 "''2-0''" 7] claimed_sample(2)
  by auto

text \<open>
  At-least-once delivery: when publication fails, recording the failure gives the claim up, so any
  dispatcher can claim the event again at once as long as the task still waits at this generation; the
  task itself is not touched.
\<close>

theorem failed_publish_reclaimable:
  assumes inv: "ledger_inv db" and ev: "held db ev"
    and task: "task_by_id db (c_task_id ev) = Some r" "t_status r \<in> {PENDING, RETRY_SCHEDULED, ENQUEUED}"
      "t_generation r = c_generation ev"
    and row: "event_row db (c_outbox_id ev) = Some e" "event_of e = (c_task_id ev, c_generation ev)"
      "o_available_at e \<le> now"
  shows "\<exists>e'. event_row (record_failure ev err db) (c_outbox_id ev) = Some e' \<and>
    claimable now (record_failure ev err db) e' \<and> tasks (record_failure ev err db) = tasks db"
proof -
  have hold: "holds_claim ev e" using ev row(1) by (simp add: held_def)
  let ?e = "drop_claim (exc_str err) e"
  have "event_row (record_failure ev err db) (c_outbox_id ev) = Some ?e"
    using row(1) hold by (simp add: record_failure_def fetch_key_update_where)
  moreover have "claimable now (record_failure ev err db) ?e"
    using hold row(2,3) task by (simp add: claimable_def record_failure_def holds_claim_def)
  ultimately show ?thesis by (simp add: record_failure_def)
qed

theorem failed_publish_reclaimable_witness:
  "\<exists>e'. event_row (record_failure sample_claim (Other ''ConnectionError'' []) claimed_sample_db) 1 = Some e' \<and>
    claimable 6 (record_failure sample_claim (Other ''ConnectionError'' []) claimed_sample_db) e'"
  using failed_publish_reclaimable [OF claimed_sample, of "mark_enqueued 5 sample_task"
      "claim_row ''tok'' (5 + seconds 30) sample_event" 6 "Other ''ConnectionError'' []"]
  by (auto simp: sample_claim_def claimed_of_def claimed_sample_db_def sample_defs mark_enqueued_def claim_row_def)

text \<open>One round of the dispatcher, event by event.\<close>

definition settled :: "exc + string \<Rightarrow> cdb \<Rightarrow> claimed_event \<Rightarrow> bool" where
  "settled reply db ev \<longleftrightarrow> (\<exists>e. event_row db (c_outbox_id ev) = Some e \<and> o_claim_token e = None \<and>
     (case reply of Inr m \<Rightarrow> o_published_at e \<noteq> None \<and> o_message_id e = Some m
      | Inl _ \<Rightarrow> o_published_at e = None))"

lemma publish_all_others:
  "i \<notin> c_outbox_id ` set evs \<Longrightarrow> event_row (snd (publish_all env k evs db)) i = event_row db i"
proof (induction env k evs db rule: publish_all.induct)
  case (2 env k ev evs db)
  have keep: "event_row (db'\<lparr>outbox := update_where (holds_claim ev) f (outbox db')\<rparr>) i = event_row db' i"
    if "\<And>e. o_id (f e) = o_id e" for f db'
  proof (cases "event_row db' i")
    case (Some e)
    then have "o_id e = i" by (auto dest: fetch_key_SomeD)
    with "2.prems" have "\<not> holds_claim ev e" by (auto simp: holds_claim_def)
    with Some that show ?thesis by (simp add: fetch_key_update_where)
  qed (simp add: fetch_key_update_where that)
  show ?case
  proof (cases "publish_claimed ev (fst (env k)) (snd (env k)) db")
    case (Pair res db1)
    have one: "event_row db1 i = event_row db i"
      using Pair keep by (auto simp: publish_claimed_def Let_def split: sum.splits if_splits)
    have "event_row (record_failure ev err db1) i = event_row db1 i" for err
      using keep by (simp add: record_failure_def)
    with 2 Pair one show ?thesis by (auto split: sum.splits prod.splits)
  qed
qed simp

lemma publish_all_settles:
  assumes "ledger_inv db" and "distinct (map c_outbox_id evs)" and "\<forall>ev\<in>set evs. held db ev"
  shows "fst (publish_all env k evs db) = length (filter (\<lambda>j. \<exists>m. fst (env (k + j)) = Inr m) [0..<length evs]) \<and>
    (\<forall>j<length evs. settled (fst (env (k + j))) (snd (publish_all env k evs db)) (evs ! j)) \<and>
    tasks (snd (publish_all env k evs db)) = tasks db"
  using assms
proof (induction evs arbitrary: k db)
  case (Cons ev evs)
  define db1 where "db1 = (case fst (env k) of Inr m \<Rightarrow> snd (publish_claimed ev (Inr m) (snd (env k)) db)
    | Inl err \<Rightarrow> record_failure ev err db)"
  from Cons.prems obtain e where e: "event_row db (c_outbox_id ev) = Some e" "holds_claim ev e"
    by (auto simp: held_def)
  have ids: "distinct (map o_id (outbox db))" by (rule ledger_invD [OF Cons.prems(1)])
  have hold: "held db ev" using e by (simp add: held_def)
  have inv1: "ledger_inv db1"
    using Cons.prems(1) by (auto simp: db1_def publish_claimed_inv record_failure_inv split: sum.splits)
  have set1: "settled (fst (env k)) db1 ev"
    using e by (auto simp: db1_def settled_def publish_claimed_eq [OF ids] record_failure_def
        fetch_key_update_where holds_claim_def split: sum.splits)
  have tasks1: "tasks db1 = tasks db"
    by (auto simp: db1_def publish_claimed_eq [OF ids] record_failure_def split: sum.splits)
  have keep: "held db1 x" if x: "x \<in> set evs" for x
  proof -
    from x Cons.prems have ne: "c_outbox_id x \<noteq> c_outbox_id ev" and "held db x" by (auto simp: image_iff)
    then obtain y where y: "event_row db (c_outbox_id x) = Some y" "holds_claim x y" by (auto simp: held_def)
    with ne have "\<not> holds_claim ev y" by (auto simp: holds_claim_def)
    with y show ?thesis
      by (auto simp: held_def db1_def publish_claimed_eq [OF ids] record_failure_def fetch_key_update_where
          split: sum.splits)
  qed
  have step: "publish_all env k (ev # evs) db =
      (case fst (env k) of Inr _ \<Rightarrow> apfst Suc (publish_all env (Suc k) evs db1)
       | Inl _ \<Rightarrow> publish_all env (Suc k) evs db1)"
  proof (cases "fst (env k)")
    case (Inl err)
    then show ?thesis by (simp add: db1_def publish_claimed_def)
  next
    case (Inr m)
    then show ?thesis
      by (simp add: db1_def publish_claimed_eq [OF ids] hold split: prod.splits)
  qed
  have IH: "fst (publish_all env (Suc k) evs db1)
        = length (filter (\<lambda>j. \<exists>m. fst (env (Suc k + j)) = Inr m) [0..<length evs]) \<and>
      (\<forall>j<length evs. settled (fst (env (Suc k + j))) (snd (publish_all env (Suc k) evs db1)) (evs ! j)) \<and>
      tasks (snd (publish_all env (Suc k) evs db1)) = tasks db1"
    using Cons.prems keep by (intro Cons.IH inv1) auto
  have "c_outbox_id ev \<notin> c_outbox_id ` set evs" using Cons.prems(2) by simp
  then have first: "settled (fst (env k)) (snd (publish_all env (Suc k) evs db1)) ev"
    using set1 by (simp add: settled_def publish_all_others)
  have upt: "[0..<length (ev # evs)] = 0 # map Suc [0..<length evs]"
    by (simp add: upt_conv_Cons map_Suc_upt del: upt_Suc)
  have "length (filter P (map Suc xs)) = length (filter (\<lambda>j. P (Suc j)) xs)" for P xs
    by (simp add: filter_map o_def)
  with IH first tasks1 show ?case
    unfolding step upt by (auto simp: less_Suc_eq_0_disj split: sum.splits)
qed simp

text \<open>
  A round of the dispatcher settles every event it claimed: where \<open>XADD\<close> succeeds the row is
  published with the message id, where it fails the claim is released and the row stays unpublished for
  the next round. The result counts exactly the successes, and the tasks are those the claim committed.
\<close>

theorem dispatch_round:
  assumes inv: "ledger_inv db" and claim: "claim_ready b tok cs lk utc now db = Inr (evs, db1)"
  shows "\<exists>db'. dispatch_ready b tok cs lk utc now env db
      = Inr (length (filter (\<lambda>j. \<exists>m. fst (env j) = Inr m) [0..<length evs]), db') \<and>
    (\<forall>j<length evs. settled (fst (env j)) db' (evs ! j)) \<and> tasks db' = tasks db1"
proof -
  have "held db1 ev" if "ev \<in> set evs" for ev
    using claim_ready_outcome [OF inv claim] that
    by (fastforce simp: claim_visible_def held_def holds_claim_def dest: fetch_key_SomeD)
  then show ?thesis
    using publish_all_settles [OF claim_ready_inv [OF inv claim], of evs env 0]
      claim_ready_outcome [OF inv claim]
    by (simp add: dispatch_ready_def claim) (metis prod.collapse)
qed

theorem dispatch_round_witness:
  "\<exists>n db'. dispatch_ready 100 ''tok'' 30 [] 5 5 (\<lambda>_. (Inr ''1-0'', 6)) pending_db = Inr (n, db') \<and> n = 1"
proof -
  obtain evs db1 where run: "claim_ready 100 ''tok'' 30 [] 5 5 pending_db = Inr (evs, db1)" and "length evs = 1"
    by (simp add: claim_ready_def select_claimable_def claimable_def sample_defs)
  with dispatch_round [OF sample_inv(1) run, of "\<lambda>_. (Inr ''1-0'', 6)"] show ?thesis by auto
qed

end
