(* ===== verification/Replay.thy ===== *)
theory Replay
  imports OutboxProps "HOL-Library.Product_Lexorder"
begin

text \<open>
  \<open>DeadLetterReplayService\<close> of \<open>xingestion/replay.py\<close> and the id list of \<open>task_replay.py\<close>:
  archived failures go back into the ledger as new tasks, with an audit row each, in one transaction.
\<close>

section \<open>Model\<close>

record replay_selector =
  sel_ids :: "int list"
  sel_task_type :: "string option"
  sel_failure_class :: "string option"

record replay_result =
  res_dead_letter_id :: int
  res_generation :: int
  res_task_id :: int

definition opt_str :: "string option \<Rightarrow> pyval" where
  "opt_str s = (case s of None \<Rightarrow> PNone | Some v \<Rightarrow> PStr v)"

definition selector_metadata :: "replay_selector \<Rightarrow> pydict" where
  "selector_metadata s =
     [(''dead_letter_ids'', PList (map PInt (sel_ids s))),
      (''task_type'', opt_str (sel_task_type s)),
      (''failure_class'', opt_str (sel_failure_class s))]"

definition selects :: "replay_selector \<Rightarrow> dead_row \<Rightarrow> bool" where
  "selects s d \<longleftrightarrow> d_replayed_at d = None \<and>
     (sel_ids s = [] \<or> d_id d \<in> set (sel_ids s)) \<and>
     (case sel_task_type s of None \<Rightarrow> True | Some t \<Rightarrow> d_task_type d = t) \<and>
     (case sel_failure_class s of None \<Rightarrow> True | Some c \<Rightarrow> d_failure_class d = Some c)"

definition select_dead :: "replay_selector \<Rightarrow> int \<Rightarrow> int list \<Rightarrow> cdb \<Rightarrow> dead_row list" where
  "select_dead s limit locked db =
     take (nat limit) (filter (\<lambda>d. d_id d \<notin> set locked)
       (sort_key (\<lambda>d. (d_failed_at d, d_id d)) (filter (selects s) (dead_letters db))))"

definition replay_key :: "int \<Rightarrow> int \<Rightarrow> string" where
  "replay_key dead_letter_id generation =
     ''dead-letter:'' @ int_str dead_letter_id @ '':replay:'' @ int_str generation"

text \<open>
  The audit insert: \<open>ON CONFLICT (dead_letter_id, replay_generation) DO NOTHING\<close>; the other unique
  column, \<open>replay_task_id\<close>, still raises.
\<close>

definition insert_replay :: "replay_row \<Rightarrow> cdb \<Rightarrow> exc + cdb" where
  "insert_replay a db =
     (let db1 = db\<lparr>replay_seq := replay_seq db + 1\<rparr>
      in if \<exists>x\<in>set (replays db). r_dead_letter_id x = r_dead_letter_id a \<and> r_generation x = r_generation a
         then Inr db1
         else if r_task_id a \<in> r_task_id ` set (replays db)
         then Inl (DbError ''unique violation: worker_dead_letter_replays.replay_task_id'')
         else Inr (db1\<lparr>replays := replays db @ [a\<lparr>r_id := replay_seq db\<rparr>]\<rparr>))"

definition unreplayed :: "int \<Rightarrow> dead_row \<Rightarrow> bool" where
  "unreplayed i d \<longleftrightarrow> d_id d = i \<and> d_replayed_at d = None"

definition mark_replayed :: "int \<Rightarrow> int \<Rightarrow> time \<Rightarrow> dead_row \<Rightarrow> dead_row" where
  "mark_replayed task_id generation now d =
     d\<lparr>d_replayed_at := Some now, d_replay_task_id := Some task_id, d_replay_generation := generation\<rparr>"

definition replay_one ::
  "pydict \<Rightarrow> int \<Rightarrow> int \<Rightarrow> time \<Rightarrow> dead_row \<Rightarrow> cdb \<Rightarrow> exc + (replay_result \<times> cdb)" where
  "replay_one meta maxa prio now d db =
     (let dead_letter_id = d_id d;
          generation = d_replay_generation d + 1;
          key = replay_key dead_letter_id generation;
          row = new_task (d_task_type d) (d_payload d) maxa now key prio
                  (Some (d_original_task_id d)) (Some dead_letter_id) now
      in if task_by_key db key = None \<and> task_by_id db (d_original_task_id d) = None
         then Inl (DbError ''foreign key violation: worker_tasks.origin_task_id'')
         else
           (let (task, db1) = insert_task row db;
                db2 = insert_event (ready_event (t_id task) (t_generation task) (t_next_run_at task) now) db1
            in case insert_replay \<lparr>r_id = 0, r_dead_letter_id = dead_letter_id, r_generation = generation,
                                   r_task_id = t_id task, r_requested_at = now, r_selector = meta\<rparr> db2 of
                 Inl e \<Rightarrow> Inl e
               | Inr db3 \<Rightarrow>
                   (if count_where (unreplayed dead_letter_id) (dead_letters db3) \<noteq> 1
                    then Inl (RuntimeError (''dead-letter replay ownership changed unexpectedly for dead_letter_id=''
                                @ int_str dead_letter_id))
                    else Inr (\<lparr>res_dead_letter_id = dead_letter_id, res_generation = generation,
                               res_task_id = t_id task\<rparr>,
                              db3\<lparr>dead_letters := update_where (unreplayed dead_letter_id)
                                    (mark_replayed (t_id task) generation now) (dead_letters db3)\<rparr>))))"

fun replay_rows ::
  "pydict \<Rightarrow> int \<Rightarrow> int \<Rightarrow> time \<Rightarrow> dead_row list \<Rightarrow> cdb \<Rightarrow> exc + (replay_result list \<times> cdb)" where
  "replay_rows meta maxa prio now [] db = Inr ([], db)"
| "replay_rows meta maxa prio now (d # ds) db =
     (case replay_one meta maxa prio now d db of
        Inl e \<Rightarrow> Inl e
      | Inr (res, db1) \<Rightarrow>
          (case replay_rows meta maxa prio now ds db1 of
             Inl e \<Rightarrow> Inl e
           | Inr (rest, db2) \<Rightarrow> Inr (res # rest, db2)))"

text \<open>An exception rolls the whole transaction back, so only the result of a success has a database.\<close>

definition replay ::
  "replay_selector option \<Rightarrow> int \<Rightarrow> int \<Rightarrow> int \<Rightarrow> int list \<Rightarrow> time \<Rightarrow> cdb \<Rightarrow> exc + (replay_result list \<times> cdb)" where
  "replay selector limit maxa prio locked now db =
     (if limit \<le> 0 then Inl (ValueError ''limit must be > 0'')
      else if maxa \<le> 0 then Inl (ValueError ''max_attempts must be > 0'')
      else
        (let sel = (case selector of None \<Rightarrow> \<lparr>sel_ids = [], sel_task_type = None, sel_failure_class = None\<rparr>
                    | Some s \<Rightarrow> s)
         in replay_rows (selector_metadata sel) maxa prio now (select_dead sel limit locked db) db))"

section \<open>The key of a replay names its dead letter\<close>

lemma int_str_no_colon: "CHR '':'' \<notin> set (int_str i)"
  by (auto dest!: int_str_chars simp: is_digit_def)

lemma replay_key_inj: "replay_key i g = replay_key j h \<longleftrightarrow> i = j \<and> g = h"
proof
  assume eq: "replay_key i g = replay_key j h"
  then have "int_str i @ CHR '':'' # (''replay:'' @ int_str g) = int_str j @ CHR '':'' # (''replay:'' @ int_str h)"
    by (simp add: replay_key_def)
  from split_at_sep [OF this int_str_no_colon int_str_no_colon]
  show "i = j \<and> g = h" by (simp add: int_str_inj)
qed simp

section \<open>The audit invariant\<close>

definition audit_ok :: "cdb \<Rightarrow> replay_row \<Rightarrow> bool" where
  "audit_ok db a \<longleftrightarrow> r_task_id a < task_seq db \<and>
     (\<forall>t. task_by_id db (r_task_id a) = Some t \<longrightarrow>
        t_idempotency_key t = replay_key (r_dead_letter_id a) (r_generation a)) \<and>
     (\<exists>d. fetch_key d_id (r_dead_letter_id a) (dead_letters db) = Some d \<and>
        r_generation a \<le> d_replay_generation d)"

abbreviation audit_of :: "replay_row \<Rightarrow> int \<times> int" where
  "audit_of a \<equiv> (r_dead_letter_id a, r_generation a)"

definition replay_inv :: "cdb \<Rightarrow> bool" where
  "replay_inv db \<longleftrightarrow> distinct (map audit_of (replays db)) \<and> distinct (map r_task_id (replays db)) \<and>
     (\<forall>a\<in>set (replays db). audit_ok db a)"

text \<open>
  The audit survives whatever keeps the audit rows and the keys of the tasks they name, and does not
  take dead letters back.
\<close>

lemma replay_inv_mono:
  assumes "replay_inv db" and "replays db' = replays db" and "task_seq db \<le> task_seq db'"
    and "\<And>i t. i < task_seq db \<Longrightarrow> task_by_id db' i = Some t \<Longrightarrow>
      \<exists>t0. task_by_id db i = Some t0 \<and> t_idempotency_key t = t_idempotency_key t0"
    and "\<And>i d. fetch_key d_id i (dead_letters db) = Some d \<Longrightarrow>
      \<exists>d'. fetch_key d_id i (dead_letters db') = Some d' \<and> d_replay_generation d \<le> d_replay_generation d'"
  shows "replay_inv db'"
proof -
  have "audit_ok db' a" if a: "audit_ok db a" for a
    unfolding audit_ok_def
  proof (intro conjI allI impI)
    show "r_task_id a < task_seq db'" using a assms(3) by (simp add: audit_ok_def)
    show "t_idempotency_key t = replay_key (r_dead_letter_id a) (r_generation a)"
      if "task_by_id db' (r_task_id a) = Some t" for t
      using assms(4) [OF _ that] a by (auto simp: audit_ok_def)
    from a obtain d where "fetch_key d_id (r_dead_letter_id a) (dead_letters db) = Some d"
      "r_generation a \<le> d_replay_generation d" by (auto simp: audit_ok_def)
    with assms(5) show "\<exists>d. fetch_key d_id (r_dead_letter_id a) (dead_letters db') = Some d \<and>
        r_generation a \<le> d_replay_generation d"
      by (meson order_trans)
  qed
  with assms(1,2) show ?thesis by (simp add: replay_inv_def)
qed

section \<open>Replaying one dead letter\<close>

lemma insert_ready_inv:
  assumes inv: "ledger_inv db" and r: "task_ok (r\<lparr>t_id := task_seq db\<rparr>)" "t_status r = PENDING"
    and ins: "insert_task r db = (t, db1)"
    and db2: "db2 = insert_event (ready_event (t_id t) (t_generation t) (t_next_run_at t) now) db1"
  shows "ledger_inv db2" and "task_by_id db2 (t_id t) = Some t"
    and "t_idempotency_key t = t_idempotency_key r" and "task_seq db2 = task_seq db + 1"
    and "dead_letters db2 = dead_letters db" and "replays db2 = replays db"
    and "\<And>i x. task_by_id db i = Some x \<Longrightarrow> task_by_id db2 i = Some x"
    and "\<And>i x. i < task_seq db \<Longrightarrow> task_by_id db2 i = Some x \<Longrightarrow> task_by_id db i = Some x"
    and "t_id t \<in> t_id ` set (tasks db) \<or> t_id t = task_seq db"
    and "task_by_key db (t_idempotency_key r) = None \<Longrightarrow> t = r\<lparr>t_id := task_seq db\<rparr>"
    and "\<exists>e. outbox_event db2 (t_id t) (t_generation t) = Some e \<and>
      (t_status t \<in> {PENDING, RETRY_SCHEDULED} \<longrightarrow> pristine e)"
proof -
  have main: "ledger_inv db2 \<and> task_by_id db2 (t_id t) = Some t \<and>
      t_idempotency_key t = t_idempotency_key r \<and> task_seq db2 = task_seq db + 1 \<and>
      dead_letters db2 = dead_letters db \<and> replays db2 = replays db \<and>
      (tasks db2 = tasks db \<and> t_id t \<in> t_id ` set (tasks db) \<or>
       tasks db2 = tasks db @ [t] \<and> t_id t = task_seq db) \<and>
      (task_by_key db (t_idempotency_key r) = None \<longrightarrow> t = r\<lparr>t_id := task_seq db\<rparr>)"
  proof (cases rule: insert_task_cases [of r db])
    case (old r0)
    with ins have t: "t = r0" "db1 = db\<lparr>task_seq := task_seq db + 1\<rparr>" by auto
    have inv1: "ledger_inv db1" using inv t by simp
    from old(1) have r0: "r0 \<in> set (tasks db)" "t_idempotency_key r0 = t_idempotency_key r"
      by (auto dest: fetch_key_SomeD)
    with inv t have row: "task_by_id db1 (t_id r0) = Some r0" by (simp add: ledger_task_by_id)
    have "task_linked db1 r0" using inv1 r0 t by (simp add: ledger_inv_def link_inv_def)
    then have "ledger_inv db2"
      unfolding db2 t using inv1 row t
      by (intro ledger_inv_insert_event [where r = r0]) (auto simp: ledger_inv_but_weak task_linked_def)
    with row r0 t old(1) show ?thesis by (simp add: db2)
  next
    case new
    with ins have t: "t = r\<lparr>t_id := task_seq db\<rparr>"
      "db1 = db\<lparr>task_seq := task_seq db + 1, tasks := tasks db @ [t]\<rparr>" by auto
    note made = insert_task_new_inv [OF inv new(1) r(1)]
    have "t_status t = PENDING" "t_generation t = t_generation r" "t_id t = task_seq db" using t r(2) by auto
    then have "ledger_inv db2"
      unfolding db2 using made t
      by (intro ledger_inv_insert_event [where r = t]) simp_all
    with made(2) t show ?thesis by (simp add: db2)
  qed
  then show "ledger_inv db2" "task_by_id db2 (t_id t) = Some t"
    "t_idempotency_key t = t_idempotency_key r" "task_seq db2 = task_seq db + 1"
    "dead_letters db2 = dead_letters db" "replays db2 = replays db"
    "t_id t \<in> t_id ` set (tasks db) \<or> t_id t = task_seq db"
    "task_by_key db (t_idempotency_key r) = None \<Longrightarrow> t = r\<lparr>t_id := task_seq db\<rparr>"
    by auto
  show "task_by_id db2 i = Some x" if "task_by_id db i = Some x" for i x
    using main that by (auto simp: fetch_key_append)
  show "task_by_id db i = Some x" if "i < task_seq db" "task_by_id db2 i = Some x" for i x
    using main that by (auto simp: fetch_key_append split: option.splits)
  have "task_linked db2 t"
    using main by (auto simp: ledger_inv_def link_inv_def dest: fetch_key_SomeD)
  then show "\<exists>e. outbox_event db2 (t_id t) (t_generation t) = Some e \<and>
      (t_status t \<in> {PENDING, RETRY_SCHEDULED} \<longrightarrow> pristine e)"
    by (simp add: task_linked_def)
qed

lemma mark_replayed_fields [simp, row_simps]:
  "d_id (mark_replayed t g now d) = d_id d"
  "d_original_task_id (mark_replayed t g now d) = d_original_task_id d"
  "d_replayed_at (mark_replayed t g now d) = Some now"
  "d_replay_task_id (mark_replayed t g now d) = Some t"
  "d_replay_generation (mark_replayed t g now d) = g"
  by (simp_all add: mark_replayed_def)

lemma ledger_inv_audit:
  assumes inv: "ledger_inv db"
  shows "ledger_inv (db\<lparr>replay_seq := n, replays := rs,
    dead_letters := update_where P (mark_replayed t g now) (dead_letters db)\<rparr>)" (is "ledger_inv ?db")
proof -
  have same: "event_linked ?db e = event_linked db e" "task_linked ?db r = task_linked db r"
    "dead_linked ?db d = (\<exists>r. task_by_id db (d_original_task_id d) = Some r \<and> t_status r = DEAD_LETTER)"
    for e r d by (simp_all add: event_linked_def task_linked_def dead_linked_def)
  have "map d_id (update_where P (mark_replayed t g now) (dead_letters db)) = map d_id (dead_letters db)"
    by (simp add: map_update_where)
  with inv have "dead_inv ?db"
    by (auto simp: ledger_inv_def dead_inv_def ball_update_where same dead_linked_def)
  with inv show ?thesis
    by (simp add: ledger_inv_def tasks_inv_def outbox_inv_def link_inv_def same)
qed

text \<open>What one replay does, under the two invariants: it succeeds.\<close>

definition replayed_as :: "dead_row \<Rightarrow> replay_result \<Rightarrow> time \<Rightarrow> cdb \<Rightarrow> cdb \<Rightarrow> bool" where
  "replayed_as d res now db db' \<longleftrightarrow>
     res_dead_letter_id res = d_id d \<and> res_generation res = d_replay_generation d + 1 \<and>
     dead_letters db' = update_where (\<lambda>x. d_id x = d_id d)
       (mark_replayed (res_task_id res) (res_generation res) now) (dead_letters db) \<and>
     (\<exists>a. replays db' = replays db @ [a] \<and> audit_of a = (d_id d, res_generation res) \<and>
          r_task_id a = res_task_id res) \<and>
     (\<forall>i x. task_by_id db i = Some x \<longrightarrow> task_by_id db' i = Some x) \<and>
     (\<exists>t e. task_by_id db' (res_task_id res) = Some t \<and>
        t_idempotency_key t = replay_key (d_id d) (res_generation res) \<and>
        outbox_event db' (t_id t) (t_generation t) = Some e \<and>
        (task_by_key db (replay_key (d_id d) (res_generation res)) = None \<longrightarrow>
           t_status t = PENDING \<and> t_generation t = 0 \<and> t_attempts t = 0 \<and> pristine e \<and>
           t_payload t = d_payload d \<and> t_task_type t = d_task_type d \<and>
           t_origin_task_id t = Some (d_original_task_id d) \<and> t_replay_of t = Some (d_id d)))"

lemma replay_one_ok:
  assumes inv: "ledger_inv db" and audit: "replay_inv db"
    and d: "d \<in> set (dead_letters db)" "d_replayed_at d = None" and maxa: "0 < maxa"
  shows "\<exists>res db'. replay_one meta maxa prio now d db = Inr (res, db') \<and>
    ledger_inv db' \<and> replay_inv db' \<and> replayed_as d res now db db'"
proof -
  define g where "g = d_replay_generation d + 1"
  define row where "row = new_task (d_task_type d) (d_payload d) maxa now (replay_key (d_id d) g) prio
      (Some (d_original_task_id d)) (Some (d_id d)) now"
  obtain t db1 where ins: "insert_task row db = (t, db1)" by (cases "insert_task row db")
  define db2 where "db2 = insert_event (ready_event (t_id t) (t_generation t) (t_next_run_at t) now) db1"
  define a where "a = \<lparr>r_id = replay_seq db2, r_dead_letter_id = d_id d, r_generation = g,
      r_task_id = t_id t, r_requested_at = now, r_selector = meta\<rparr>"
  define db' where "db' = db2\<lparr>replay_seq := replay_seq db2 + 1, replays := replays db @ [a],
      dead_letters := update_where (\<lambda>x. d_id x = d_id d) (mark_replayed (t_id t) g now) (dead_letters db)\<rparr>"
  have row: "task_ok (row\<lparr>t_id := n\<rparr>)" "t_status row = PENDING" "t_idempotency_key row = replay_key (d_id d) g" for n
    using maxa by (simp_all add: row_def)
  note made = insert_ready_inv [OF inv row(1,2) ins db2_def]
  have ids: "distinct (map d_id (dead_letters db))" using inv by (simp add: ledger_inv_defs)
  have fd: "fetch_key d_id (d_id d) (dead_letters db) = Some d" using ids d(1) by (rule fetch_key_unique)
  have auds: "audit_ok db x" if "x \<in> set (replays db)" for x
    using audit that by (simp add: replay_inv_def)
  have fresh: "audit_of x \<noteq> (d_id d, g)" if "x \<in> set (replays db)" for x
    using auds [OF that] fd by (auto simp: audit_ok_def g_def)
  have task: "t_id t \<notin> r_task_id ` set (replays db)"
  proof
    assume "t_id t \<in> r_task_id ` set (replays db)"
    then obtain x where x: "x \<in> set (replays db)" "t_id t = r_task_id x" by auto
    with auds [OF x(1)] have "t_id t < task_seq db" by (simp add: audit_ok_def)
    then have "task_by_id db (t_id t) = Some t" using made(2,8) by blast
    with auds [OF x(1)] x(2) made(3) row(3) have "audit_of x = (d_id d, g)"
      by (simp add: audit_ok_def replay_key_inj)
    with fresh [OF x(1)] show False ..
  qed
  have "dead_linked db d" using inv d(1) by (simp add: ledger_inv_defs)
  then have fk: "task_by_id db (d_original_task_id d) \<noteq> None" by (auto simp: dead_linked_def)
  have same: "unreplayed (d_id d) x = (d_id x = d_id d)" if "x \<in> set (dead_letters db)" for x
    using that ids d by (auto simp: unreplayed_def dest: same_key_eq)
  have one: "count_where (unreplayed (d_id d)) (dead_letters db) = 1"
    using ids fd d(2) by (subst count_where_key_1 [where key = d_id and k = "d_id d"]) (auto simp: unreplayed_def)
  have mark: "update_where (unreplayed (d_id d)) f (dead_letters db)
      = update_where (\<lambda>x. d_id x = d_id d) f (dead_letters db)" for f
    using same by (rule update_where_cong)
  have nodup: "\<not> (\<exists>x\<in>set (replays db2). r_dead_letter_id x = d_id d \<and> r_generation x = g)"
    using fresh made(6) by auto
  have before: "replays db1 = replays db" "dead_letters db1 = dead_letters db"
    using made(5,6) by (simp_all add: db2_def)
  have run: "replay_one meta maxa prio now d db
      = Inr (\<lparr>res_dead_letter_id = d_id d, res_generation = g, res_task_id = t_id t\<rparr>, db')"
    using fk ins task one nodup made(5,6) before
    by (auto simp: replay_one_def Let_def g_def [symmetric] row_def [symmetric] db2_def [symmetric]
        insert_replay_def mark db'_def a_def)
  have inv': "ledger_inv db'" unfolding db'_def using ledger_inv_audit [OF made(1)] made(5) by simp
  have dl: "fetch_key d_id i (dead_letters db')
      = map_option (\<lambda>x. if d_id x = d_id d then mark_replayed (t_id t) g now x else x) (fetch_key d_id i (dead_letters db))" for i
    by (simp add: db'_def fetch_key_update_where)
  have old: "audit_ok db' x" if x: "x \<in> set (replays db)" for x
    unfolding audit_ok_def
  proof (intro conjI allI impI)
    show "r_task_id x < task_seq db'" using auds [OF x] made(4) by (simp add: audit_ok_def db'_def)
    show "t_idempotency_key y = replay_key (r_dead_letter_id x) (r_generation x)"
      if "task_by_id db' (r_task_id x) = Some y" for y
    proof -
      have small: "r_task_id x < task_seq db" using auds [OF x] by (simp add: audit_ok_def)
      from that have "task_by_id db2 (r_task_id x) = Some y" by (simp add: db'_def)
      with made(8) [OF small] auds [OF x] show ?thesis by (simp add: audit_ok_def)
    qed
    from auds [OF x] obtain y where "fetch_key d_id (r_dead_letter_id x) (dead_letters db) = Some y"
      "r_generation x \<le> d_replay_generation y" by (auto simp: audit_ok_def)
    moreover from this have "y = d \<or> d_id y \<noteq> d_id d"
      using d(1) ids by (auto dest: fetch_key_SomeD same_key_eq)
    ultimately show "\<exists>y. fetch_key d_id (r_dead_letter_id x) (dead_letters db') = Some y \<and>
        r_generation x \<le> d_replay_generation y"
      by (auto simp: dl g_def)
  qed
  have "t_id t < task_seq db2"
    using inv made(4,9) by (auto simp: ledger_inv_defs)
  then have "audit_ok db' a"
    using made(2,3) fd row(3) by (auto simp: audit_ok_def a_def dl) (simp_all add: db'_def)
  moreover have "(d_id d, g) \<notin> audit_of ` set (replays db)" using fresh by force
  moreover have "replays db' = replays db @ [a]" "audit_of a = (d_id d, g)" "r_task_id a = t_id t"
    by (simp_all add: db'_def a_def)
  ultimately have "replay_inv db'"
    using old task audit by (auto simp: replay_inv_def)
  moreover have "replayed_as d \<lparr>res_dead_letter_id = d_id d, res_generation = g, res_task_id = t_id t\<rparr> now db db'"
  proof -
    have same: "tasks db' = tasks db2" "outbox db' = outbox db2" by (simp_all add: db'_def)
    obtain e where e: "outbox_event db2 (t_id t) (t_generation t) = Some e"
      "t_status t \<in> {PENDING, RETRY_SCHEDULED} \<longrightarrow> pristine e" using made(11) by blast
    have fields: "t_status x = PENDING \<and> t_generation x = 0 \<and> t_attempts x = 0 \<and>
        t_payload x = d_payload d \<and> t_task_type x = d_task_type d \<and>
        t_origin_task_id x = Some (d_original_task_id d) \<and> t_replay_of x = Some (d_id d)"
      if "x = row\<lparr>t_id := task_seq db\<rparr>" for x
      by (simp add: that row_def new_task_def)
    have new: "t_status t = PENDING \<and> t_generation t = 0 \<and> t_attempts t = 0 \<and> pristine e \<and>
        t_payload t = d_payload d \<and> t_task_type t = d_task_type d \<and>
        t_origin_task_id t = Some (d_original_task_id d) \<and> t_replay_of t = Some (d_id d)"
      if "task_by_key db (replay_key (d_id d) g) = None"
      using fields [OF made(10)] that e(2) row(3) by simp
    show ?thesis
      unfolding replayed_as_def replay_result.simps same
      using made(2,3,7) row(3) e(1) new
      by (intro conjI exI [of _ a] exI [of _ t] exI [of _ e]) (simp_all add: g_def db'_def a_def)
  qed
  ultimately show ?thesis using run inv' by blast
qed

section \<open>The replay service\<close>

lemma select_dead_props:
  "set (select_dead s limit lk db) \<subseteq> {d \<in> set (dead_letters db). selects s d \<and> d_id d \<notin> set lk}"
  "length (select_dead s limit lk db) \<le> nat limit"
  by (auto simp: select_dead_def dest!: in_set_takeD)

lemma select_dead_distinct:
  assumes "distinct (map d_id (dead_letters db))"
  shows "distinct (map d_id (select_dead s limit lk db))"
proof -
  have "distinct (map d_id (filter (selects s) (dead_letters db)))"
    using assms by (rule distinct_map_filter)
  then have "distinct (map d_id (filter (\<lambda>d. d_id d \<notin> set lk)
      (sort_key (\<lambda>d. (d_failed_at d, d_id d)) (filter (selects s) (dead_letters db)))))"
    by (intro distinct_map_filter) (simp add: distinct_map)
  then show ?thesis
    unfolding select_dead_def take_map [symmetric] by (rule distinct_take)
qed

definition replay_done :: "dead_row \<Rightarrow> replay_result \<Rightarrow> time \<Rightarrow> cdb \<Rightarrow> bool" where
  "replay_done d res now db \<longleftrightarrow>
     res_dead_letter_id res = d_id d \<and>
     fetch_key d_id (d_id d) (dead_letters db)
       = Some (mark_replayed (res_task_id res) (res_generation res) now d) \<and>
     (\<exists>a\<in>set (replays db). audit_of a = (d_id d, res_generation res) \<and> r_task_id a = res_task_id res) \<and>
     (\<exists>t. task_by_id db (res_task_id res) = Some t \<and>
        t_idempotency_key t = replay_key (d_id d) (res_generation res))"

lemma replay_rows_ok:
  assumes "ledger_inv db" and "replay_inv db" and "distinct (map d_id ds)" and "0 < maxa"
    and "\<forall>d\<in>set ds. d \<in> set (dead_letters db) \<and> d_replayed_at d = None"
  shows "\<exists>rs db'. replay_rows meta maxa prio now ds db = Inr (rs, db') \<and> ledger_inv db' \<and> replay_inv db' \<and>
    list_all2 (\<lambda>d res. replay_done d res now db') ds rs \<and>
    length (replays db') = length (replays db) + length ds \<and>
    (\<forall>a\<in>set (replays db). a \<in> set (replays db')) \<and>
    (\<forall>i x. task_by_id db i = Some x \<longrightarrow> task_by_id db' i = Some x) \<and>
    (\<forall>i. i \<notin> d_id ` set ds \<longrightarrow> fetch_key d_id i (dead_letters db') = fetch_key d_id i (dead_letters db))"
  using assms
proof (induction ds arbitrary: db)
  case (Cons d ds)
  then obtain res db1 where one: "replay_one meta maxa prio now d db = Inr (res, db1)"
    and inv1: "ledger_inv db1" "replay_inv db1" and as: "replayed_as d res now db db1"
    using replay_one_ok [of db d maxa meta prio now] by auto
  have dl: "dead_letters db1 = update_where (\<lambda>x. d_id x = d_id d)
      (mark_replayed (res_task_id res) (res_generation res) now) (dead_letters db)"
    using as by (simp add: replayed_as_def)
  then have look: "fetch_key d_id i (dead_letters db1) = map_option (\<lambda>x. if d_id x = d_id d
      then mark_replayed (res_task_id res) (res_generation res) now x else x) (fetch_key d_id i (dead_letters db))" for i
    by (simp add: fetch_key_update_where)
  have ids: "distinct (map d_id (dead_letters db))" using Cons.prems(1) by (simp add: ledger_inv_defs)
  then have fd: "fetch_key d_id (d_id d) (dead_letters db) = Some d"
    using Cons.prems(5) by (simp add: fetch_key_unique)
  have "x \<in> set (dead_letters db1)" if "x \<in> set ds" for x
  proof -
    from that Cons.prems have "x \<in> set (dead_letters db)" "d_id x \<noteq> d_id d" by (auto simp: image_iff)
    then show ?thesis by (force simp: dl set_update_where)
  qed
  then have "\<exists>rs db'. replay_rows meta maxa prio now ds db1 = Inr (rs, db') \<and> ledger_inv db' \<and> replay_inv db' \<and>
    list_all2 (\<lambda>d res. replay_done d res now db') ds rs \<and>
    length (replays db') = length (replays db1) + length ds \<and>
    (\<forall>a\<in>set (replays db1). a \<in> set (replays db')) \<and>
    (\<forall>i x. task_by_id db1 i = Some x \<longrightarrow> task_by_id db' i = Some x) \<and>
    (\<forall>i. i \<notin> d_id ` set ds \<longrightarrow> fetch_key d_id i (dead_letters db') = fetch_key d_id i (dead_letters db1))"
    using Cons.prems inv1 by (intro Cons.IH) auto
  then obtain rs db' where rest: "replay_rows meta maxa prio now ds db1 = Inr (rs, db')"
    "ledger_inv db'" "replay_inv db'" "list_all2 (\<lambda>d res. replay_done d res now db') ds rs"
    "length (replays db') = length (replays db1) + length ds"
    "\<forall>a\<in>set (replays db1). a \<in> set (replays db')"
    "\<And>i x. task_by_id db1 i = Some x \<Longrightarrow> task_by_id db' i = Some x"
    "\<And>i. i \<notin> d_id ` set ds \<Longrightarrow> fetch_key d_id i (dead_letters db') = fetch_key d_id i (dead_letters db1)"
    by blast
  have "d_id d \<notin> d_id ` set ds" using Cons.prems(3) by simp
  then have row: "fetch_key d_id (d_id d) (dead_letters db')
      = Some (mark_replayed (res_task_id res) (res_generation res) now d)"
    using rest(8) [of "d_id d"] look fd by simp
  moreover obtain a where a: "replays db1 = replays db @ [a]" "audit_of a = (d_id d, res_generation res)"
    "r_task_id a = res_task_id res"
    using as by (auto simp: replayed_as_def)
  moreover obtain t where "task_by_id db1 (res_task_id res) = Some t"
    "t_idempotency_key t = replay_key (d_id d) (res_generation res)"
    using as by (auto simp: replayed_as_def)
  moreover have "a \<in> set (replays db')" using rest(6) a(1) by simp
  ultimately have "replay_done d res now db'"
    unfolding replay_done_def using as rest(7) [of "res_task_id res"]
    by (auto simp: replayed_as_def)
  moreover have "fetch_key d_id i (dead_letters db1) = fetch_key d_id i (dead_letters db)" if "i \<noteq> d_id d" for i
    using that by (auto simp: look dest: fetch_key_SomeD split: option.splits intro!: option.map_ident_strong)
  moreover have "\<forall>i x. task_by_id db i = Some x \<longrightarrow> task_by_id db' i = Some x"
    using as rest(7) by (auto simp: replayed_as_def)
  ultimately show ?case using one rest a(1) by auto
qed auto

lemma replay_outcome:
  assumes inv: "ledger_inv db" "replay_inv db" and args: "0 < limit" "0 < maxa"
  shows "\<exists>rs db'. replay (Some sel) limit maxa prio lk now db = Inr (rs, db') \<and>
    ledger_inv db' \<and> replay_inv db' \<and> int (length rs) \<le> limit \<and>
    (\<forall>d\<in>set (select_dead sel limit lk db). selects sel d \<and> d_replayed_at d = None) \<and>
    list_all2 (\<lambda>d res. replay_done d res now db') (select_dead sel limit lk db) rs \<and>
    length (replays db') = length (replays db) + length rs \<and>
    (\<forall>i x. task_by_id db i = Some x \<longrightarrow> task_by_id db' i = Some x)"
proof -
  let ?ds = "select_dead sel limit lk db"
  have ids: "distinct (map d_id (dead_letters db))" using inv(1) by (simp add: ledger_inv_defs)
  have ds: "\<forall>d\<in>set ?ds. d \<in> set (dead_letters db) \<and> selects sel d \<and> d_replayed_at d = None"
    using select_dead_props(1) [of sel limit lk db] by (auto simp: selects_def)
  obtain rs db' where r: "replay_rows (selector_metadata sel) maxa prio now ?ds db = Inr (rs, db')"
    "ledger_inv db'" "replay_inv db'" "list_all2 (\<lambda>d res. replay_done d res now db') ?ds rs"
    "length (replays db') = length (replays db) + length ?ds"
    "\<forall>i x. task_by_id db i = Some x \<longrightarrow> task_by_id db' i = Some x"
    using replay_rows_ok [OF inv select_dead_distinct [OF ids] args(2)] ds by blast
  have "length rs = length ?ds" using r(4) by (simp add: list_all2_lengthD)
  moreover from this have "int (length rs) \<le> limit"
    using select_dead_props(2) [of sel limit lk db] args(1) by simp
  ultimately show ?thesis using r args ds by (auto simp: replay_def)
qed

text \<open>
  C29: Replay of dead letters: with a positive limit and attempt budget the service never fails. It takes
  at most the limit, each once; each dead letter taken was not replayed before and matches the selector,
  and is now marked replayed by the task named in its result, which carries the replay's idempotency key,
  with one new audit row. No existing task changes, and the ledger and the audit stay well formed.
\<close>

theorem replay_succeeds:
  assumes inv: "ledger_inv db" "replay_inv db" and args: "0 < limit" "0 < maxa"
  shows "\<exists>rs db'. replay (Some sel) limit maxa prio lk now db = Inr (rs, db') \<and>
    ledger_inv db' \<and> replay_inv db' \<and> int (length rs) \<le> limit \<and>
    (\<forall>d\<in>set (select_dead sel limit lk db). selects sel d \<and> d_replayed_at d = None) \<and>
    list_all2 (\<lambda>d res. replay_done d res now db') (select_dead sel limit lk db) rs \<and>
    length (replays db') = length (replays db) + length rs \<and>
    (\<forall>i x. task_by_id db i = Some x \<longrightarrow> task_by_id db' i = Some x)"
  by (rule replay_outcome [OF inv args])

definition dead_db :: cdb where
  "dead_db = snd (dead_letter_task running_lease ''boom'' ''permanent_task_failure'' 21 running_db)"

lemma dead_db_inv: "ledger_inv dead_db" "replay_inv dead_db"
proof -
  show "ledger_inv dead_db" unfolding dead_db_def by (rule dead_letter_task_inv [OF sample_inv(3)])
  have "replays dead_db = []"
    by (simp add: dead_db_def dead_letter_task_def Let_def sample_defs owns_def)
  then show "replay_inv dead_db" by (simp add: replay_inv_def)
qed

definition any_selector :: replay_selector where
  "any_selector = \<lparr>sel_ids = [], sel_task_type = None, sel_failure_class = None\<rparr>"

theorem replay_succeeds_witness:
  "\<exists>rs db'. replay (Some any_selector) 100 5 50 [] 30 dead_db = Inr (rs, db') \<and>
    length rs = 1 \<and> length (replays db') = 1"
proof -
  obtain rs db' where r: "replay (Some any_selector) 100 5 50 [] 30 dead_db = Inr (rs, db')"
    "list_all2 (\<lambda>d res. replay_done d res 30 db') (select_dead any_selector 100 [] dead_db) rs"
    "length (replays db') = length (replays dead_db) + length rs"
    using replay_succeeds [OF dead_db_inv, of 100 5 any_selector 50 "[]" 30] by auto
  moreover have "length (select_dead any_selector 100 [] dead_db) = 1" "replays dead_db = []"
    by (simp_all add: dead_db_def dead_letter_task_def Let_def sample_defs owns_def select_dead_def
        selects_def any_selector_def dead_letter_of_def mark_dead_def)
  ultimately show ?thesis by (auto dest: list_all2_lengthD)
qed

section \<open>Replayed rows\<close>

abbreviation archived :: "cdb \<Rightarrow> int \<Rightarrow> dead_row option" where
  "archived db i \<equiv> fetch_key d_id i (dead_letters db)"

text \<open>A run takes distinct dead letters that were not replayed, marks them, and leaves the replayed ones alone.\<close>

lemma replay_marks:
  assumes inv: "ledger_inv db" "replay_inv db" and run: "replay sel limit maxa prio lk now db = Inr (rs, db')"
  shows "distinct (map res_dead_letter_id rs)"
    and "x \<in> set rs \<Longrightarrow> \<exists>d. archived db (res_dead_letter_id x) = Some d \<and> d_replayed_at d = None"
    and "x \<in> set rs \<Longrightarrow> \<exists>d. archived db' (res_dead_letter_id x) = Some d \<and> d_replayed_at d = Some now \<and>
      d_replay_task_id d = Some (res_task_id x)"
    and "archived db i = Some d \<Longrightarrow> d_replayed_at d \<noteq> None \<Longrightarrow> archived db' i = Some d"
proof -
  define sl where "sl = (case sel of None \<Rightarrow> \<lparr>sel_ids = [], sel_task_type = None, sel_failure_class = None\<rparr> | Some s \<Rightarrow> s)"
  let ?ds = "select_dead sl limit lk db"
  have maxa: "0 < maxa" and rows: "replay_rows (selector_metadata sl) maxa prio now ?ds db = Inr (rs, db')"
    using run by (auto simp: replay_def Let_def sl_def split: if_splits)
  have ids: "distinct (map d_id (dead_letters db))" using inv(1) by (simp add: ledger_inv_defs)
  have ds: "d \<in> set (dead_letters db)" "d_replayed_at d = None" if "d \<in> set ?ds" for d
    using that select_dead_props(1) [of sl limit lk db] by (auto simp: selects_def)
  have dist: "distinct (map d_id ?ds)" by (rule select_dead_distinct [OF ids])
  have all2: "list_all2 (\<lambda>d res. replay_done d res now db') ?ds rs"
    and rest: "\<And>i. i \<notin> d_id ` set ?ds \<Longrightarrow> archived db' i = archived db i"
    using replay_rows_ok [OF inv dist maxa, of "selector_metadata sl" prio now] ds rows by auto
  have "list_all2 (\<lambda>d res. d_id d = res_dead_letter_id res) ?ds rs"
    using all2 by (rule list_all2_mono) (simp add: replay_done_def)
  then have "map res_dead_letter_id rs = map d_id ?ds" by (induction rule: list_all2_induct) auto
  with dist show "distinct (map res_dead_letter_id rs)" by simp
  have took: "\<exists>d\<in>set ?ds. replay_done d x now db'" if "x \<in> set rs" for x
    using all2 that by (auto simp: list_all2_conv_all_nth in_set_conv_nth) (metis nth_mem)
  show "\<exists>d. archived db (res_dead_letter_id x) = Some d \<and> d_replayed_at d = None" if x: "x \<in> set rs"
    using took [OF x] ds fetch_key_unique [OF ids] by (metis replay_done_def)
  show "\<exists>d. archived db' (res_dead_letter_id x) = Some d \<and> d_replayed_at d = Some now \<and>
      d_replay_task_id d = Some (res_task_id x)" if x: "x \<in> set rs"
    using took [OF x] by (auto simp: replay_done_def)
  show "archived db' i = Some d" if d: "archived db i = Some d" "d_replayed_at d \<noteq> None"
  proof -
    have "i \<notin> d_id ` set ?ds" using d ds fetch_key_unique [OF ids] by (metis image_iff option.inject)
    with rest d(1) show ?thesis by simp
  qed
qed

end
