(* ===== verification/Worker.thy ===== *)
theory Worker
  imports Replay
begin

text \<open>
  The worker of \<open>worker.py\<close>: what becomes of a delivery. \<open>handle_delivery\<close> leases the task,
  runs the collection under the lease guard, and settles the outcome in the ledger before it
  acknowledges the Redis message. The collection itself is the theory \<open>Collector\<close>, here it is what
  the guarded run returns. The failure classes are those of \<open>xingestion/collectors/base.py\<close>.
\<close>

section \<open>Failure classes\<close>

fun failure_class :: "coll_kind \<Rightarrow> string" where
  "failure_class CollectionErrorBase = ''collection_error''"
| "failure_class AuthenticationFailure = ''authentication_failure''"
| "failure_class RateLimited = ''rate_limited''"
| "failure_class TransientNetworkFailure = ''transient_network_failure''"
| "failure_class CollectorChanged = ''collector_changed''"
| "failure_class PermanentTaskFailure = ''permanent_task_failure''"

definition retryable :: "coll_kind \<Rightarrow> bool" where
  "retryable k \<longleftrightarrow> k \<noteq> PermanentTaskFailure"

definition session_fault :: "coll_kind \<Rightarrow> bool" where
  "session_fault k \<longleftrightarrow> k \<in> {AuthenticationFailure, RateLimited}"

text \<open>The three things \<open>transition_failure\<close> reads off an exception.\<close>

definition classify :: "exc \<Rightarrow> string \<times> bool \<times> rat option" where
  "classify err =
     (case err of Collection k _ retry_after \<Rightarrow> (failure_class k, retryable k, retry_after)
      | _ \<Rightarrow> (''unexpected_error'', True, None))"

section \<open>Backoff\<close>

text \<open>
  \<open>min(300.0, 1.0 * (2 ** max(0, attempt))) + jitter\<close>. The integer power is converted to a float for
  the product, which raises \<open>OverflowError\<close> from \<open>2 ** 1024\<close> on; the smaller powers of two are exact.
  \<open>jitter\<close> is what the sum adds to its first term: the draw of \<open>random.uniform(0.0, 0.25)\<close>, up to the
  rounding of the sum.
\<close>

definition backoff_delay_seconds :: "int \<Rightarrow> rat \<Rightarrow> exc + rat" where
  "backoff_delay_seconds attempt jitter =
     (if 1024 \<le> attempt then Inl (OverflowError ''int too large to convert to float'')
      else Inr (min 300 (2 ^ nat (max 0 attempt)) + jitter))"

section \<open>transition\_failure\<close>

definition failure_text :: "string \<Rightarrow> exc \<Rightarrow> string" where
  "failure_text cls err = cls @ '':'' @ exc_str err"

definition transition_failure ::
  "task_lease \<Rightarrow> exc \<Rightarrow> rat \<Rightarrow> time \<Rightarrow> time \<Rightarrow> cdb \<Rightarrow> (exc + bool) \<times> cdb" where
  "transition_failure task err jitter utc now db =
     (let (cls, may_retry, retry_after) = classify err;
          error_message = failure_text cls err;
          exhausted = l_attempts task + 1 \<ge> l_max_attempts task
      in if \<not> may_retry \<or> exhausted
         then map_prod Inr id (dead_letter_task task error_message cls now db)
         else
           (case (case retry_after of Some s \<Rightarrow> Inr s
                  | None \<Rightarrow> backoff_delay_seconds (l_attempts task) jitter) of
              Inl e \<Rightarrow> (Inl e, db)
            | Inr delay \<Rightarrow>
                map_prod Inr id (schedule_retry task error_message delay cls utc now db)))"

section \<open>handle\_delivery\<close>

text \<open>
  The surroundings of one call: the database times of its statements and the worker's clock, the
  jitter, the commits of other processes between two of its statements, and the exceptions of the
  completing statement (which then has no effect) and of the two \<open>XACK\<close> calls.
\<close>

record handle_env =
  e_lease_now :: time
  e_check :: "cdb \<Rightarrow> cdb"
  e_before :: "cdb \<Rightarrow> cdb"
  e_utc :: time
  e_now :: time
  e_jitter :: rat
  e_complete :: "exc option"
  e_ack :: "exc option"
  e_ack_failed :: "exc option"

text \<open>The end of a call: the database, whether the message was acknowledged, the exception it raised.\<close>

record handled =
  h_db :: cdb
  h_acked :: bool
  h_raised :: "exc option"

definition ack_message :: "exc option \<Rightarrow> cdb \<Rightarrow> handled" where
  "ack_message failure db = \<lparr>h_db = db, h_acked = (failure = None), h_raised = failure\<rparr>"

definition no_ack :: "exc option \<Rightarrow> cdb \<Rightarrow> handled" where
  "no_ack raised db = \<lparr>h_db = db, h_acked = False, h_raised = raised\<rparr>"

text \<open>The three \<open>except\<close> clauses.\<close>

definition handle_failure :: "task_lease \<Rightarrow> handle_env \<Rightarrow> exc \<Rightarrow> cdb \<Rightarrow> handled" where
  "handle_failure task env err db =
     (case err of
        TaskLeaseLost _ \<Rightarrow> no_ack None db
      | CancelledError \<Rightarrow>
          no_ack (Some CancelledError) (snd (release_for_recovery task (e_now env) db))
      | _ \<Rightarrow>
          (case transition_failure task err (e_jitter env) (e_utc env) (e_now env) db of
             (Inl e, db1) \<Rightarrow> no_ack (Some e) db1
           | (Inr transitioned, db1) \<Rightarrow>
               (if transitioned then ack_message (e_ack_failed env) db1 else no_ack None db1)))"

definition dict_set :: "string \<Rightarrow> pyval \<Rightarrow> pydict \<Rightarrow> pydict" where
  "dict_set k v d =
     (if map_of d k = None then d @ [(k, v)]
      else map (\<lambda>(k', v'). if k' = k then (k', v) else (k', v')) d)"

definition result_metadata :: "pydict \<Rightarrow> nat \<Rightarrow> nat \<Rightarrow> pydict" where
  "result_metadata collection_metadata stored rejected =
     dict_set ''items_rejected'' (PInt (int rejected))
       (dict_set ''items_stored'' (PInt (int stored)) collection_metadata)"

definition handle_success ::
  "task_lease \<Rightarrow> handle_env \<Rightarrow> pydict \<times> nat \<times> nat \<Rightarrow> cdb \<Rightarrow> handled" where
  "handle_success task env result db =
     (case e_complete env of
        Some e \<Rightarrow> handle_failure task env e db
      | None \<Rightarrow>
          (let (meta, stored, rejected) = result;
               (completed, db1) =
                 complete_task task (Some (result_metadata meta stored rejected)) (e_now env) db
           in if \<not> completed then no_ack None db1
              else (case e_ack env of None \<Rightarrow> ack_message None db1
                    | Some e \<Rightarrow> handle_failure task env e db1)))"

text \<open>
  \<open>None\<close> means that the guarded run is still waiting when its events end. The guard is built outside
  the \<open>try\<close>, so its \<open>ValueError\<close> leaves the task leased.
\<close>

definition handle_delivery ::
  "delivery \<Rightarrow> string \<Rightarrow> int \<Rightarrow> pyfloat \<Rightarrow> (pydict \<times> nat \<times> nat) guard_event list \<Rightarrow>
    handle_env \<Rightarrow> cdb \<Rightarrow> handled option" where
  "handle_delivery m worker_id lease_seconds heartbeat_seconds events env db =
     (case lease_task (m_task_id m) (m_generation m) worker_id lease_seconds (e_lease_now env) db of
        (None, db1) \<Rightarrow>
          (let db2 = e_check env db1
           in Some (if is_terminal_or_stale (m_task_id m) (m_generation m) db2
                    then ack_message (e_ack env) db2 else no_ack None db2))
      | (Some task, db1) \<Rightarrow>
          (case guard_init lease_seconds heartbeat_seconds of
             Inl e \<Rightarrow> Some (no_ack (Some e) db1)
           | Inr _ \<Rightarrow>
               (case run_guarded task m lease_seconds events db1 of
                  None \<Rightarrow> None
                | Some (res, db2) \<Rightarrow>
                    (let db3 = e_before env db2
                     in Some (case res of Inr result \<Rightarrow> handle_success task env result db3
                              | Inl err \<Rightarrow> handle_failure task env err db3)))))"

text \<open>
  \<open>worker_loop\<close> takes a new message, or one idle for long enough that another consumer left unacknowledged,
  handles it, and survives every exception but a cancellation.
\<close>

definition next_delivery :: "delivery list \<Rightarrow> delivery list \<Rightarrow> delivery option" where
  "next_delivery new reclaimed =
     (case new of d # _ \<Rightarrow> Some d
      | [] \<Rightarrow> (case reclaimed of d # _ \<Rightarrow> Some d | [] \<Rightarrow> None))"

definition loop_goes_on :: "handled \<Rightarrow> bool" where
  "loop_goes_on h \<longleftrightarrow> h_raised h \<noteq> Some CancelledError"

section \<open>db\_cleanup: deleting finished tasks\<close>

text \<open>
  \<open>DELETE FROM worker_tasks WHERE status = 'DONE' AND leased_at IS NULL\<close>, with the referential actions of
  the schema: outbox rows go with their task, \<open>origin_task_id\<close> becomes NULL.
\<close>

definition purgeable :: "task_row \<Rightarrow> bool" where
  "purgeable r \<longleftrightarrow> t_status r = DONE \<and> t_leased_at r = None"

definition purge_done :: "cdb \<Rightarrow> nat \<times> cdb" where
  "purge_done db =
     (let gone = map t_id (filter purgeable (tasks db))
      in (length gone,
          db\<lparr>tasks := update_where (\<lambda>r. \<exists>i\<in>set gone. t_origin_task_id r = Some i) (\<lambda>r. r\<lparr>t_origin_task_id := None\<rparr>)
                        (delete_where purgeable (tasks db)),
             outbox := delete_where (\<lambda>e. o_task_id e \<in> set gone) (outbox db)\<rparr>))"

end
