(* ===== verification/WorkerProps.thy ===== *)
theory WorkerProps
  imports Worker
begin

text \<open>
  What a delivery leads to: how failures are sorted, that nothing is acknowledged before the ledger
  has settled it, and that a delivery which comes late or twice is harmless.
\<close>

section \<open>Failures\<close>

abbreviation exhausted :: "task_lease \<Rightarrow> bool" where
  "exhausted L \<equiv> l_max_attempts L \<le> l_attempts L + 1"

lemma transition_failure_cases:
  obtains (bury) "\<not> fst (snd (classify err)) \<or> exhausted L"
      "transition_failure L err jit utc now db
        = map_prod Inr id (dead_letter_task L (failure_text (fst (classify err)) err) (fst (classify err)) now db)"
  | (overflow) "fst (snd (classify err))" "\<not> exhausted L" "snd (snd (classify err)) = None" "1024 \<le> l_attempts L"
      "transition_failure L err jit utc now db = (Inl (OverflowError ''int too large to convert to float''), db)"
  | (retry) delay where "fst (snd (classify err))" "\<not> exhausted L"
      "transition_failure L err jit utc now db
        = map_prod Inr id (schedule_retry L (failure_text (fst (classify err)) err) delay (fst (classify err)) utc now db)"
      "case snd (snd (classify err)) of Some s \<Rightarrow> delay = s
       | None \<Rightarrow> l_attempts L < 1024 \<and> delay = min 300 (2 ^ nat (max 0 (l_attempts L))) + jit"
proof -
  obtain cls may ra where c: "classify err = (cls, may, ra)" by (cases "classify err")
  show thesis
  proof (cases "\<not> may \<or> exhausted L")
    case True
    then show thesis using bury c by (simp add: transition_failure_def)
  next
    case False
    show thesis
    proof (cases ra)
      case (Some s)
      then show thesis using retry [of s] False c by (simp add: transition_failure_def)
    next
      case None
      show thesis
      proof (cases "1024 \<le> l_attempts L")
        case True
        then show thesis using overflow False None c
          by (simp add: transition_failure_def backoff_delay_seconds_def)
      next
        case less: False
        then show thesis using retry False None c
          by (simp add: transition_failure_def backoff_delay_seconds_def)
      qed
    qed
  qed
qed

lemma transition_failure_inv:
  assumes "ledger_inv db"
  shows "ledger_inv (snd (transition_failure L err jit utc now db))"
  using assms
  by (cases rule: transition_failure_cases [of err L jit utc now db])
    (simp_all add: dead_letter_task_inv schedule_retry_inv)

text \<open>A transition that succeeds leaves the generation of the lease behind.\<close>

lemma left_behind:
  assumes "task_by_id db' (l_id L) = map_option (\<lambda>r. if owns L r then f r else r) (task_by_id db (l_id L))"
    and "leased_by db L" and "\<And>r. t_status (f r) \<in> {DONE, DEAD_LETTER} \<or> t_generation (f r) = t_generation r + 1"
  shows "is_terminal_or_stale (l_id L) (l_generation L) db'"
proof -
  from assms(2) obtain r where r: "task_by_id db (l_id L) = Some r" "owns L r" by (rule leased_byE)
  moreover from r(2) have "t_generation r = l_generation L" by (simp add: owns_def)
  ultimately show ?thesis using assms(1) assms(3) [of r] by (auto simp: is_terminal_or_stale_def)
qed

lemma complete_settles:
  assumes "ledger_inv db" and "complete_task L m now db = (True, db')"
  shows "is_terminal_or_stale (l_id L) (l_generation L) db'"
  using complete_task_row [OF assms(1), where L = L and m = m and now = now and i = "l_id L"]
    complete.needs_lease [OF assms(1), of L m now] assms(2)
  by (auto intro!: left_behind [where f = "mark_done m now"])

lemma transition_settles:
  assumes inv: "ledger_inv db" and run: "transition_failure L err jit utc now db = (Inr True, db')"
  shows "is_terminal_or_stale (l_id L) (l_generation L) db'"
proof (cases rule: transition_failure_cases [of err L jit utc now db])
  case bury
  let ?op = "dead_letter_task L (failure_text (fst (classify err)) err) (fst (classify err)) now db"
  have "fst ?op" "db' = snd ?op" using bury run by (auto simp: map_prod_def split: prod.splits)
  then show ?thesis
    using bury.needs_lease [OF inv] dead_letter_task_row [OF inv]
    by (auto intro!: left_behind [where f = "mark_dead (failure_text (fst (classify err)) err) (fst (classify err)) now"])
next
  case overflow
  with run show ?thesis by simp
next
  case (retry delay)
  let ?op = "schedule_retry L (failure_text (fst (classify err)) err) delay (fst (classify err)) utc now db"
  have "fst ?op" "db' = snd ?op" using retry run by (auto simp: map_prod_def split: prod.splits)
  then show ?thesis
    using retry.needs_lease [OF inv] schedule_retry_row [OF inv]
    by (auto intro!: left_behind [where f = "mark_retry (utc + delay_us delay)
          (failure_text (fst (classify err)) err) (fst (classify err)) now"])
qed

lemma transition_failure_effect:
  assumes inv: "ledger_inv db" and row: "task_by_id db (l_id L) = Some r" "owns L r"
    and err: "classify err = (cls, may_retry, retry_after)" and jit: "0 \<le> jit"
  shows "case transition_failure L err jit utc now db of
      (Inl e, db') \<Rightarrow> db' = db \<and> may_retry \<and> \<not> exhausted L \<and> retry_after = None \<and> 1024 \<le> l_attempts L
    | (Inr ok, db') \<Rightarrow> ok \<and>
        (if \<not> may_retry \<or> exhausted L
         then task_by_id db' (l_id L) = Some (mark_dead (failure_text cls err) cls now r)
         else \<exists>delay. task_by_id db' (l_id L)
               = Some (mark_retry (utc + delay_us delay) (failure_text cls err) cls now r) \<and>
             (case retry_after of Some s \<Rightarrow> delay = s | None \<Rightarrow> 1 \<le> delay \<and> delay \<le> 300 + jit))"
proof (cases rule: transition_failure_cases [of err L jit utc now db])
  case bury
  let ?op = "dead_letter_task L (failure_text cls err) cls now db"
  have "fst ?op" using row by (subst bury.answers [OF inv]) simp
  moreover have "task_by_id (snd ?op) (l_id L) = Some (mark_dead (failure_text cls err) cls now r)"
    using row by (simp add: dead_letter_task_row [OF inv])
  ultimately show ?thesis using bury err by (auto simp: map_prod_def split: prod.splits)
next
  case overflow
  with err show ?thesis by simp
next
  case (retry delay)
  let ?op = "schedule_retry L (failure_text cls err) delay cls utc now db"
  have "fst ?op" using row by (subst retry.answers [OF inv]) simp
  moreover have "task_by_id (snd ?op) (l_id L)
      = Some (mark_retry (utc + delay_us delay) (failure_text cls err) cls now r)"
    using row by (simp add: schedule_retry_row [OF inv])
  moreover have "1 \<le> min 300 ((2::rat) ^ n) + jit" for n
  proof -
    have "1 \<le> min 300 ((2::rat) ^ n)" using one_le_power [of "2::rat" n] by (simp add: min_def)
    with jit show ?thesis by linarith
  qed
  moreover have "min 300 ((2::rat) ^ n) + jit \<le> 300 + jit" for n by simp
  ultimately show ?thesis using retry err
    by (auto simp: map_prod_def split: prod.splits option.splits)
qed

text \<open>
  C16: Failure handling by the current owner. A permanent failure, or any failure of the last allowed attempt,
  dead-letters the task; every other failure schedules a retry, after the delay the failure names or after an
  exponential backoff of at most 300 seconds plus jitter. The one exception: from 1024 attempts on the backoff
  itself raises \<open>OverflowError\<close> and the ledger is left as it is.
\<close>

theorem transition_failure_outcome:
  assumes inv: "ledger_inv db" and row: "task_by_id db (l_id L) = Some r" "owns L r"
    and err: "classify err = (cls, may_retry, retry_after)" and jit: "0 \<le> jit"
  shows "case transition_failure L err jit utc now db of
      (Inl e, db') \<Rightarrow> db' = db \<and> may_retry \<and> \<not> exhausted L \<and> retry_after = None \<and> 1024 \<le> l_attempts L
    | (Inr ok, db') \<Rightarrow> ok \<and>
        (if \<not> may_retry \<or> exhausted L
         then task_by_id db' (l_id L) = Some (mark_dead (failure_text cls err) cls now r)
         else \<exists>delay. task_by_id db' (l_id L)
               = Some (mark_retry (utc + delay_us delay) (failure_text cls err) cls now r) \<and>
             (case retry_after of Some s \<Rightarrow> delay = s | None \<Rightarrow> 1 \<le> delay \<and> delay \<le> 300 + jit))"
  by (rule transition_failure_effect [OF assms])

theorem transition_failure_outcome_witness:
  "(\<exists>db' r. transition_failure running_lease (Collection PermanentTaskFailure ''x'' None) 0 20 21 running_db = (Inr True, db') \<and>
      task_by_id db' 1 = Some r \<and> t_status r = DEAD_LETTER) \<and>
   (\<exists>db' r. transition_failure running_lease (Collection RateLimited ''x'' (Some 60)) 0 20 21 running_db = (Inr True, db') \<and>
      task_by_id db' 1 = Some r \<and> t_next_run_at r = 20 + delay_us 60)"
proof -
  have row: "task_by_id running_db (l_id running_lease)
      = Some (take_lease ''worker-1'' 120 10 (sample_task\<lparr>t_enqueued_at := Some 1\<rparr>))"
    "owns running_lease (take_lease ''worker-1'' 120 10 (sample_task\<lparr>t_enqueued_at := Some 1\<rparr>))"
    by (simp_all add: sample_rows) (simp add: owns_def sample_defs)
  have lease: "\<not> exhausted running_lease" "l_id running_lease = 1" by (simp_all add: sample_defs)
  note outcome = transition_failure_outcome [OF sample_inv(3) row]
  show ?thesis
    using lease outcome [of "Collection PermanentTaskFailure ''x'' None" "''permanent_task_failure''" False None 0 21 20]
      outcome [of "Collection RateLimited ''x'' (Some 60)" "''rate_limited''" True "Some 60" 0 21 20]
    by (auto simp: classify_def retryable_def split: prod.splits sum.splits)
qed

section \<open>Acknowledgement\<close>

definition keeps_inv :: "(cdb \<Rightarrow> cdb) \<Rightarrow> bool" where
  "keeps_inv f \<longleftrightarrow> (\<forall>db. ledger_inv db \<longrightarrow> ledger_inv (f db))"

text \<open>The commits of the other processes keep the invariant, as all operations of the ledger do.\<close>

definition sane_surroundings :: "'a guard_event list \<Rightarrow> handle_env \<Rightarrow> bool" where
  "sane_surroundings events env \<longleftrightarrow>
     keeps_inv (e_check env) \<and> keeps_inv (e_before env) \<and> (\<forall>f. Elsewhere f \<in> set events \<longrightarrow> keeps_inv f)"

lemma run_guarded_inv:
  assumes "run_guarded L m s events db = Some (res, db')" and "ledger_inv db"
    and "\<And>f. Elsewhere f \<in> set events \<Longrightarrow> keeps_inv f"
  shows "ledger_inv db'"
  using assms
proof (induction L m s events db rule: run_guarded.induct)
  case (2 L m s f es db)
  then show ?case by (auto simp: keeps_inv_def)
next
  case (3 L m s now reply es db)
  then show ?case
    by (auto simp: renew_once_eq renew_lease_inv split: if_splits sum.splits)
next
  case (5 L m s v inflight es db)
  then show ?case
    by (auto simp: renew_once_eq renew_lease_inv split: if_splits sum.splits option.splits prod.splits)
qed (auto simp: release_inv)

lemma handle_failure_inv: "ledger_inv db \<Longrightarrow> ledger_inv (h_db (handle_failure L env err db))"
  using transition_failure_inv [of db L err "e_jitter env" "e_utc env" "e_now env"]
  by (auto simp: handle_failure_def no_ack_def ack_message_def release_inv split: exc.splits prod.splits sum.splits)

lemma handle_failure_acks:
  assumes "ledger_inv db" and "h_acked (handle_failure L env err db)"
  shows "is_terminal_or_stale (l_id L) (l_generation L) (h_db (handle_failure L env err db))"
  using assms
  by (auto simp: handle_failure_def no_ack_def ack_message_def split: exc.splits prod.splits sum.splits if_splits
      intro: transition_settles)

lemma handle_success_inv: "ledger_inv db \<Longrightarrow> ledger_inv (h_db (handle_success L env res db))"
  using complete_task_inv [of db L _ "e_now env"] handle_failure_inv
  by (auto simp: handle_success_def no_ack_def ack_message_def split: option.splits prod.splits)
     (metis snd_conv)+

lemma handle_success_acks:
  assumes "ledger_inv db" and "h_acked (handle_success L env res db)"
  shows "is_terminal_or_stale (l_id L) (l_generation L) (h_db (handle_success L env res db))"
proof (cases "e_complete env")
  case (Some e)
  with assms show ?thesis by (simp add: handle_success_def handle_failure_acks)
next
  case None
  obtain meta stored rejected where res: "res = (meta, stored, rejected)" by (cases res)
  let ?m = "Some (result_metadata meta stored rejected)"
  obtain ok db1 where c: "complete_task L ?m (e_now env) db = (ok, db1)"
    by (cases "complete_task L ?m (e_now env) db")
  have inv1: "ledger_inv db1" using complete_task_inv [OF assms(1), of L ?m "e_now env"] c by simp
  show ?thesis
  proof (cases "ok \<and> e_ack env = None")
    case True
    with c have "is_terminal_or_stale (l_id L) (l_generation L) db1"
      using complete_settles [OF assms(1), of L ?m "e_now env" db1] by simp
    with True None c res show ?thesis by (simp add: handle_success_def ack_message_def)
  next
    case False
    with None c res assms(2) inv1 show ?thesis
      by (auto simp: handle_success_def no_ack_def handle_failure_acks split: if_splits option.splits)
  qed
qed

lemma lease_names_delivery:
  assumes "ledger_inv db" and "lease_task i g w s now db = (Some L, db1)"
  shows "l_id L = i" "l_generation L = g" "l_owner L = w" "leased_by db1 L" "ledger_inv db1"
    and "\<exists>r. task_by_id db1 i = Some r \<and> owns L r \<and> t_lease_expires_at r = Some (l_expires_at L)"
  using lease_task_outcome [OF assms(1), where i = i and g = g and w = w and s = s and now = now]
    lease_task_inv [OF assms(1), where i = i and g = g and w = w and s = s and now = now] assms(2)
  by (auto simp: lease_of_def leasable_def owns_def)

text \<open>
  C12: A message is acknowledged only when it is no longer needed: whatever the collection does, whoever else
  writes the ledger meanwhile and whichever statement fails, if \<open>handle_delivery\<close> acknowledges the message then
  the ledger has finished the task, moved it to another generation, or dropped it. The ledger stays well formed.
\<close>

theorem ack_means_settled:
  assumes inv: "ledger_inv db" and sane: "sane_surroundings events env"
    and run: "handle_delivery m w s hb events env db = Some h"
  shows "ledger_inv (h_db h) \<and>
    (h_acked h \<longrightarrow> is_terminal_or_stale (m_task_id m) (m_generation m) (h_db h))"
proof (cases "lease_task (m_task_id m) (m_generation m) w s (e_lease_now env) db")
  case (Pair lease db1)
  show ?thesis
  proof (cases lease)
    case None
    with Pair have "db1 = db"
      using lease_task_outcome [OF inv, where i = "m_task_id m" and g = "m_generation m" and w = w and s = s
          and now = "e_lease_now env"] by simp
    with None Pair run sane inv show ?thesis
      by (auto simp: handle_delivery_def Let_def ack_message_def no_ack_def sane_surroundings_def keeps_inv_def
          split: if_splits)
  next
    case (Some L)
    with Pair have leased: "lease_task (m_task_id m) (m_generation m) w s (e_lease_now env) db = (Some L, db1)"
      by simp
    note L = lease_names_delivery [OF inv leased]
    show ?thesis
    proof (cases "guard_init s hb")
      case (Inl e)
      with leased run L show ?thesis by (auto simp: handle_delivery_def no_ack_def)
    next
      case (Inr x)
      with leased run obtain res db2 where g: "run_guarded L m s events db1 = Some (res, db2)"
        by (auto simp: handle_delivery_def split: option.splits)
      have "ledger_inv db2"
        using run_guarded_inv [OF g L(5)] sane by (auto simp: sane_surroundings_def)
      then have inv3: "ledger_inv (e_before env db2)"
        using sane by (auto simp: sane_surroundings_def keeps_inv_def)
      have "h = (case res of Inr result \<Rightarrow> handle_success L env result (e_before env db2)
          | Inl err \<Rightarrow> handle_failure L env err (e_before env db2))"
        using leased run Inr g by (auto simp: handle_delivery_def Let_def)
      then show ?thesis
        using handle_success_inv [OF inv3, of L env] handle_failure_inv [OF inv3, of L env]
          handle_success_acks [OF inv3, of L env] handle_failure_acks [OF inv3, of L env]
        unfolding L(1,2) by (auto split: sum.splits)
    qed
  qed
qed

definition quiet_env :: handle_env where
  "quiet_env = \<lparr>e_lease_now = 5, e_check = id, e_before = id, e_utc = 9, e_now = 9, e_jitter = 0,
     e_complete = None, e_ack = None, e_ack_failed = None\<rparr>"

definition sample_delivery :: delivery where
  "sample_delivery = \<lparr>m_message_id = ''1-0'', m_task_id = 1, m_generation = 0\<rparr>"

lemma quiet_env_fields [simp]:
  "e_lease_now quiet_env = 5" "e_check quiet_env = id" "e_before quiet_env = id" "e_now quiet_env = 9"
  "e_utc quiet_env = 9" "e_jitter quiet_env = 0" "e_complete quiet_env = None" "e_ack quiet_env = None"
  "e_ack_failed quiet_env = None"
  by (simp_all add: quiet_env_def)

lemma sample_delivery_fields [simp]:
  "m_message_id sample_delivery = ''1-0''" "m_task_id sample_delivery = 1" "m_generation sample_delivery = 0"
  by (simp_all add: sample_delivery_def)

theorem ack_means_settled_witness:
  "\<exists>h. handle_delivery sample_delivery ''worker-1'' 120 (Fin 40) [OpReturns ([], 3, 0) None] quiet_env enqueued_db = Some h \<and>
    h_acked h \<and> is_terminal_or_stale 1 0 (h_db h)"
proof -
  obtain h where h: "handle_delivery sample_delivery ''worker-1'' 120 (Fin 40) [OpReturns ([], 3, 0) None] quiet_env enqueued_db = Some h"
    and acked: "h_acked h"
    by (simp add: handle_delivery_def lease_task_def leasable_def sample_defs guard_init_def fl_of_int_def
        handle_success_def complete_task_def owns_def ack_message_def)
  have "sane_surroundings [OpReturns ([], 3, 0) None :: (pydict \<times> nat \<times> nat) guard_event] quiet_env"
    by (simp add: sane_surroundings_def keeps_inv_def)
  from ack_means_settled [OF sample_inv(2) this h] acked h show ?thesis by auto
qed

text \<open>
  C13: Late and duplicate deliveries do no work: a message whose task is finished, is at another generation or is
  gone is acknowledged at once, and one whose task another worker runs under a live lease is left pending; the
  ledger is not touched in either case.
\<close>

theorem redelivery_harmless:
  assumes inv: "ledger_inv db" and calm: "e_check env = id"
  shows "(is_terminal_or_stale (m_task_id m) (m_generation m) db \<longrightarrow>
      handle_delivery m w s hb events env db = Some (ack_message (e_ack env) db)) \<and>
    (task_by_id db (m_task_id m) = Some r \<and> t_generation r = m_generation m \<and> t_status r = RUNNING \<and>
       null_gt (t_lease_expires_at r) (e_lease_now env) \<longrightarrow>
      handle_delivery m w s hb events env db = Some (no_ack None db))"
proof -
  have refuse: "lease_task (m_task_id m) (m_generation m) w s (e_lease_now env) db = (None, db)"
    if "is_terminal_or_stale (m_task_id m) (m_generation m) db \<or>
      task_by_id db (m_task_id m) = Some r \<and> t_status r = RUNNING \<and>
       null_gt (t_lease_expires_at r) (e_lease_now env)"
    using that
    by (auto simp: lease_task_def find_leasable [OF inv] leasable_def is_terminal_or_stale_def
        dest: null_le_gt split: option.splits)
  then show ?thesis
    using calm by (auto simp: handle_delivery_def is_terminal_or_stale_def)
qed

theorem redelivery_harmless_witness:
  "handle_delivery (sample_delivery\<lparr>m_generation := 7\<rparr>) ''worker-2'' 120 (Fin 40) [] quiet_env running_db
     = Some (ack_message None running_db) \<and>
   handle_delivery sample_delivery ''worker-2'' 120 (Fin 40) [] quiet_env running_db = Some (no_ack None running_db)"
  using redelivery_harmless [OF sample_inv(3), of quiet_env "sample_delivery\<lparr>m_generation := 7\<rparr>"]
    redelivery_harmless [OF sample_inv(3), of quiet_env sample_delivery]
  by (auto simp: is_terminal_or_stale_def sample_rows sample_defs seconds_def)

text \<open>
  A healthy delivery ends well: if the task can be leased, the heartbeats come in time, nobody else writes
  the row, and the collection returns, then the task is \<open>DONE\<close> with the collection's metadata and the two item
  counts, its lease is released, and the message is acknowledged.
\<close>

theorem healthy_delivery_completes:
  assumes inv: "ledger_inv db"
    and lease: "lease_task (m_task_id m) (m_generation m) w s (e_lease_now env) db = (Some L, db1)"
    and guard: "guard_init s hb = Inr g"
    and healthy: "healthy L s (l_expires_at L) events (meta, stored, rejected)"
    and calm: "leaves_row L (e_before env)" "e_complete env = None" "e_ack env = None"
  shows "\<exists>h r. handle_delivery m w s hb events env db = Some h \<and> h_acked h \<and> h_raised h = None \<and>
    task_by_id (h_db h) (m_task_id m) = Some r \<and> t_status r = DONE \<and> t_generation r = m_generation m \<and>
    t_lease_owner r = None \<and> t_result_metadata r = Some (result_metadata meta stored rejected)"
proof -
  note L = lease_names_delivery [OF inv lease]
  from L(6) obtain r where r: "task_by_id db1 (l_id L) = Some r" "owns L r"
    "t_lease_expires_at r = Some (l_expires_at L)" unfolding L(1) by blast
  obtain db2 r2 where g: "run_guarded L m s events db1 = Some (Inr (meta, stored, rejected), db2)"
    and inv2: "ledger_inv db2" and r2: "task_by_id db2 (l_id L) = Some r2" "owns L r2"
    using healthy_run [OF healthy L(5) r] by blast
  let ?db3 = "e_before env db2" and ?m = "Some (result_metadata meta stored rejected)"
  have inv3: "ledger_inv ?db3" and r3: "task_by_id ?db3 (l_id L) = Some r2"
    using calm(1) inv2 r2 by (auto simp: leaves_row_def)
  define db4 where "db4 = snd (complete_task L ?m (e_now env) ?db3)"
  have ok: "complete_task L ?m (e_now env) ?db3 = (True, db4)"
    using complete_task_answer [OF inv3, where L = L and m = ?m and now = "e_now env"] r3 r2(2)
    by (simp add: db4_def leased_by_def prod_eq_iff)
  have row: "task_by_id db4 (l_id L) = Some (mark_done ?m (e_now env) r2)"
    using r3 r2 by (simp add: db4_def complete_task_row [OF inv3])
  have "handle_delivery m w s hb events env db = Some (ack_message None db4)"
    using lease guard g ok calm by (simp add: handle_delivery_def handle_success_def)
  moreover have "t_result_metadata (mark_done ?m (e_now env) r2) = ?m" "t_generation r2 = m_generation m"
    using r2(2) L(2) by (simp_all add: mark_done_def clear_lease_def owns_def)
  ultimately show ?thesis using row L(1) by (auto simp: ack_message_def)
qed

theorem healthy_delivery_completes_witness:
  "\<exists>h r. handle_delivery sample_delivery ''worker-1'' 120 (Fin 40)
      [Heartbeat (seconds 45) (Inr None), OpReturns ([(''query'', PStr ''q'')], 3, 1) None] quiet_env enqueued_db = Some h \<and>
    h_acked h \<and> task_by_id (h_db h) 1 = Some r \<and> t_status r = DONE \<and>
    t_result_metadata r = Some [(''query'', PStr ''q''), (''items_stored'', PInt 3), (''items_rejected'', PInt 1)]"
proof -
  obtain L db1 where l: "lease_task (m_task_id sample_delivery) (m_generation sample_delivery) ''worker-1'' 120
      (e_lease_now quiet_env) enqueued_db = (Some L, db1)" and x: "l_expires_at L = 5 + seconds 120"
    by (simp add: lease_task_def leasable_def sample_defs)
  have g: "guard_init 120 (Fin 40) = Inr (120, Fin 40)"
    by (simp add: guard_init_def fl_of_int_def)
  have "healthy L 120 (l_expires_at L)
      [Heartbeat (seconds 45) (Inr None), OpReturns ([(''query'', PStr ''q'')], 3, 1) None]
      ([(''query'', PStr ''q'')], 3::nat, 1::nat)"
    by (simp add: x seconds_def)
  from healthy_delivery_completes [OF sample_inv(2) l g this] show ?thesis
    by (auto simp: leaves_row_def result_metadata_def dict_set_def)
qed

end
