(* ===== verification/Lifecycle.thy ===== *)
theory Lifecycle
  imports WorkerProps
begin

text \<open>
  The abstract life cycle of a task and the proof that every operation of the ledger follows it. The
  cycle is an automaton on status and delivery generation; a database grows from another when every old
  task has made at most one move of the automaton, every old event is still the event of the same task
  and generation, and no dead letter was taken back.
\<close>

section \<open>The automaton\<close>

inductive life_step :: "task_status \<times> int \<Rightarrow> task_status \<times> int \<Rightarrow> bool" where
  life_enqueue: "st \<in> {PENDING, RETRY_SCHEDULED} \<Longrightarrow> life_step (st, g) (ENQUEUED, g)"
| life_lease: "st \<in> {ENQUEUED, RUNNING} \<Longrightarrow> life_step (st, g) (RUNNING, g)"
| life_requeue: "life_step (RUNNING, g) (ENQUEUED, g)"
| life_complete: "life_step (RUNNING, g) (DONE, g)"
| life_bury: "life_step (RUNNING, g) (DEAD_LETTER, g)"
| life_retry: "life_step (RUNNING, g) (RETRY_SCHEDULED, g + 1)"

inductive_simps life_step_simps: "life_step (st, g) (st', g')"
inductive_cases life_from_doneE: "life_step (DONE, g) x"
inductive_cases life_from_deadE: "life_step (DEAD_LETTER, g) x"

abbreviation life :: "task_row \<Rightarrow> task_status \<times> int" where
  "life r \<equiv> (t_status r, t_generation r)"

abbreviation terminal :: "task_status \<Rightarrow> bool" where
  "terminal st \<equiv> st = DONE \<or> st = DEAD_LETTER"

definition same_task :: "task_row \<Rightarrow> task_row \<Rightarrow> bool" where
  "same_task r r' \<longleftrightarrow> t_id r' = t_id r \<and> t_idempotency_key r' = t_idempotency_key r \<and>
     t_task_type r' = t_task_type r \<and> t_payload r' = t_payload r \<and> t_max_attempts r' = t_max_attempts r"

definition moves :: "task_row \<Rightarrow> task_row \<Rightarrow> bool" where
  "moves r r' \<longleftrightarrow> same_task r r' \<and> (life r' = life r \<or> life_step (life r) (life r'))"

definition follows :: "task_row \<Rightarrow> task_row \<Rightarrow> bool" where
  "follows r r' \<longleftrightarrow> same_task r r' \<and> life_step\<^sup>*\<^sup>* (life r) (life r')"

lemma same_task_refl [simp]: "same_task r r" by (simp add: same_task_def)
lemma moves_refl [simp]: "moves r r" by (simp add: moves_def)
lemma follows_refl [simp]: "follows r r" by (simp add: follows_def)

lemma moves_follows: "moves r r' \<Longrightarrow> follows r r'"
  by (auto simp: moves_def follows_def)

lemma follows_trans: "follows r s \<Longrightarrow> follows s t \<Longrightarrow> follows r t"
  by (auto simp: follows_def same_task_def)

lemma life_step_gen: "life_step a b \<Longrightarrow> snd a \<le> snd b"
  by (induction rule: life_step.induct) auto

lemma life_steps_gen: "life_step\<^sup>*\<^sup>* a b \<Longrightarrow> snd a \<le> snd b"
  by (induction rule: rtranclp_induct) (auto dest: life_step_gen)

lemma life_steps_terminal: "life_step\<^sup>*\<^sup>* a b \<Longrightarrow> terminal (fst a) \<Longrightarrow> b = a"
proof (induction rule: rtranclp_induct)
  case (step b c)
  then show ?case
    by (cases a) (auto elim: life_from_doneE life_from_deadE)
qed simp

lemma follows_gen: "follows r r' \<Longrightarrow> t_generation r \<le> t_generation r'"
  by (auto simp: follows_def dest: life_steps_gen)

lemma follows_terminal: "follows r r' \<Longrightarrow> terminal (t_status r) \<Longrightarrow> life r' = life r"
  by (auto simp: follows_def dest: life_steps_terminal)

section \<open>Databases that grow\<close>

text \<open>One move of a row that may be missing: only a finished task disappears, and ids are not reused.\<close>

fun moves_opt :: "task_row option \<Rightarrow> task_row option \<Rightarrow> bool" where
  "moves_opt None x = (x = None)"
| "moves_opt (Some r) None = (t_status r = DONE)"
| "moves_opt (Some r) (Some r') = moves r r'"

lemma moves_opt_refl [simp]: "moves_opt x x"
  by (cases x) auto

definition tasks_move :: "cdb \<Rightarrow> cdb \<Rightarrow> bool" where
  "tasks_move db db' \<longleftrightarrow> task_seq db \<le> task_seq db' \<and>
     (\<forall>i < task_seq db. moves_opt (task_by_id db i) (task_by_id db' i))"

definition tasks_follow :: "cdb \<Rightarrow> cdb \<Rightarrow> bool" where
  "tasks_follow db db' \<longleftrightarrow> task_seq db \<le> task_seq db' \<and>
     (\<forall>i < task_seq db. moves_opt\<^sup>*\<^sup>* (task_by_id db i) (task_by_id db' i))"

definition events_grow :: "cdb \<Rightarrow> cdb \<Rightarrow> bool" where
  "events_grow db db' \<longleftrightarrow> outbox_seq db \<le> outbox_seq db' \<and>
     (\<forall>i e'. i < outbox_seq db \<longrightarrow> event_row db' i = Some e' \<longrightarrow>
        (\<exists>e. event_row db i = Some e \<and> event_of e' = event_of e))"

text \<open>No event became published, in particular no new one.\<close>

definition none_published :: "cdb \<Rightarrow> cdb \<Rightarrow> bool" where
  "none_published db db' \<longleftrightarrow> (\<forall>e'\<in>set (outbox db'). o_published_at e' \<noteq> None \<longrightarrow>
     (\<exists>e\<in>set (outbox db). event_of e = event_of e' \<and> o_published_at e \<noteq> None))"

text \<open>The archive keeps its rows as they are; only a replay marks one.\<close>

definition dead_grow :: "cdb \<Rightarrow> cdb \<Rightarrow> bool" where
  "dead_grow db db' \<longleftrightarrow> replays db' = replays db \<and>
     (\<forall>i d. fetch_key d_id i (dead_letters db) = Some d \<longrightarrow> fetch_key d_id i (dead_letters db') = Some d)"

lemma tasks_move_refl [simp]: "tasks_move db db"
  by (simp add: tasks_move_def)

lemma tasks_follow_refl [simp]: "tasks_follow db db"
  by (simp add: tasks_follow_def)

lemma tasks_move_follow: "tasks_move db db' \<Longrightarrow> tasks_follow db db'"
  by (auto simp: tasks_move_def tasks_follow_def)

lemma tasks_follow_trans: "tasks_follow a b \<Longrightarrow> tasks_follow b c \<Longrightarrow> tasks_follow a c"
  unfolding tasks_follow_def by (metis order_less_le_trans order_trans rtranclp_trans)

lemma moves_opt_None: "moves_opt\<^sup>*\<^sup>* None x \<Longrightarrow> x = None"
  by (induction rule: rtranclp_induct) auto

text \<open>What a run tells about a row: where it came from, and that a terminal one stays.\<close>

lemma moves_opt_back:
  "moves_opt\<^sup>*\<^sup>* x (Some r') \<Longrightarrow> \<exists>r. x = Some r \<and> follows r r'"
proof (induction x rule: converse_rtranclp_induct)
  case base
  then show ?case by simp
next
  case (step x y)
  then obtain s where s: "y = Some s" "follows s r'" by blast
  with step.hyps(1) obtain r where "x = Some r" "moves r s" by (cases x) auto
  with s show ?case by (auto intro: follows_trans moves_follows)
qed

lemma moves_opt_terminal:
  assumes "moves_opt\<^sup>*\<^sup>* (Some r) y" and "terminal (t_status r)"
  shows "(case y of None \<Rightarrow> t_status r = DONE | Some r' \<Rightarrow> same_task r r' \<and> life r' = life r)"
  using assms(1)
proof (induction y rule: rtranclp_induct)
  case base
  then show ?case by simp
next
  case (step y z)
  show ?case
  proof (cases y)
    case None
    with step show ?thesis by auto
  next
    case (Some s)
    with step.IH have s: "same_task r s" "life s = life r" by auto
    show ?thesis
    proof (cases z)
      case None
      with step.hyps(2) Some s show ?thesis by auto
    next
      case z: (Some t)
      with step.hyps(2) Some have m: "moves s t" by simp
      have "terminal (t_status s)" using s(2) assms(2) by auto
    then have "life t = life s" by (rule follows_terminal [OF moves_follows [OF m]])
      with m s z show ?thesis by (auto simp: moves_def same_task_def)
    qed
  qed
qed

lemma tasks_follow_row:
  assumes "tasks_follow db db'" and "task_by_id db' i = Some r'" and "i < task_seq db"
  shows "\<exists>r. task_by_id db i = Some r \<and> follows r r'"
proof -
  have "moves_opt\<^sup>*\<^sup>* (task_by_id db i) (Some r')"
    using assms unfolding tasks_follow_def by metis
  then show ?thesis by (rule moves_opt_back)
qed

section \<open>Updates that are moves\<close>

lemma tasks_move_update:
  assumes "task_seq db' = task_seq db" and "tasks db' = update_where P f (tasks db)"
    and "\<And>r. P r \<Longrightarrow> moves r (f r)"
  shows "tasks_move db db'"
proof -
  have keys: "P r \<Longrightarrow> t_id (f r) = t_id r" for r
    using assms(3) by (auto simp: moves_def same_task_def)
  have "moves_opt x (map_option (\<lambda>r. if P r then f r else r) x)" for x
    using assms(3) by (cases x) auto
  then show ?thesis using keys by (simp add: tasks_move_def assms(1,2) fetch_key_update_where)
qed

lemma tasks_move_same: "task_seq db \<le> task_seq db' \<Longrightarrow> tasks db' = tasks db \<Longrightarrow> tasks_move db db'"
  by (simp add: tasks_move_def)

lemma tasks_move_keep:
  assumes "task_seq db \<le> task_seq db'"
    and "\<And>i. i < task_seq db \<Longrightarrow> task_by_id db' i = task_by_id db i"
  shows "tasks_move db db'"
  using assms by (simp add: tasks_move_def)

lemma events_grow_same: "outbox_seq db \<le> outbox_seq db' \<Longrightarrow> outbox db' = outbox db \<Longrightarrow> events_grow db db'"
  by (simp add: events_grow_def)

lemma events_grow_update:
  assumes "outbox_seq db' = outbox_seq db" and "outbox db' = update_where P f (outbox db)"
    and "\<And>e. P e \<Longrightarrow> o_id (f e) = o_id e \<and> event_of (f e) = event_of e"
  shows "events_grow db db'"
  using assms(3) by (auto simp: events_grow_def assms(1,2) fetch_key_update_where)

lemma events_grow_trans: "events_grow a b \<Longrightarrow> events_grow b c \<Longrightarrow> events_grow a c"
  unfolding events_grow_def by (smt (verit, best) order_less_le_trans order_trans)

lemma events_grow_insert: "events_grow db (insert_event e db)"
  by (auto simp: events_grow_def insert_event_def Let_def fetch_key_append split: option.splits if_splits)

lemma none_published_same: "outbox db' = outbox db \<Longrightarrow> none_published db db'"
  by (auto simp: none_published_def)

lemma none_published_trans: "none_published a b \<Longrightarrow> none_published b c \<Longrightarrow> none_published a c"
  unfolding none_published_def by metis

lemma none_published_update:
  assumes "outbox db' = update_where P f (outbox db)"
    and "\<And>e. P e \<Longrightarrow> event_of (f e) = event_of e \<and> o_published_at (f e) = o_published_at e"
  shows "none_published db db'"
  unfolding none_published_def assms(1) using assms(2)
  by (auto simp: ball_update_where)

lemma none_published_insert: "o_published_at e = None \<Longrightarrow> none_published db (insert_event e db)"
  by (auto simp: none_published_def insert_event_def Let_def split: option.splits)

lemma dead_grow_same: "replays db' = replays db \<Longrightarrow> dead_letters db' = dead_letters db \<Longrightarrow> dead_grow db db'"
  by (auto simp: dead_grow_def)

lemma dead_grow_append: "replays db' = replays db \<Longrightarrow> dead_letters db' = dead_letters db @ ds \<Longrightarrow> dead_grow db db'"
  by (auto simp: dead_grow_def fetch_key_append)

text \<open>The audit of replays survives growth.\<close>

lemma replay_inv_grow:
  assumes "replay_inv db" and "tasks_move db db'" and "dead_grow db db'"
  shows "replay_inv db'"
proof (rule replay_inv_mono [OF assms(1)])
  show "replays db' = replays db" "task_seq db \<le> task_seq db'"
    using assms(2,3) by (auto simp: dead_grow_def tasks_move_def)
  show "\<exists>t0. task_by_id db i = Some t0 \<and> t_idempotency_key t = t_idempotency_key t0"
    if "i < task_seq db" "task_by_id db' i = Some t" for i t
    using tasks_follow_row [OF tasks_move_follow [OF assms(2)] that(2,1)]
    by (auto simp: follows_def same_task_def)
  show "\<exists>d'. fetch_key d_id i (dead_letters db') = Some d' \<and> d_replay_generation d \<le> d_replay_generation d'"
    if "fetch_key d_id i (dead_letters db) = Some d" for i d
    using assms(3) that by (auto simp: dead_grow_def)
qed

section \<open>The operations\<close>

definition grows :: "cdb \<Rightarrow> cdb \<Rightarrow> bool" where
  "grows db db' \<longleftrightarrow> tasks_move db db' \<and> events_grow db db' \<and> none_published db db' \<and> dead_grow db db'"

lemma grows_archive: "grows db db' \<Longrightarrow> archived db i = Some d \<Longrightarrow> archived db' i = Some d"
  by (simp add: grows_def dead_grow_def)

lemma same_task_updates [simp]:
  "same_task r (take_lease w s now r)" "same_task r (mark_done m now r)" "same_task r (mark_dead e c now r)"
  "same_task r (mark_retry n e c now r)" "same_task r (extend_lease s now r)" "same_task r (requeue now r)"
  "same_task r (mark_enqueued now r)"
  by (simp_all add: same_task_def take_lease_def mark_done_def mark_dead_def mark_retry_def extend_lease_def
      requeue_def mark_enqueued_def clear_lease_def)

lemma moves_updates:
  "leasable t i g r \<Longrightarrow> moves r (take_lease w s now r)"
  "owns L r \<Longrightarrow> moves r (mark_done m now r)" "owns L r \<Longrightarrow> moves r (mark_dead e c now r)"
  "owns L r \<Longrightarrow> moves r (mark_retry n e c now r)" "owns L r \<Longrightarrow> moves r (requeue now r)"
  "moves r (extend_lease s now r)" "enqueues es r \<Longrightarrow> moves r (mark_enqueued now r)"
  by (auto simp: moves_def life_step_simps leasable_def owns_def enqueues_def)

lemma grows_refl [simp]: "grows db db"
  by (simp add: grows_def events_grow_same none_published_same dead_grow_same)

lemma grows_update_tasks:
  assumes "\<And>r. P r \<Longrightarrow> moves r (f r)"
  shows "grows db (db\<lparr>tasks := update_where P f (tasks db)\<rparr>)"
  using assms
  by (auto simp: grows_def events_grow_same none_published_same dead_grow_same intro!: tasks_move_update)

lemma lease_task_grows: "grows db (snd (lease_task i g w s now db))"
  by (auto simp: lease_task_def moves_updates split: option.splits intro!: grows_update_tasks)

lemma renew_lease_grows: "grows db (snd (renew_lease L s now db))"
  by (auto simp: renew_lease_def moves_updates intro!: grows_update_tasks)

lemma release_grows: "grows db (snd (release_for_recovery L now db))"
  by (auto simp: release_for_recovery_def moves_updates intro!: grows_update_tasks)

lemma complete_task_grows: "grows db (snd (complete_task L m now db))"
  by (auto simp: complete_task_def moves_updates intro!: grows_update_tasks)

lemma dead_letter_task_grows: "grows db (snd (dead_letter_task L e c now db))"
proof (cases "find (owns L) (tasks db)")
  case None
  then show ?thesis by (simp add: dead_letter_task_def)
next
  case (Some r)
  let ?db = "snd (dead_letter_task L e c now db)"
  have "tasks_move db ?db"
    using Some by (intro tasks_move_update [where P = "owns L" and f = "mark_dead e c now"])
      (auto simp: dead_letter_task_def Let_def moves_updates)
  moreover have "dead_grow db ?db"
    using Some by (intro dead_grow_append) (auto simp: dead_letter_task_def Let_def)
  moreover have "outbox ?db = outbox db" "outbox_seq ?db = outbox_seq db"
    using Some by (auto simp: dead_letter_task_def Let_def)
  ultimately show ?thesis by (simp add: grows_def events_grow_same none_published_same)
qed

lemma grows_insert_event:
  assumes "tasks_move db db1" and "outbox db1 = outbox db" and "outbox_seq db1 = outbox_seq db"
    and "replays db1 = replays db" and "dead_letters db1 = dead_letters db" and "o_published_at e = None"
  shows "grows db (insert_event e db1)"
proof -
  have "events_grow db db1" "none_published db db1"
    using assms by (simp_all add: events_grow_same none_published_same)
  then have "events_grow db (insert_event e db1)" "none_published db (insert_event e db1)"
    using events_grow_trans [OF _ events_grow_insert] none_published_trans [OF _ none_published_insert] assms(6)
    by blast+
  moreover have "tasks_move db (insert_event e db1)" using assms(1) by (simp add: tasks_move_def)
  moreover have "dead_grow db (insert_event e db1)" using assms(4,5) by (intro dead_grow_same) simp_all
  ultimately show ?thesis by (simp add: grows_def)
qed

lemma schedule_retry_grows: "grows db (snd (schedule_retry L e d c utc now db))"
proof (cases "find (owns L) (tasks db)")
  case None
  then show ?thesis by (simp add: schedule_retry_def Let_def)
next
  case (Some r)
  let ?f = "mark_retry (utc + delay_us d) e c now"
  have "tasks_move db (db\<lparr>tasks := update_where (owns L) ?f (tasks db)\<rparr>)"
    by (rule tasks_move_update [where P = "owns L" and f = ?f]) (auto simp: moves_updates)
  then show ?thesis
    using Some by (auto simp: schedule_retry_def Let_def intro!: grows_insert_event)
qed

lemma transition_failure_grows: "grows db (snd (transition_failure L err jit utc now db))"
  by (cases rule: transition_failure_cases [of err L jit utc now db])
    (simp_all add: dead_letter_task_grows schedule_retry_grows)

lemma insert_task_grows:
  assumes "ledger_inv db" and "insert_task r db = (t, db1)"
  shows "tasks_move db db1" "outbox db1 = outbox db" "outbox_seq db1 = outbox_seq db"
    "replays db1 = replays db" "dead_letters db1 = dead_letters db"
proof -
  show "outbox db1 = outbox db" "outbox_seq db1 = outbox_seq db"
    "replays db1 = replays db" "dead_letters db1 = dead_letters db"
    using assms(2) by (auto simp: insert_task_def Let_def split: option.splits)
  show "tasks_move db db1"
  proof (rule tasks_move_keep)
    show "task_seq db \<le> task_seq db1"
      using assms(2) by (auto simp: insert_task_def Let_def split: option.splits)
    show "task_by_id db1 i = task_by_id db i" if "i < task_seq db" for i
      using assms(2) that by (auto simp: insert_task_def Let_def fetch_key_append split: option.splits)
  qed
qed

lemma create_task_grows:
  assumes inv: "ledger_inv db" and run: "create_task ty p key m prio nra utc now db = Inr (i, db')"
  shows "grows db db'"
proof -
  define r where "r = new_task ty p m (case nra of None \<Rightarrow> utc | Some t \<Rightarrow> t) key prio None None now"
  obtain t db1 where ins: "insert_task r db = (t, db1)" by (cases "insert_task r db")
  note g = insert_task_grows [OF inv ins]
  have "grows db db1"
    using g by (simp add: grows_def events_grow_same none_published_same dead_grow_same)
  moreover have "grows db (insert_event (ready_event a b c d) db1)" for a b c d
    using g by (intro grows_insert_event) simp_all
  moreover have "db' = db1 \<or> (\<exists>a b c d. db' = insert_event (ready_event a b c d) db1)"
    using run ins by (auto simp: create_task_def r_def Let_def split: if_splits option.splits)
  ultimately show ?thesis by auto
qed

lemma claim_ready_grows:
  assumes inv: "ledger_inv db" and run: "claim_ready b tok cs lk utc now db = Inr (evs, db')"
  shows "grows db db'"
proof -
  let ?es = "select_claimable b lk now db"
  have db': "db' = claimed_db tok (utc + seconds cs) now ?es db"
    using run by (auto simp: claim_ready_def claim_rows_eq select_distinct ledger_invD inv split: if_splits)
  have "tasks_move db db'"
    by (rule tasks_move_update [where P = "enqueues ?es" and f = "mark_enqueued now"])
      (auto simp: db' claimed_db_def moves_updates)
  moreover have "events_grow db db'"
    by (rule events_grow_update [where P = "in_rows ?es" and f = "claim_row tok (utc + seconds cs)"])
      (auto simp: db' claimed_db_def)
  moreover have "none_published db db'"
    by (rule none_published_update [where P = "in_rows ?es" and f = "claim_row tok (utc + seconds cs)"])
      (auto simp: db' claimed_db_def)
  moreover have "dead_grow db db'" by (rule dead_grow_same) (auto simp: db' claimed_db_def)
  ultimately show ?thesis by (simp add: grows_def)
qed

lemma record_failure_grows: "grows db (record_failure ev err db)"
proof -
  let ?db = "record_failure ev err db"
  let ?f = "drop_claim (exc_str err)"
  have "events_grow db ?db"
    by (rule events_grow_update [where P = "holds_claim ev" and f = ?f]) (auto simp: record_failure_def)
  moreover have "none_published db ?db"
    by (rule none_published_update [where P = "holds_claim ev" and f = ?f]) (auto simp: record_failure_def)
  ultimately show ?thesis
    by (simp add: grows_def tasks_move_same dead_grow_same record_failure_def)
qed

lemma publish_claimed_grows:
  "tasks_move db (snd (publish_claimed ev reply now db))" "events_grow db (snd (publish_claimed ev reply now db))"
  "dead_grow db (snd (publish_claimed ev reply now db))"
proof -
  let ?db = "snd (publish_claimed ev reply now db)"
  have eq: "?db = db \<or> (\<exists>m. ?db = db\<lparr>outbox := update_where (holds_claim ev) (mark_published m now) (outbox db)\<rparr>)"
    by (auto simp: publish_claimed_def Let_def split: sum.splits)
  have "events_grow db (db\<lparr>outbox := update_where (holds_claim ev) (mark_published m now) (outbox db)\<rparr>)" for m
    by (rule events_grow_update [where P = "holds_claim ev" and f = "mark_published m now"]) auto
  moreover have "events_grow db db" by (simp add: events_grow_same)
  ultimately show "events_grow db ?db" using eq by metis
  show "tasks_move db ?db" "dead_grow db ?db"
    using eq by (auto intro!: tasks_move_same dead_grow_same)
qed

section \<open>Replaying\<close>

definition tasks_keep :: "cdb \<Rightarrow> cdb \<Rightarrow> bool" where
  "tasks_keep db db' \<longleftrightarrow> task_seq db \<le> task_seq db' \<and>
     (\<forall>i < task_seq db. task_by_id db' i = task_by_id db i)"

lemma tasks_keep_move: "tasks_keep db db' \<Longrightarrow> tasks_move db db'"
  by (simp add: tasks_keep_def tasks_move_def)

lemma insert_replay_frame:
  assumes "insert_replay a db = Inr db'"
  shows "tasks db' = tasks db" "task_seq db' = task_seq db" "outbox db' = outbox db"
    "outbox_seq db' = outbox_seq db" "dead_letters db' = dead_letters db"
  using assms by (auto simp: insert_replay_def Let_def split: if_splits)

lemma replay_one_grows:
  assumes "replay_one meta maxa prio now d db = Inr (res, db')"
  shows "tasks_keep db db' \<and> events_grow db db' \<and> none_published db db'"
proof -
  define r where "r = new_task (d_task_type d) (d_payload d) maxa now (replay_key (d_id d) (d_replay_generation d + 1))
      prio (Some (d_original_task_id d)) (Some (d_id d)) now"
  obtain t db1 where ins: "insert_task r db = (t, db1)" by (cases "insert_task r db")
  define e where "e = ready_event (t_id t) (t_generation t) (t_next_run_at t) now"
  from assms ins obtain a db3 where rep: "insert_replay a (insert_event e db1) = Inr db3"
    and db': "tasks db' = tasks db3" "task_seq db' = task_seq db3" "outbox db' = outbox db3" "outbox_seq db' = outbox_seq db3"
    by (auto simp: replay_one_def Let_def r_def [symmetric] e_def [symmetric] split: if_splits sum.splits)
  have keep: "tasks_keep db db1"
    using ins by (auto simp: tasks_keep_def insert_task_def Let_def fetch_key_append split: option.splits)
  have ob1: "outbox db1 = outbox db" "outbox_seq db1 = outbox_seq db"
    using ins by (auto simp: insert_task_def Let_def split: option.splits)
  have ob: "outbox db' = outbox (insert_event e db1)" "outbox_seq db' = outbox_seq (insert_event e db1)"
    using db' insert_replay_frame [OF rep] by simp_all
  have "events_grow db (insert_event e db1)"
    using ob1 by (intro events_grow_trans [OF events_grow_same events_grow_insert]) simp_all
  then have "events_grow db db'" by (simp add: events_grow_def ob)
  moreover have "none_published db (insert_event e db1)"
    using ob1 by (intro none_published_trans [OF none_published_same none_published_insert]) (simp_all add: e_def)
  then have "none_published db db'" by (simp add: none_published_def ob)
  moreover have "tasks_keep db db'"
    using keep db' insert_replay_frame [OF rep] by (simp add: tasks_keep_def)
  ultimately show ?thesis by blast
qed

lemma replay_rows_grows:
  "replay_rows meta maxa prio now ds db = Inr (rs, db') \<Longrightarrow>
     tasks_keep db db' \<and> events_grow db db' \<and> none_published db db'"
proof (induction ds arbitrary: db rs)
  case Nil
  then show ?case by (simp add: tasks_keep_def events_grow_same none_published_same)
next
  case (Cons d ds)
  then obtain res db1 rest where one: "replay_one meta maxa prio now d db = Inr (res, db1)"
    and rest: "replay_rows meta maxa prio now ds db1 = Inr (rest, db')"
    by (auto split: sum.splits)
  from replay_one_grows [OF one] Cons.IH [OF rest]
  show ?case
    by (auto simp: tasks_keep_def intro: events_grow_trans none_published_trans)
qed

lemma replay_grows:
  assumes "replay sel limit maxa prio lk now db = Inr (rs, db')"
  shows "tasks_move db db'" "events_grow db db'" "none_published db db'"
  using assms replay_rows_grows tasks_keep_move
  by (auto simp: replay_def Let_def split: if_splits)

section \<open>Purging\<close>

definition gone_ids :: "cdb \<Rightarrow> int list" where
  "gone_ids db = map t_id (filter purgeable (tasks db))"

lemma gone_id:
  assumes "ledger_inv db" and "task_by_id db i = Some r"
  shows "i \<in> set (gone_ids db) \<longleftrightarrow> purgeable r"
proof -
  have "purgeable r" if x: "x \<in> set (tasks db)" "purgeable x" "t_id x = i" for x
    using ledger_task_by_id [OF assms(1) x(1)] x assms(2) by simp
  then show ?thesis using assms(2) by (auto simp: gone_ids_def dest: fetch_key_SomeD)
qed

abbreviation orphan :: "int list \<Rightarrow> task_row \<Rightarrow> task_row" where
  "orphan gone r \<equiv> (if \<exists>i\<in>set gone. t_origin_task_id r = Some i then r\<lparr>t_origin_task_id := None\<rparr> else r)"

lemma purge_row:
  assumes inv: "ledger_inv db"
  shows "task_by_id (snd (purge_done db)) i
    = (case task_by_id db i of None \<Rightarrow> None
       | Some r \<Rightarrow> if purgeable r then None else Some (orphan (gone_ids db) r))"
proof -
  have "distinct (map t_id (tasks db))" by (rule ledger_invD [OF inv])
  then show ?thesis
    by (simp add: purge_done_def Let_def gone_ids_def fetch_key_update_where fetch_key_delete_where split: option.splits)
qed

lemma purge_done_inv:
  assumes inv: "ledger_inv db"
  shows "ledger_inv (snd (purge_done db))" (is "ledger_inv ?db")
proof -
  let ?gone = "gone_ids db"
  have tks: "tasks ?db = map (orphan ?gone) (delete_where purgeable (tasks db))"
    and obx: "outbox ?db = delete_where (\<lambda>e. o_task_id e \<in> set ?gone) (outbox db)"
    and rest: "task_seq ?db = task_seq db" "outbox_seq ?db = outbox_seq db" "dead_letters ?db = dead_letters db"
      "dead_seq ?db = dead_seq db"
    by (simp_all add: purge_done_def Let_def gone_ids_def update_where_def)
  have keep: "t_id (orphan g r) = t_id r" "t_idempotency_key (orphan g r) = t_idempotency_key r"
    "t_status (orphan g r) = t_status r" "t_generation (orphan g r) = t_generation r"
    "task_ok (orphan g r) = task_ok r" for g r
    by (auto simp: task_ok_def)
  have origin: "task_ok (r\<lparr>t_origin_task_id := x\<rparr>) = task_ok r" for r x by (simp add: task_ok_def)
  have ids: "map t_id (tasks ?db) = map t_id (delete_where purgeable (tasks db))"
    "map t_idempotency_key (tasks ?db) = map t_idempotency_key (delete_where purgeable (tasks db))"
    by (simp_all add: tks keep)
  have "tasks_inv ?db"
    using inv unfolding tasks_inv_def ids rest ledger_inv_defs
    by (auto simp: tks keep origin intro: distinct_map_delete_where)
  moreover have "outbox_inv ?db"
    using inv unfolding outbox_inv_def rest obx ledger_inv_defs
    by (auto intro: distinct_map_delete_where)
  moreover have "event_linked ?db e" if e: "e \<in> set (outbox ?db)" for e
  proof -
    from e have e': "e \<in> set (outbox db)" "o_task_id e \<notin> set ?gone" by (auto simp: obx)
    with inv obtain r where r: "task_by_id db (o_task_id e) = Some r" "o_generation e \<le> t_generation r"
      by (auto simp: ledger_inv_defs event_linked_def)
    with gone_id [OF inv] e'(2) have "\<not> purgeable r" by blast
    with r show ?thesis by (simp add: event_linked_def purge_row [OF inv])
  qed
  moreover have "task_linked ?db r'" if r': "r' \<in> set (tasks ?db)" for r'
  proof -
    from r' obtain r where r: "r \<in> set (tasks db)" "\<not> purgeable r" "r' = orphan ?gone r" by (auto simp: tks)
    from inv r(1) obtain e where e: "outbox_event db (t_id r) (t_generation r) = Some e"
      "t_status r \<in> {PENDING, RETRY_SCHEDULED} \<longrightarrow> pristine e"
      by (auto simp: ledger_inv_defs task_linked_def)
    then have ev: "event_of e = (t_id r, t_generation r)" by (auto dest: fetch_key_SomeD)
    moreover have "t_id r \<notin> set ?gone"
      using gone_id [OF inv ledger_task_by_id [OF inv r(1)]] r(2) by simp
    moreover have "distinct (map event_of (outbox db))" by (rule ledger_invD [OF inv])
    ultimately have "outbox_event ?db (t_id r) (t_generation r) = Some e"
      using e(1) by (simp add: obx fetch_key_delete_where)
    with e(2) r(3) show ?thesis unfolding task_linked_def r(3) keep by blast
  qed
  moreover have "dead_linked ?db d" if "dead_linked db d" for d
    using that by (auto simp: dead_linked_def purge_row [OF inv] purgeable_def)
  then have "dead_inv ?db" using inv by (simp add: dead_inv_def ledger_inv_defs rest)
  ultimately show ?thesis by (simp add: ledger_inv_def link_inv_def)
qed

lemma purge_done_grows:
  assumes inv: "ledger_inv db"
  shows "grows db (snd (purge_done db))"
proof -
  let ?db = "snd (purge_done db)"
  have frame: "task_seq ?db = task_seq db" "outbox_seq ?db = outbox_seq db" "dead_letters ?db = dead_letters db"
    "replays ?db = replays db" "outbox ?db = delete_where (\<lambda>e. o_task_id e \<in> set (gone_ids db)) (outbox db)"
    by (simp_all add: purge_done_def Let_def gone_ids_def)
  have "moves_opt (task_by_id db i) (task_by_id ?db i)" for i
    unfolding purge_row [OF inv]
    by (auto simp: purgeable_def moves_def same_task_def split: option.splits)
  then have "tasks_move db ?db" by (simp add: tasks_move_def frame)
  moreover have "distinct (map o_id (outbox db))" by (rule ledger_invD [OF inv])
  then have "events_grow db ?db"
    by (auto simp: events_grow_def frame fetch_key_delete_where split: option.splits if_splits)
  moreover have "none_published db ?db" by (auto simp: none_published_def frame)
  ultimately show ?thesis by (simp add: grows_def dead_grow_same frame)
qed

end
