(* ===== verification/System.thy ===== *)
theory System
  imports Lifecycle
begin

text \<open>
  The control plane as one transition system: producers, dispatchers, workers, the replay service and
  the cleanup daemon act on the ledger and on the Redis stream in any order, each statement or Redis
  command a step of its own, any process may stop after any step, and messages are delivered any number of
  times. The times of the statements are arbitrary. What a process remembers between its steps is part of
  the state: claims not yet published, messages sent but not yet recorded, leases held, messages about to be
  acknowledged.
\<close>

section \<open>State and steps\<close>

record sys =
  sys_db :: cdb
  stream :: "delivery list"
  claims :: "claimed_event list"
  in_flight :: "(claimed_event \<times> string) list"
  held_leases :: "(task_lease \<times> delivery) list"
  ack_due :: "delivery list"
  acked :: "delivery list"
  outcomes :: "(int \<times> int) list" \<comment> \<open>history: generations whose worker settled them\<close>

definition sys_init :: sys where
  "sys_init = \<lparr>sys_db = empty_cdb, stream = [], claims = [], in_flight = [], held_leases = [],
     ack_due = [], acked = [], outcomes = []\<rparr>"

definition message :: "string \<Rightarrow> claimed_event \<Rightarrow> delivery" where
  "message i ev = \<lparr>m_message_id = i, m_task_id = c_task_id ev, m_generation = c_generation ev\<rparr>"

inductive sys_step :: "sys \<Rightarrow> sys \<Rightarrow> bool" where
  submit: "create_task ty p key maxa prio nra utc now (sys_db s) = Inr (i, db') \<Longrightarrow>
    sys_step s (s\<lparr>sys_db := db'\<rparr>)"
| claim: "claim_ready b tok cs lk utc now (sys_db s) = Inr (evs, db') \<Longrightarrow>
    sys_step s (s\<lparr>sys_db := db', claims := claims s @ evs\<rparr>)"
| xadd: "ev \<in> set (claims s) \<Longrightarrow> i \<notin> m_message_id ` set (stream s) \<Longrightarrow>
    sys_step s (s\<lparr>stream := stream s @ [message i ev], in_flight := in_flight s @ [(ev, i)]\<rparr>)"
| publish: "(ev, i) \<in> set (in_flight s) \<Longrightarrow> publish_claimed ev (Inr i) now (sys_db s) = (res, db') \<Longrightarrow>
    sys_step s (s\<lparr>sys_db := db'\<rparr>)"
| give_back: "ev \<in> set (claims s) \<Longrightarrow>
    sys_step s (s\<lparr>sys_db := record_failure ev err (sys_db s)\<rparr>)"
| begin_work: "m \<in> set (stream s) \<Longrightarrow>
    lease_task (m_task_id m) (m_generation m) w secs now (sys_db s) = (Some L, db') \<Longrightarrow>
    sys_step s (s\<lparr>sys_db := db', held_leases := (L, m) # held_leases s\<rparr>)"
| skip: "m \<in> set (stream s) \<Longrightarrow> is_terminal_or_stale (m_task_id m) (m_generation m) (sys_db s) \<Longrightarrow>
    sys_step s (s\<lparr>ack_due := m # ack_due s\<rparr>)"
| heartbeat: "(L, m) \<in> set (held_leases s) \<Longrightarrow> renew_lease L secs now (sys_db s) = (b, db') \<Longrightarrow>
    sys_step s (s\<lparr>sys_db := db'\<rparr>)"
| cancel: "(L, m) \<in> set (held_leases s) \<Longrightarrow> release_for_recovery L now (sys_db s) = (b, db') \<Longrightarrow>
    sys_step s (s\<lparr>sys_db := db'\<rparr>)"
| finish: "(L, m) \<in> set (held_leases s) \<Longrightarrow> complete_task L meta now (sys_db s) = (True, db') \<Longrightarrow>
    sys_step s (s\<lparr>sys_db := db', ack_due := m # ack_due s,
      outcomes := (l_id L, l_generation L) # outcomes s\<rparr>)"
| failed: "(L, m) \<in> set (held_leases s) \<Longrightarrow>
    transition_failure L err jit utc now (sys_db s) = (Inr True, db') \<Longrightarrow>
    sys_step s (s\<lparr>sys_db := db', ack_due := m # ack_due s,
      outcomes := (l_id L, l_generation L) # outcomes s\<rparr>)"
| ack: "m \<in> set (ack_due s) \<Longrightarrow> sys_step s (s\<lparr>acked := m # acked s\<rparr>)"
| replay_step: "replay sel limit maxa prio lk now (sys_db s) = Inr (rs, db') \<Longrightarrow>
    sys_step s (s\<lparr>sys_db := db'\<rparr>)"
| purge: "sys_step s (s\<lparr>sys_db := snd (purge_done (sys_db s))\<rparr>)"

text \<open>
  The calls that answer \<open>False\<close> or raise leave the database as it is and need no step of their own.
\<close>

lemma unsuccessful_calls_stutter:
  assumes "ledger_inv db"
  shows "complete_task L meta now db = (False, db') \<Longrightarrow> db' = db"
    and "transition_failure L err jit utc now db = (Inr False, db'') \<Longrightarrow> db'' = db"
    and "transition_failure L err jit utc now db = (Inl e, db'') \<Longrightarrow> db'' = db"
proof -
  show "complete_task L meta now db = (False, db') \<Longrightarrow> db' = db"
    using complete.frame [OF assms, of L meta now] by simp
  show "db'' = db" if run: "transition_failure L err jit utc now db = (Inr False, db'')"
  proof (cases rule: transition_failure_cases [of err L jit utc now db])
    case bury
    let ?op = "dead_letter_task L (failure_text (fst (classify err)) err) (fst (classify err)) now db"
    have "\<not> fst ?op" "db'' = snd ?op" using bury run by (auto simp: map_prod_def split: prod.splits)
    then show ?thesis using bury.frame [OF assms] by simp
  next
    case overflow
    with run show ?thesis by simp
  next
    case (retry delay)
    let ?op = "schedule_retry L (failure_text (fst (classify err)) err) delay (fst (classify err)) utc now db"
    have "\<not> fst ?op" "db'' = snd ?op" using retry run by (auto simp: map_prod_def split: prod.splits)
    then show ?thesis using retry.frame [OF assms] by simp
  qed
  show "transition_failure L err jit utc now db = (Inl e, db'') \<Longrightarrow> db'' = db"
    by (cases rule: transition_failure_cases [of err L jit utc now db])
      (auto simp: map_prod_def split: prod.splits)
qed

section \<open>What processes may rely on\<close>

lemma ledger_event_small: "ledger_inv db \<Longrightarrow> event_row db i = Some e \<Longrightarrow> i < outbox_seq db"
  by (auto simp: ledger_inv_defs dest: fetch_key_SomeD)

lemma ledger_task_small: "ledger_inv db \<Longrightarrow> task_by_id db i = Some r \<Longrightarrow> i < task_seq db"
  by (auto simp: ledger_inv_defs dest: fetch_key_SomeD)

definition known_gen :: "cdb \<Rightarrow> int \<Rightarrow> int \<Rightarrow> bool" where
  "known_gen db i g \<longleftrightarrow> i < task_seq db \<and> (\<forall>r. task_by_id db i = Some r \<longrightarrow> g \<le> t_generation r)"

definition settled_gen :: "cdb \<Rightarrow> int \<Rightarrow> int \<Rightarrow> bool" where
  "settled_gen db i g \<longleftrightarrow> i < task_seq db \<and>
     (\<forall>r. task_by_id db i = Some r \<longrightarrow> g < t_generation r \<or> (t_generation r = g \<and> terminal (t_status r)))"

definition known_event :: "cdb \<Rightarrow> claimed_event \<Rightarrow> bool" where
  "known_event db ev \<longleftrightarrow> c_outbox_id ev < outbox_seq db \<and>
     (\<forall>e. event_row db (c_outbox_id ev) = Some e \<longrightarrow> event_of e = (c_task_id ev, c_generation ev)) \<and>
     known_gen db (c_task_id ev) (c_generation ev)"

definition known_lease :: "cdb \<Rightarrow> task_lease \<Rightarrow> bool" where
  "known_lease db L \<longleftrightarrow> known_gen db (l_id L) (l_generation L) \<and> l_attempts L = l_generation L \<and>
     (\<forall>r. task_by_id db (l_id L) = Some r \<longrightarrow> t_max_attempts r = l_max_attempts L)"

lemma known_gen_follow:
  assumes "tasks_follow db db'" and "known_gen db i g"
  shows "known_gen db' i g"
proof -
  have "g \<le> t_generation r'" if "task_by_id db' i = Some r'" for r'
    using tasks_follow_row [OF assms(1) that] assms(2) by (fastforce simp: known_gen_def dest: follows_gen)
  moreover have "i < task_seq db'" using assms by (auto simp: known_gen_def tasks_follow_def)
  ultimately show ?thesis by (simp add: known_gen_def)
qed

lemma settled_gen_follow:
  assumes "tasks_follow db db'" and "settled_gen db i g"
  shows "settled_gen db' i g"
proof -
  have "g < t_generation r' \<or> (t_generation r' = g \<and> terminal (t_status r'))" if "task_by_id db' i = Some r'" for r'
  proof -
    from tasks_follow_row [OF assms(1) that] assms(2) obtain r where r: "task_by_id db i = Some r" "follows r r'"
      by (auto simp: settled_gen_def)
    with assms(2) have "g < t_generation r \<or> (t_generation r = g \<and> terminal (t_status r))"
      by (simp add: settled_gen_def)
    with follows_gen [OF r(2)] follows_terminal [OF r(2)] show ?thesis by auto
  qed
  moreover have "i < task_seq db'" using assms by (auto simp: settled_gen_def tasks_follow_def)
  ultimately show ?thesis by (simp add: settled_gen_def)
qed

lemma known_event_follow:
  assumes "tasks_follow db db'" and "events_grow db db'" and "known_event db ev"
  shows "known_event db' ev"
proof -
  have "event_of e' = (c_task_id ev, c_generation ev)" if "event_row db' (c_outbox_id ev) = Some e'" for e'
    using assms(2,3) that unfolding events_grow_def known_event_def by metis
  with assms known_gen_follow [OF assms(1)] show ?thesis
    by (auto simp: known_event_def events_grow_def)
qed

lemma known_lease_follow:
  assumes "tasks_follow db db'" and "known_lease db L"
  shows "known_lease db' L"
proof -
  have "t_max_attempts r' = l_max_attempts L" if "task_by_id db' (l_id L) = Some r'" for r'
    using tasks_follow_row [OF assms(1) that] assms(2)
    by (auto simp: known_lease_def known_gen_def follows_def same_task_def)
  with assms known_gen_follow [OF assms(1)] show ?thesis by (auto simp: known_lease_def)
qed

lemma settled_iff_stale:
  "known_gen db i g \<Longrightarrow> settled_gen db i g \<longleftrightarrow> is_terminal_or_stale i g db"
  by (auto simp: known_gen_def settled_gen_def is_terminal_or_stale_def split: option.splits)

section \<open>The invariant\<close>

definition in_budget :: "cdb \<Rightarrow> bool" where
  "in_budget db \<longleftrightarrow> (\<forall>r\<in>set (tasks db). t_generation r < t_max_attempts r)"

abbreviation sent_for :: "delivery list \<Rightarrow> int \<Rightarrow> int \<Rightarrow> bool" where
  "sent_for msgs i g \<equiv> \<exists>m\<in>set msgs. m_task_id m = i \<and> m_generation m = g"

definition sent_ok :: "delivery list \<Rightarrow> cdb \<Rightarrow> bool" where
  "sent_ok msgs db \<longleftrightarrow>
     (\<forall>e\<in>set (outbox db). o_published_at e \<noteq> None \<longrightarrow> sent_for msgs (o_task_id e) (o_generation e)) \<and>
     (\<forall>r\<in>set (tasks db). t_status r = RUNNING \<longrightarrow> sent_for msgs (t_id r) (t_generation r))"

definition db_ok :: "delivery list \<Rightarrow> cdb \<Rightarrow> bool" where
  "db_ok msgs db \<longleftrightarrow> ledger_inv db \<and> replay_inv db \<and> in_budget db \<and> sent_ok msgs db"

definition memory_ok :: "sys \<Rightarrow> bool" where
  "memory_ok s \<longleftrightarrow>
     (\<forall>ev\<in>set (claims s). known_event (sys_db s) ev) \<and>
     (\<forall>(ev, i)\<in>set (in_flight s). ev \<in> set (claims s) \<and> message i ev \<in> set (stream s)) \<and>
     (\<forall>m\<in>set (stream s). known_gen (sys_db s) (m_task_id m) (m_generation m)) \<and>
     (\<forall>(L, m)\<in>set (held_leases s). known_lease (sys_db s) L \<and> m \<in> set (stream s) \<and>
        l_id L = m_task_id m \<and> l_generation L = m_generation m) \<and>
     (\<forall>m\<in>set (ack_due s) \<union> set (acked s). m \<in> set (stream s) \<and>
        settled_gen (sys_db s) (m_task_id m) (m_generation m)) \<and>
     distinct (map m_message_id (stream s)) \<and>
     distinct (outcomes s) \<and> (\<forall>(i, g)\<in>set (outcomes s). settled_gen (sys_db s) i g)"

definition sys_inv :: "sys \<Rightarrow> bool" where
  "sys_inv s \<longleftrightarrow> db_ok (stream s) (sys_db s) \<and> memory_ok s"

lemma sys_inv_init: "sys_inv sys_init"
  by (simp add: sys_inv_def db_ok_def memory_ok_def sys_init_def ledger_inv_empty in_budget_def sent_ok_def
      replay_inv_def) (simp add: empty_cdb_def)

text \<open>The memory of the processes survives every growth of the database.\<close>

lemma memory_ok_grow:
  assumes "memory_ok s" and "tasks_follow (sys_db s) db'" and "events_grow (sys_db s) db'"
  shows "memory_ok (s\<lparr>sys_db := db'\<rparr>)"
  using assms(1) known_event_follow [OF assms(2,3)] known_gen_follow [OF assms(2)]
    known_lease_follow [OF assms(2)] settled_gen_follow [OF assms(2)]
  unfolding memory_ok_def by (auto split: prod.splits)

section \<open>Steps that only touch the database\<close>

text \<open>
  A calm change neither raises a generation nor starts a task, and its new tasks are at generation 0.
\<close>

definition calm :: "cdb \<Rightarrow> cdb \<Rightarrow> bool" where
  "calm db db' \<longleftrightarrow> (\<forall>r'\<in>set (tasks db').
     (\<exists>r\<in>set (tasks db). t_id r = t_id r' \<and> t_generation r' = t_generation r \<and> t_max_attempts r' = t_max_attempts r \<and>
        (t_status r' = RUNNING \<longrightarrow> t_status r = RUNNING)) \<or>
     (t_generation r' = 0 \<and> t_status r' \<noteq> RUNNING))"

lemma calm_update:
  assumes "tasks db' = update_where P f (tasks db)"
    and "\<And>r. P r \<Longrightarrow> same_task r (f r) \<and> t_generation (f r) = t_generation r \<and>
      (t_status (f r) = RUNNING \<longrightarrow> t_status r = RUNNING)"
  shows "calm db db'"
  unfolding calm_def
proof
  fix r' assume "r' \<in> set (tasks db')"
  then obtain r where r: "r \<in> set (tasks db)" "r' = (if P r then f r else r)"
    unfolding assms(1) by (auto elim: update_whereE)
  with assms(2) [of r] show "(\<exists>r\<in>set (tasks db). t_id r = t_id r' \<and> t_generation r' = t_generation r \<and>
      t_max_attempts r' = t_max_attempts r \<and> (t_status r' = RUNNING \<longrightarrow> t_status r = RUNNING)) \<or>
      (t_generation r' = 0 \<and> t_status r' \<noteq> RUNNING)"
    by (intro disjI1 bexI [of _ r]) (auto simp: same_task_def)
qed

lemma calm_same: "tasks db' = tasks db \<Longrightarrow> calm db db'"
  by (auto simp: calm_def)

lemma db_ok_calm:
  assumes ok: "db_ok msgs db" and inv: "ledger_inv db'" and calm: "calm db db'"
    and grow: "tasks_move db db'" "none_published db db'" and audit: "replay_inv db'"
  shows "db_ok msgs db'"
proof -
  have "in_budget db'"
    unfolding in_budget_def
  proof
    fix r' assume r': "r' \<in> set (tasks db')"
    then have "0 < t_max_attempts r'" using inv by (auto simp: ledger_inv_defs task_ok_def)
    with calm r' ok show "t_generation r' < t_max_attempts r'"
      by (fastforce simp: calm_def db_ok_def in_budget_def)
  qed
  moreover have "sent_for msgs (t_id r') (t_generation r')"
    if r': "r' \<in> set (tasks db')" "t_status r' = RUNNING" for r'
  proof -
    from calm r' obtain r where "r \<in> set (tasks db)" "t_id r = t_id r'" "t_generation r' = t_generation r" "t_status r = RUNNING"
      by (fastforce simp: calm_def)
    moreover have "\<forall>r\<in>set (tasks db). t_status r = RUNNING \<longrightarrow> sent_for msgs (t_id r) (t_generation r)"
      using ok by (simp add: db_ok_def sent_ok_def)
    ultimately show ?thesis by metis
  qed
  moreover have "sent_for msgs (o_task_id e') (o_generation e')"
    if e': "e' \<in> set (outbox db')" "o_published_at e' \<noteq> None" for e'
  proof -
    from grow(2) e' obtain e where "e \<in> set (outbox db)" "event_of e = event_of e'" "o_published_at e \<noteq> None"
      by (auto simp: none_published_def)
    moreover have "\<forall>e\<in>set (outbox db). o_published_at e \<noteq> None \<longrightarrow> sent_for msgs (o_task_id e) (o_generation e)"
      using ok by (simp add: db_ok_def sent_ok_def)
    ultimately show ?thesis by (metis Pair_inject)
  qed
  ultimately show ?thesis
    using inv audit unfolding db_ok_def sent_ok_def by blast
qed

lemma db_ok_grows:
  assumes "db_ok msgs db" and "ledger_inv db'" and "calm db db'" and "grows db db'"
  shows "db_ok msgs db'"
  using assms replay_inv_grow
  by (intro db_ok_calm [OF assms(1-3)]) (auto simp: grows_def db_ok_def)

lemma db_ok_more: "db_ok msgs db \<Longrightarrow> set msgs \<subseteq> set msgs' \<Longrightarrow> db_ok msgs' db"
  unfolding db_ok_def sent_ok_def by blast

lemma sys_inv_db_step:
  assumes "sys_inv s" and "db_ok (stream s) db'" and "tasks_move (sys_db s) db'" and "events_grow (sys_db s) db'"
  shows "sys_inv (s\<lparr>sys_db := db'\<rparr>)"
  using assms memory_ok_grow [OF _ tasks_move_follow] by (simp add: sys_inv_def)

lemma sys_inv_grows:
  assumes "sys_inv s" and "ledger_inv db'" and "calm (sys_db s) db'" and "grows (sys_db s) db'"
  shows "sys_inv (s\<lparr>sys_db := db'\<rparr>)"
  using assms db_ok_grows [of "stream s" "sys_db s" db']
  by (intro sys_inv_db_step) (auto simp: sys_inv_def grows_def)

lemma create_task_calm:
  assumes "create_task ty p key m prio nra utc now db = Inr (i, db')"
  shows "calm db db'"
proof -
  have "tasks db' = tasks db \<or> (\<exists>run. tasks db' = tasks db @ [(new_task ty p m run key prio None None now)\<lparr>t_id := task_seq db\<rparr>])"
    using assms by (auto simp: create_task_def Let_def insert_task_def split: if_splits option.splits)
  then show ?thesis by (auto simp: calm_def)
qed

lemma claim_ready_calm:
  assumes "ledger_inv db" and "claim_ready b tok cs lk utc now db = Inr (evs, db')"
  shows "calm db db'"
proof (rule calm_update)
  show "tasks db' = update_where (enqueues (select_claimable b lk now db)) (mark_enqueued now) (tasks db)"
    using assms by (auto simp: claim_ready_def claim_rows_eq select_distinct ledger_invD claimed_db_def split: if_splits)
qed simp

lemma replay_one_calm:
  assumes "replay_one meta maxa prio now d db = Inr (res, db')"
  shows "calm db db'"
proof -
  have "tasks db' = tasks db \<or> (\<exists>r. tasks db' = tasks db @ [r] \<and> t_generation r = 0 \<and> t_status r = PENDING)"
    using assms
    by (auto simp: replay_one_def Let_def insert_task_def insert_replay_def split: if_splits option.splits sum.splits)
  then show ?thesis by (auto simp: calm_def)
qed

lemma calm_trans: "calm a b \<Longrightarrow> calm b c \<Longrightarrow> calm a c"
  unfolding calm_def by metis

lemma replay_rows_calm: "replay_rows meta maxa prio now ds db = Inr (rs, db') \<Longrightarrow> calm db db'"
proof (induction ds arbitrary: db rs)
  case (Cons d ds)
  then obtain res db1 rest where "replay_one meta maxa prio now d db = Inr (res, db1)"
    and "replay_rows meta maxa prio now ds db1 = Inr (rest, db')"
    by (auto split: sum.splits)
  with Cons.IH show ?case by (meson calm_trans replay_one_calm)
qed (simp add: calm_same)

lemma purge_calm: "calm db (snd (purge_done db))"
  by (auto simp: calm_def purge_done_def Let_def ball_update_where)

section \<open>Every step keeps the invariant\<close>

lemma sys_inv_parts:
  assumes "sys_inv s"
  shows "ledger_inv (sys_db s)" "replay_inv (sys_db s)" "in_budget (sys_db s)" "sent_ok (stream s) (sys_db s)" "memory_ok s"
  using assms by (auto simp: sys_inv_def db_ok_def)

text \<open>A lease that is granted describes a task the ledger knows, at the generation of the message.\<close>

lemma begin_work_inv:
  assumes inv: "sys_inv s" and m: "m \<in> set (stream s)"
    and lease: "lease_task (m_task_id m) (m_generation m) w secs now (sys_db s) = (Some L, db')"
  shows "sys_inv (s\<lparr>sys_db := db', held_leases := (L, m) # held_leases s\<rparr>)"
proof -
  let ?db = "sys_db s" and ?f = "take_lease w secs now"
  note inv0 = sys_inv_parts(1) [OF inv]
  have inv': "ledger_inv db'"
    using lease_task_inv [OF inv0, of "m_task_id m" "m_generation m" w secs now] lease by simp
  have grow: "grows ?db db'" using lease_task_grows [of ?db "m_task_id m" "m_generation m" w secs now] lease by simp
  obtain r where r: "task_by_id ?db (m_task_id m) = Some r" "leasable now (m_task_id m) (m_generation m) r"
    "task_by_id db' (m_task_id m) = Some (?f r)" "L = lease_of r w (now + seconds secs)"
    using lease_task_outcome [OF inv0, where i = "m_task_id m" and g = "m_generation m" and w = w and s = secs and now = now] lease
    by auto
  have tk: "tasks db' = update_where (leasable now (m_task_id m) (m_generation m)) ?f (tasks ?db)"
    and ob: "outbox db' = outbox ?db"
    using lease by (auto simp: lease_task_def split: option.splits)
  have "in_budget db'"
    using sys_inv_parts(3) [OF inv] unfolding in_budget_def tk ball_update_where
    by (auto simp: take_lease_def)
  moreover have "sent_ok (stream s) db'"
    using sys_inv_parts(4) [OF inv] m unfolding sent_ok_def tk ob ball_update_where
    by (auto simp: leasable_def)
  moreover have "replay_inv db'"
    using replay_inv_grow sys_inv_parts(2) [OF inv] grow by (auto simp: grows_def)
  ultimately have ok: "db_ok (stream s) db'" using inv' by (simp add: db_ok_def)
  have "ledger_inv db' \<Longrightarrow> task_ok r"
    using inv0 r(1) by (auto simp: ledger_inv_defs dest: fetch_key_SomeD)
  then have "l_attempts L = l_generation L" "l_id L = m_task_id m" "l_generation L = m_generation m"
    "l_max_attempts L = t_max_attempts (?f r)"
    using inv' r(2,4) by (auto simp: lease_of_def leasable_def task_ok_def)
  moreover have "m_task_id m < task_seq db'"
    using ledger_task_small [OF inv' r(3)] .
  ultimately have known: "known_lease db' L" "l_id L = m_task_id m" "l_generation L = m_generation m"
    using r(2,3) by (auto simp: known_lease_def known_gen_def leasable_def)
  have "memory_ok (s\<lparr>sys_db := db'\<rparr>)"
    using memory_ok_grow [OF sys_inv_parts(5) [OF inv]] grow tasks_move_follow by (auto simp: grows_def)
  with known m have "memory_ok (s\<lparr>sys_db := db', held_leases := (L, m) # held_leases s\<rparr>)"
    by (simp add: memory_ok_def)
  with ok show ?thesis by (simp add: sys_inv_def)
qed

text \<open>An outcome settles the generation of the lease, which no outcome had settled before.\<close>

lemma outcome_inv:
  assumes inv: "sys_inv s" and L: "(L, m) \<in> set (held_leases s)"
    and before: "leased_by (sys_db s) L" and settled: "is_terminal_or_stale (l_id L) (l_generation L) db'"
    and ok: "db_ok (stream s) db'" and grow: "tasks_move (sys_db s) db'" "events_grow (sys_db s) db'"
  shows "sys_inv (s\<lparr>sys_db := db', ack_due := m # ack_due s, outcomes := (l_id L, l_generation L) # outcomes s\<rparr>)"
proof -
  have mem: "memory_ok (s\<lparr>sys_db := db'\<rparr>)"
    using memory_ok_grow [OF sys_inv_parts(5) [OF inv] tasks_move_follow [OF grow(1)] grow(2)] .
  with L have "known_lease db' L" "m \<in> set (stream s)" "l_id L = m_task_id m" "l_generation L = m_generation m"
    by (auto simp: memory_ok_def)
  moreover from this have new: "settled_gen db' (l_id L) (l_generation L)"
    using settled settled_iff_stale by (simp add: known_lease_def)
  moreover have "\<not> settled_gen (sys_db s) (l_id L) (l_generation L)"
    using before by (auto simp: leased_by_def owns_def settled_gen_def split: option.splits)
  then have "(l_id L, l_generation L) \<notin> set (outcomes s)"
    using sys_inv_parts(5) [OF inv] by (auto simp: memory_ok_def)
  ultimately have "memory_ok (s\<lparr>sys_db := db', ack_due := m # ack_due s,
      outcomes := (l_id L, l_generation L) # outcomes s\<rparr>)"
    using mem by (simp add: memory_ok_def)
  with ok show ?thesis by (simp add: sys_inv_def)
qed

lemma transition_needs:
  assumes inv: "ledger_inv db" and run: "transition_failure L err jit utc now db = (Inr True, db')"
  shows "leased_by db L"
proof (cases rule: transition_failure_cases [of err L jit utc now db])
  case bury
  then have "fst (dead_letter_task L (failure_text (fst (classify err)) err) (fst (classify err)) now db)"
    using run by (auto simp: map_prod_def split: prod.splits)
  then show ?thesis by (rule bury.needs_lease [OF inv])
next
  case overflow
  with run show ?thesis by simp
next
  case (retry delay)
  then have "fst (schedule_retry L (failure_text (fst (classify err)) err) delay (fst (classify err)) utc now db)"
    using run by (auto simp: map_prod_def split: prod.splits)
  then show ?thesis by (rule retry.needs_lease [OF inv])
qed

lemma failure_tasks:
  assumes "ledger_inv db" and "transition_failure L err jit utc now db = (Inr True, db')"
  obtains (buried) f where "tasks db' = update_where (owns L) f (tasks db)"
      "\<And>r. same_task r (f r)" "\<And>r. t_generation (f r) = t_generation r" "\<And>r. t_status (f r) = DEAD_LETTER"
  | (retried) f where "tasks db' = update_where (owns L) f (tasks db)" "l_attempts L + 1 < l_max_attempts L"
      "\<And>r. same_task r (f r)" "\<And>r. t_generation (f r) = t_generation r + 1" "\<And>r. t_status (f r) = RETRY_SCHEDULED"
proof (cases rule: transition_failure_cases [of err L jit utc now db])
  case bury
  show thesis
  proof (rule buried)
    show "tasks db' = update_where (owns L)
        (mark_dead (failure_text (fst (classify err)) err) (fst (classify err)) now) (tasks db)"
      using bury assms(2)
      by (auto simp: dead_letter_task_def Let_def map_prod_def split: option.splits prod.splits)
  qed simp_all
next
  case overflow
  with assms(2) show thesis by simp
next
  case (retry delay)
  show thesis
  proof (rule retried)
    show "tasks db' = update_where (owns L)
        (mark_retry (utc + delay_us delay) (failure_text (fst (classify err)) err) (fst (classify err)) now) (tasks db)"
      using retry assms(2)
      by (auto simp: schedule_retry_def Let_def map_prod_def split: option.splits prod.splits)
    show "l_attempts L + 1 < l_max_attempts L" using retry by simp
  qed simp_all
qed

lemma failure_db_ok:
  assumes inv: "sys_inv s" and L: "(L, m) \<in> set (held_leases s)"
    and run: "transition_failure L err jit utc now (sys_db s) = (Inr True, db')"
  shows "db_ok (stream s) db'"
proof -
  let ?db = "sys_db s"
  note inv0 = sys_inv_parts(1) [OF inv]
  have inv': "ledger_inv db'" using transition_failure_inv [OF inv0, of L err jit utc now] run by simp
  have grow: "grows ?db db'" using transition_failure_grows [of ?db L err jit utc now] run by simp
  from inv0 run show ?thesis
  proof (cases rule: failure_tasks)
    case (buried f)
    then have "calm ?db db'" by (intro calm_update [where P = "owns L" and f = f]) auto
    then show ?thesis using db_ok_grows [OF _ inv' _ grow] inv by (simp add: sys_inv_def)
  next
    case (retried f)
    have lease: "l_attempts L = l_generation L"
      "\<And>r. task_by_id ?db (l_id L) = Some r \<Longrightarrow> t_max_attempts r = l_max_attempts L"
      using sys_inv_parts(5) [OF inv] L by (auto simp: memory_ok_def known_lease_def)
    have "t_generation (f r) < t_max_attempts (f r)" if "r \<in> set (tasks ?db)" "owns L r" for r
    proof -
      have "task_by_id ?db (l_id L) = Some r"
        using ledger_task_by_id [OF inv0 that(1)] that(2) by (simp add: owns_def)
      with lease retried(2,4) retried(3) [of r] that(2) show ?thesis by (simp add: owns_def same_task_def)
    qed
    then have "in_budget db'"
      using sys_inv_parts(3) [OF inv] unfolding in_budget_def retried(1) ball_update_where by simp
    moreover have "sent_ok (stream s) db'"
    proof -
      have "\<forall>r\<in>set (tasks db'). t_status r = RUNNING \<longrightarrow> sent_for (stream s) (t_id r) (t_generation r)"
        using sys_inv_parts(4) [OF inv] unfolding retried(1) ball_update_where sent_ok_def
        by (simp add: retried(5))
      moreover have "none_published ?db db'" using grow by (simp add: grows_def)
      then have "\<forall>e\<in>set (outbox db'). o_published_at e \<noteq> None \<longrightarrow> sent_for (stream s) (o_task_id e) (o_generation e)"
        using sys_inv_parts(4) [OF inv] unfolding none_published_def sent_ok_def by (metis Pair_inject)
      ultimately show ?thesis by (simp add: sent_ok_def)
    qed
    moreover have "replay_inv db'"
      using replay_inv_grow sys_inv_parts(2) [OF inv] grow by (auto simp: grows_def)
    ultimately show ?thesis using inv' by (simp add: db_ok_def)
  qed
qed

lemma publish_db_ok:
  assumes inv: "sys_inv s" and ev: "(ev, i) \<in> set (in_flight s)"
    and run: "publish_claimed ev (Inr i) now (sys_db s) = (res, db')"
  shows "db_ok (stream s) db'"
proof -
  let ?db = "sys_db s"
  note inv0 = sys_inv_parts(1) [OF inv]
  have inv': "ledger_inv db'" using publish_claimed_inv [OF inv0, of ev "Inr i" now] run by simp
  have db': "tasks db' = tasks ?db" "outbox db' = update_where (holds_claim ev) (mark_published i now) (outbox ?db)"
    using run by (auto simp: publish_claimed_def Let_def split: if_splits)
  have sent: "message i ev \<in> set (stream s)" "known_event ?db ev"
    using sys_inv_parts(5) [OF inv] ev by (auto simp: memory_ok_def)
  have "sent_for (stream s) (o_task_id e) (o_generation e)" if e: "e \<in> set (outbox ?db)" "holds_claim ev e" for e
  proof -
    have "event_row ?db (c_outbox_id ev) = Some e"
      using fetch_key_unique [OF ledger_invD(8) [OF inv0] e(1)] e(2) by (simp add: holds_claim_def)
    with sent(2) have "event_of e = (c_task_id ev, c_generation ev)" by (simp add: known_event_def)
    then show ?thesis using sent(1) by (intro bexI [of _ "message i ev"]) (auto simp: message_def)
  qed
  then have "sent_ok (stream s) db'"
    using sys_inv_parts(4) [OF inv] unfolding sent_ok_def db' ball_update_where by auto
  moreover have "replay_inv db'"
    using replay_inv_grow [OF sys_inv_parts(2) [OF inv]] publish_claimed_grows [of ?db ev "Inr i" now] run by simp
  moreover have "in_budget db'" using sys_inv_parts(3) [OF inv] by (simp add: in_budget_def db')
  ultimately show ?thesis using inv' by (simp add: db_ok_def)
qed

lemma replay_db_ok:
  assumes inv: "sys_inv s" and run: "replay sel limit maxa prio lk now (sys_db s) = Inr (rs, db')"
  shows "db_ok (stream s) db'"
proof -
  let ?db = "sys_db s"
  have args: "0 < limit" "0 < maxa" using run by (auto simp: replay_def split: if_splits)
  obtain sel' where sel: "replay sel limit maxa prio lk now ?db = replay (Some sel') limit maxa prio lk now ?db"
  proof (cases sel)
    case None
    then show thesis using that [of any_selector] by (simp add: replay_def any_selector_def)
  next
    case (Some s')
    then show thesis using that [of s'] by simp
  qed
  then have inv': "ledger_inv db'" "replay_inv db'"
    using replay_outcome [OF sys_inv_parts(1,2) [OF inv] args, of sel' prio lk now] run by auto
  have "calm ?db db'"
    using run replay_rows_calm by (auto simp: replay_def Let_def split: if_splits)
  then show ?thesis
    using db_ok_calm [OF _ inv'(1) _ replay_grows(1,3) [OF run] inv'(2)] inv by (simp add: sys_inv_def)
qed

lemma sys_step_inv:
  assumes "sys_inv s" and "sys_step s t"
  shows "sys_inv t"
  using assms(2)
proof cases
  case (submit ty p key maxa prio nra utc now i db')
  then show ?thesis
    using assms(1) create_task_inv create_task_calm create_task_grows sys_inv_parts(1) [OF assms(1)]
    by (auto intro!: sys_inv_grows)
next
  case (claim b tok cs lk utc now evs db')
  note inv0 = sys_inv_parts(1) [OF assms(1)]
  have base: "sys_inv (s\<lparr>sys_db := db'\<rparr>)"
    using claim assms(1) inv0 claim_ready_inv claim_ready_calm claim_ready_grows by (auto intro!: sys_inv_grows)
  have "known_event db' ev" if "ev \<in> set evs" for ev
  proof -
    from claim_ready_outcome [OF inv0 claim(2)] that
    obtain e r where e: "event_row db' (c_outbox_id ev) = Some e" "event_of e = (c_task_id ev, c_generation ev)"
      and r: "task_by_id db' (c_task_id ev) = Some r" "t_generation r = c_generation ev" and inv': "ledger_inv db'"
      by (auto simp: claim_visible_def)
    moreover have "c_outbox_id ev < outbox_seq db'"
      using ledger_event_small [OF inv' e(1)] .
    ultimately show ?thesis
      using ledger_task_small by (simp add: known_event_def known_gen_def)
  qed
  with base claim show ?thesis by (auto simp: sys_inv_def memory_ok_def)
next
  case (xadd ev i)
  have "known_event (sys_db s) ev" using sys_inv_parts(5) [OF assms(1)] xadd by (simp add: memory_ok_def)
  then have "known_gen (sys_db s) (m_task_id (message i ev)) (m_generation (message i ev))"
    by (simp add: known_event_def message_def)
  moreover have "m_message_id (message i ev) = i" by (simp add: message_def)
  ultimately have "memory_ok t"
    using sys_inv_parts(5) [OF assms(1)] xadd by (auto simp: memory_ok_def)
  moreover have "db_ok (stream t) (sys_db t)"
    using assms(1) xadd db_ok_more [of "stream s" "sys_db s" "stream t"] by (auto simp: sys_inv_def)
  ultimately show ?thesis by (simp add: sys_inv_def)
next
  case (publish ev i now res db')
  then show ?thesis
    using publish_db_ok [OF assms(1)] publish_claimed_grows [of "sys_db s" ev "Inr i" now] assms(1)
    by (auto intro!: sys_inv_db_step)
next
  case (give_back ev err)
  have "calm (sys_db s) (record_failure ev err (sys_db s))" by (simp add: calm_same record_failure_def)
  then show ?thesis
    using give_back assms(1) record_failure_inv record_failure_grows sys_inv_parts(1) [OF assms(1)]
    by (auto intro!: sys_inv_grows)
next
  case (begin_work m w secs now L db')
  then show ?thesis using begin_work_inv [OF assms(1)] by simp
next
  case (skip m)
  then have "settled_gen (sys_db s) (m_task_id m) (m_generation m)"
    using sys_inv_parts(5) [OF assms(1)] settled_iff_stale by (auto simp: memory_ok_def)
  with skip assms(1) show ?thesis by (auto simp: sys_inv_def memory_ok_def)
next
  case (heartbeat L m secs now b db')
  then have db': "db' = snd (renew_lease L secs now (sys_db s))" by simp
  have "calm (sys_db s) db'"
    unfolding db' by (rule calm_update [where P = "renewable L now" and f = "extend_lease secs now"])
      (simp_all add: renew_lease_def)
  then show ?thesis
    using heartbeat(1) assms(1) renew_lease_inv renew_lease_grows sys_inv_parts(1) [OF assms(1)]
    unfolding db' by (auto intro!: sys_inv_grows)
next
  case (cancel L m now b db')
  then have db': "db' = snd (release_for_recovery L now (sys_db s))" by simp
  have "calm (sys_db s) db'"
    unfolding db' by (rule calm_update [where P = "owns L" and f = "requeue now"])
      (simp_all add: release_for_recovery_def)
  then show ?thesis
    using cancel(1) assms(1) release_inv release_grows sys_inv_parts(1) [OF assms(1)]
    unfolding db' by (auto intro!: sys_inv_grows)
next
  case (finish L m meta now db')
  note inv0 = sys_inv_parts(1) [OF assms(1)]
  have db': "db' = snd (complete_task L meta now (sys_db s))" "fst (complete_task L meta now (sys_db s))"
    using finish by simp_all
  have "calm (sys_db s) db'"
    unfolding db' by (rule calm_update [where P = "owns L" and f = "mark_done meta now"])
      (simp_all add: complete_task_def)
  moreover have "ledger_inv db'" "grows (sys_db s) db'"
    unfolding db' using complete_task_inv [OF inv0] complete_task_grows by simp_all
  ultimately have "db_ok (stream s) db'" using db_ok_grows assms(1) unfolding sys_inv_def by blast
  then show ?thesis
    using outcome_inv [OF assms(1) finish(2) complete.needs_lease [OF inv0 db'(2)] complete_settles [OF inv0 finish(3)]]
      \<open>grows (sys_db s) db'\<close> finish(1) by (simp add: grows_def)
next
  case (failed L m err jit utc now db')
  note inv0 = sys_inv_parts(1) [OF assms(1)]
  have "grows (sys_db s) db'" using transition_failure_grows [of "sys_db s" L err jit utc now] failed(3) by simp
  moreover have "leased_by (sys_db s) L" by (rule transition_needs [OF inv0 failed(3)])
  ultimately show ?thesis
    using outcome_inv [OF assms(1) failed(2) _ transition_settles [OF inv0 failed(3)] failure_db_ok [OF assms(1) failed(2,3)]]
      failed(1) by (simp add: grows_def)
next
  case (ack m)
  with assms(1) show ?thesis by (auto simp: sys_inv_def memory_ok_def)
next
  case (replay_step sel limit maxa prio lk now rs db')
  then show ?thesis
    using replay_db_ok [OF assms(1)] replay_grows assms(1) by (auto intro!: sys_inv_db_step)
next
  case purge
  then show ?thesis
    using assms(1) purge_done_inv purge_done_grows purge_calm sys_inv_parts(1) [OF assms(1)]
    by (auto intro!: sys_inv_grows)
qed

interpretation control_plane: safe_system sys_init sys_step sys_inv
  by unfold_locales (auto intro: sys_inv_init sys_step_inv)

end
