(* ===== verification/SystemProps.thy ===== *)
theory SystemProps
  imports System
begin

text \<open>
  What the control plane guarantees in every state it can reach, whatever the interleaving of its
  processes: attempts stay within their budget, every generation is settled at most once, no task is
  lost or stuck, and every task follows its life cycle.
\<close>

lemma acked_settled:
  assumes "memory_ok s" and "m \<in> set (ack_due s) \<or> m \<in> set (acked s)"
  shows "m \<in> set (stream s)" and "settled_gen (sys_db s) (m_task_id m) (m_generation m)"
  using assms unfolding memory_ok_def by blast+

section \<open>Sample runs\<close>

definition sample_submitted :: sys where
  "sample_submitted = sys_init\<lparr>sys_db := pending_db\<rparr>"

definition sample_claims :: "claimed_event list" where
  "sample_claims = fst (claim_rows ''tok'' (5 + seconds 30) 5 [sample_event] pending_db)"

definition sample_claimed :: sys where
  "sample_claimed = sample_submitted\<lparr>sys_db := snd (claim_rows ''tok'' (5 + seconds 30) 5 [sample_event] pending_db),
     claims := sample_claims\<rparr>"

abbreviation reachable :: "sys \<Rightarrow> bool" where
  "reachable \<equiv> reachable_from sys_step sys_init"

lemma sample_submit: "sys_step sys_init sample_submitted"
proof -
  have "create_task ''CAPABILITY_REQUEST'' [] ''k'' 5 100 None 0 0 (sys_db sys_init) = Inr (1, pending_db)"
    by (simp add: create_task_def Let_def insert_task_def insert_event_def sys_init_def sample_defs)
  from sys_step.submit [OF this] show ?thesis by (simp add: sample_submitted_def)
qed

lemma sample_claim: "sys_step sample_submitted sample_claimed"
proof -
  have "select_claimable 100 [] 5 pending_db = [sample_event]"
    by (simp add: select_claimable_def claimable_def sample_defs)
  then have "claim_ready 100 ''tok'' 30 [] 5 5 (sys_db sample_submitted)
      = Inr (sample_claims, sys_db sample_claimed)"
    by (simp add: claim_ready_def sample_submitted_def sample_claimed_def sample_claims_def)
  from sys_step.claim [OF this] show ?thesis
    by (simp add: sample_claimed_def sample_submitted_def sys_init_def)
qed

lemma sample_reachable: "reachable sample_submitted" "reachable sample_claimed"
  using sample_submit sample_claim by (blast intro: reachable_from.intros)+

lemma sample_db: "sys_db sample_submitted = pending_db" "task_by_id pending_db 1 = Some sample_task"
  by (simp_all add: sample_submitted_def sample_defs)

section \<open>Safety\<close>

lemmas reachable_inv = control_plane.inv_reachable

text \<open>
  C8: The retry budget: in every reachable state every task has counted between 0 and \<open>max_attempts\<close>
  attempts, has exhausted them only as a dead letter, and is at a generation below \<open>max_attempts\<close>, so no
  task is ever handed out for a delivery beyond its budget.
\<close>

theorem attempts_in_budget:
  assumes "reachable s" and "task_by_id (sys_db s) i = Some r"
  shows "0 \<le> t_attempts r \<and> t_attempts r \<le> t_max_attempts r \<and> t_generation r < t_max_attempts r \<and>
    (t_attempts r = t_max_attempts r \<longrightarrow> t_status r = DEAD_LETTER)"
proof -
  have "r \<in> set (tasks (sys_db s))" using assms(2) by (auto dest: fetch_key_SomeD)
  then have "task_ok r" "t_generation r < t_max_attempts r"
    using sys_inv_parts(1,3) [OF reachable_inv [OF assms(1)]] by (auto simp: ledger_inv_defs in_budget_def)
  then show ?thesis by (auto simp: task_ok_def split: if_splits)
qed

theorem attempts_in_budget_witness: "t_attempts sample_task \<le> t_max_attempts sample_task"
  using attempts_in_budget [OF sample_reachable(1), of 1 sample_task] by (simp add: sample_db)

text \<open>
  C3: Exactly-once settlement: however often a message is delivered and however many workers hold a lease of the
  same task, each generation of a task is completed, retried or dead-lettered by a worker at most once, and a
  generation once settled stays settled.
\<close>

theorem settled_at_most_once:
  assumes "reachable s"
  shows "distinct (outcomes s) \<and> (\<forall>(i, g)\<in>set (outcomes s). \<forall>r. task_by_id (sys_db s) i = Some r \<longrightarrow>
    g < t_generation r \<or> (t_generation r = g \<and> terminal (t_status r)))"
  using sys_inv_parts(5) [OF reachable_inv [OF assms]]
  by (fastforce simp: memory_ok_def settled_gen_def)

theorem settled_at_most_once_witness: "distinct (outcomes sample_claimed)"
  using settled_at_most_once [OF sample_reachable(2)] by simp

text \<open>
  C1: No task is lost: for every task that is not finished, the event of its current generation is still
  unpublished in the outbox, or a message for it is in the stream and nobody has acknowledged it or is about to.
\<close>

theorem no_task_lost:
  assumes "reachable s" and "task_by_id (sys_db s) i = Some r" and "\<not> terminal (t_status r)"
  shows "(\<exists>e. outbox_event (sys_db s) i (t_generation r) = Some e \<and> o_published_at e = None) \<or>
    (\<exists>m\<in>set (stream s). m_task_id m = i \<and> m_generation m = t_generation r \<and>
       m \<notin> set (acked s) \<and> m \<notin> set (ack_due s))"
proof -
  note inv = reachable_inv [OF assms(1)]
  from assms(2) have r: "r \<in> set (tasks (sys_db s))" "t_id r = i" by (auto dest: fetch_key_SomeD)
  with sys_inv_parts(1) [OF inv] obtain e where e: "outbox_event (sys_db s) i (t_generation r) = Some e"
    by (auto simp: ledger_inv_defs task_linked_def)
  then have ev: "e \<in> set (outbox (sys_db s))" "event_of e = (i, t_generation r)" by (auto dest: fetch_key_SomeD)
  show ?thesis
  proof (cases "o_published_at e")
    case None
    with e show ?thesis by blast
  next
    case (Some t)
    then obtain m where m: "m \<in> set (stream s)" "m_task_id m = i" "m_generation m = t_generation r"
      using sys_inv_parts(4) [OF inv] ev by (auto simp: sent_ok_def)
    have "\<not> settled_gen (sys_db s) i (t_generation r)"
      using assms(2,3) by (auto simp: settled_gen_def)
    with m have "m \<notin> set (acked s) \<and> m \<notin> set (ack_due s)"
      using acked_settled [OF sys_inv_parts(5) [OF inv], of m] by auto
    with m show ?thesis by blast
  qed
qed

theorem no_task_lost_witness:
  "\<exists>e. outbox_event pending_db 1 0 = Some e \<and> o_published_at e = None"
proof -
  have "\<not> terminal (t_status sample_task)" "t_generation sample_task = 0" "stream sample_submitted = []"
    by (simp_all add: sample_defs sample_submitted_def sys_init_def)
  then show ?thesis using no_task_lost [OF sample_reachable(1), of 1 sample_task] by (simp add: sample_db)
qed

section \<open>The life cycle\<close>

lemma sys_step_moves:
  assumes "sys_inv s" and "sys_step s t"
  shows "tasks_move (sys_db s) (sys_db t)"
  using assms(2)
proof cases
  case (submit ty p key maxa prio nra utc now i db')
  then show ?thesis using create_task_grows sys_inv_parts(1) [OF assms(1)] by (auto simp: grows_def)
next
  case (claim b tok cs lk utc now evs db')
  then show ?thesis using claim_ready_grows sys_inv_parts(1) [OF assms(1)] by (auto simp: grows_def)
next
  case (publish ev i now res db')
  then show ?thesis using publish_claimed_grows(1) [of "sys_db s" ev "Inr i" now] by simp
next
  case (give_back ev err)
  then show ?thesis using record_failure_grows by (auto simp: grows_def)
next
  case (begin_work m w secs now L db')
  then show ?thesis
    using lease_task_grows [of "sys_db s" "m_task_id m" "m_generation m" w secs now] by (simp add: grows_def)
next
  case (heartbeat L m secs now b db')
  then show ?thesis using renew_lease_grows [of "sys_db s" L secs now] by (simp add: grows_def)
next
  case (cancel L m now b db')
  then show ?thesis using release_grows [of "sys_db s" L now] by (simp add: grows_def)
next
  case (finish L m meta now db')
  then show ?thesis using complete_task_grows [of "sys_db s" L meta now] by (simp add: grows_def)
next
  case (failed L m err jit utc now db')
  then show ?thesis using transition_failure_grows [of "sys_db s" L err jit utc now] by (simp add: grows_def)
next
  case (replay_step sel limit maxa prio lk now rs db')
  then show ?thesis using replay_grows(1) by auto
next
  case purge
  then show ?thesis using purge_done_grows sys_inv_parts(1) [OF assms(1)] by (auto simp: grows_def)
qed simp_all

text \<open>
  C9: Refinement of the life cycle: every step of the system moves each existing task along at most one edge of
  the automaton \<open>PENDING/RETRY_SCHEDULED \<rightarrow> ENQUEUED \<rightarrow> RUNNING \<rightarrow> DONE | DEAD_LETTER | ENQUEUED | RETRY_SCHEDULED\<close>
  (the last one generation further), changes neither its key, type, payload nor budget, and removes it only
  when it is \<open>DONE\<close>.
\<close>

theorem step_refines_life_cycle:
  assumes "reachable s" and "sys_step s t" and "task_by_id (sys_db s) i = Some r"
  shows "case task_by_id (sys_db t) i of
      None \<Rightarrow> t_status r = DONE
    | Some r' \<Rightarrow> same_task r r' \<and> (life r' = life r \<or> life_step (life r) (life r'))"
proof -
  have inv: "sys_inv s" by (rule reachable_inv [OF assms(1)])
  then have "i < task_seq (sys_db s)"
    using ledger_task_small [OF sys_inv_parts(1)] assms(3) by blast
  with sys_step_moves [OF inv assms(2)] have "moves_opt (Some r) (task_by_id (sys_db t) i)"
    unfolding tasks_move_def assms(3) [symmetric] by blast
  then show ?thesis by (auto simp: moves_def split: option.splits)
qed

theorem step_refines_life_cycle_witness:
  "\<exists>r'. task_by_id (sys_db sample_claimed) 1 = Some r' \<and> life_step (PENDING, 0) (life r')"
proof -
  have "task_by_id (sys_db sample_submitted) 1 = Some sample_task" by (simp add: sample_db)
  note step = step_refines_life_cycle [OF sample_reachable(1) sample_claim this]
  have "\<exists>r'. task_by_id (sys_db sample_claimed) 1 = Some r' \<and> t_status r' = ENQUEUED"
    by (simp add: sample_claimed_def sample_defs awaits_enqueue_def)
  with step show ?thesis by (auto simp: sample_task_def life_step_simps)
qed

text \<open>
  C10: Terminal states are final and generations only grow: from any reachable state on, a dead-lettered task stays
  dead-lettered at its generation for ever, a finished one stays finished or is purged, its id is never used for
  another task, and no later state has a task at an earlier generation or under another key.
\<close>

theorem terminal_for_ever:
  assumes "reachable s" and run: "reachable_from sys_step s t" and "task_by_id (sys_db s) i = Some r"
  shows "case task_by_id (sys_db t) i of
      None \<Rightarrow> t_status r \<noteq> DEAD_LETTER
    | Some r' \<Rightarrow> t_generation r \<le> t_generation r' \<and> t_idempotency_key r' = t_idempotency_key r \<and>
        (terminal (t_status r) \<longrightarrow> life r' = life r)"
proof -
  have inv: "sys_inv s" by (rule reachable_inv [OF assms(1)])
  have "tasks_follow (sys_db s) (sys_db t)"
    using run inv
  proof (rule control_plane.run_preserves)
    fix u v assume u: "sys_inv u" "sys_step u v" "tasks_follow (sys_db s) (sys_db u)"
    then show "tasks_follow (sys_db s) (sys_db v)"
      using sys_step_moves tasks_move_follow tasks_follow_trans by blast
  qed simp
  moreover have "i < task_seq (sys_db s)"
    using ledger_task_small [OF sys_inv_parts(1) [OF inv] assms(3)] .
  ultimately have steps: "moves_opt\<^sup>*\<^sup>* (Some r) (task_by_id (sys_db t) i)"
    unfolding tasks_follow_def assms(3) [symmetric] by blast
  show ?thesis
  proof (cases "task_by_id (sys_db t) i")
    case None
    with moves_opt_terminal [OF steps] show ?thesis by auto
  next
    case (Some r')
    with moves_opt_back [of "Some r" r'] steps have f: "follows r r'" by simp
    then have "t_idempotency_key r' = t_idempotency_key r" by (simp add: follows_def same_task_def)
    with Some follows_gen [OF f] follows_terminal [OF f] show ?thesis by simp
  qed
qed

theorem terminal_for_ever_witness:
  "\<exists>r'. task_by_id (sys_db sample_claimed) 1 = Some r' \<and> 0 \<le> t_generation r' \<and> t_idempotency_key r' = ''k''"
proof -
  have "task_by_id (sys_db sample_submitted) 1 = Some sample_task" by (simp add: sample_db)
  note run = terminal_for_ever [OF sample_reachable(1) reachable_from_one [where step = sys_step, OF sample_claim] this]
  have "\<exists>r'. task_by_id (sys_db sample_claimed) 1 = Some r'"
    by (simp add: sample_claimed_def sample_defs awaits_enqueue_def)
  with run show ?thesis by (auto simp: sample_task_def new_task_def)
qed

section \<open>Replays\<close>

text \<open>No step touches a dead letter that has been replayed.\<close>

lemma sys_step_archive:
  assumes "sys_inv s" and "sys_step s t" and "archived (sys_db s) i = Some d" and "d_replayed_at d \<noteq> None"
  shows "archived (sys_db t) i = Some d"
  using assms(2)
proof cases
  case (submit ty p key maxa prio nra utc now j db')
  then show ?thesis
    using grows_archive [OF create_task_grows [OF sys_inv_parts(1) [OF assms(1)]] assms(3)] by simp
next
  case (claim b tok cs lk utc now evs db')
  then show ?thesis
    using grows_archive [OF claim_ready_grows [OF sys_inv_parts(1) [OF assms(1)]] assms(3)] by simp
next
  case (publish ev j now res db')
  then show ?thesis
    using publish_claimed_grows(3) [of "sys_db s" ev "Inr j" now] assms(3) by (simp add: dead_grow_def)
next
  case (give_back ev err)
  then show ?thesis using grows_archive [OF record_failure_grows assms(3)] by simp
next
  case (begin_work m w secs now L db')
  then show ?thesis
    using grows_archive [OF lease_task_grows assms(3), of "m_task_id m" "m_generation m" w secs now] by simp
next
  case (heartbeat L m secs now b db')
  then show ?thesis using grows_archive [OF renew_lease_grows assms(3), of L secs now] by simp
next
  case (cancel L m now b db')
  then show ?thesis using grows_archive [OF release_grows assms(3), of L now] by simp
next
  case (finish L m meta now db')
  then show ?thesis using grows_archive [OF complete_task_grows assms(3), of L meta now] by simp
next
  case (failed L m err jit utc now db')
  then show ?thesis using grows_archive [OF transition_failure_grows assms(3), of L err jit utc now] by simp
next
  case (replay_step sel limit maxa prio lk now rs db')
  then show ?thesis using replay_marks(4) [OF sys_inv_parts(1,2) [OF assms(1)] _ assms(3,4)] by simp
next
  case purge
  then show ?thesis
    using grows_archive [OF purge_done_grows [OF sys_inv_parts(1) [OF assms(1)]] assms(3)] by simp
qed (use assms(3) in simp_all)

lemma run_archive:
  assumes run: "reachable_from sys_step s t" and inv: "sys_inv s"
    and d: "archived (sys_db s) i = Some d" "d_replayed_at d \<noteq> None"
  shows "archived (sys_db t) i = Some d"
  using run inv
proof (rule control_plane.run_preserves)
  show "archived (sys_db v) i = Some d" if "sys_inv u" "sys_step u v" "archived (sys_db u) i = Some d" for u v
    by (rule sys_step_archive [OF that d(2)])
qed (rule d(1))

text \<open>
  C28: A dead letter is replayed at most once: one run of the replay service takes no dead letter twice, and no other run at any
  later time, whatever happens in between and whatever its selector, takes one that an earlier run took. From then on the
  archive keeps the row with the id of the one task that replays it.
\<close>

theorem replayed_at_most_once:
  assumes "reachable s" and first: "replay sel limit maxa prio lk now (sys_db s) = Inr (rs, db1)"
    and run: "reachable_from sys_step (s\<lparr>sys_db := db1\<rparr>) t"
    and again: "replay sel' limit' maxa' prio' lk' now' (sys_db t) = Inr (rs', db2)"
  shows "distinct (map res_dead_letter_id rs) \<and>
    set (map res_dead_letter_id rs) \<inter> set (map res_dead_letter_id rs') = {} \<and>
    (\<forall>x\<in>set rs. \<exists>d\<in>set (dead_letters (sys_db t)). d_id d = res_dead_letter_id x \<and>
       d_replayed_at d = Some now \<and> d_replay_task_id d = Some (res_task_id x))"
proof -
  have s: "sys_inv s" by (rule reachable_inv [OF assms(1)])
  let ?s = "s\<lparr>sys_db := db1\<rparr>"
  have s1: "sys_inv ?s" by (rule control_plane.inv_step [OF s sys_step.replay_step [OF first]])
  have t: "sys_inv t" by (rule control_plane.inv_from [OF run s1])
  note one = replay_marks [OF sys_inv_parts(1,2) [OF s] first]
  note two = replay_marks [OF sys_inv_parts(1,2) [OF t] again]
  have kept: "\<exists>d. archived (sys_db t) (res_dead_letter_id x) = Some d \<and> d_replayed_at d = Some now \<and>
      d_replay_task_id d = Some (res_task_id x)" if "x \<in> set rs" for x
    using one(3) [OF that] run_archive [OF run s1] by fastforce
  have "res_dead_letter_id x \<noteq> res_dead_letter_id y" if "x \<in> set rs" "y \<in> set rs'" for x y
    using kept [OF that(1)] two(2) [OF that(2)] by auto
  then have "set (map res_dead_letter_id rs) \<inter> set (map res_dead_letter_id rs') = {}" by auto
  moreover have "\<exists>d\<in>set (dead_letters (sys_db t)). d_id d = res_dead_letter_id x \<and>
      d_replayed_at d = Some now \<and> d_replay_task_id d = Some (res_task_id x)" if "x \<in> set rs" for x
    using kept [OF that] by (auto dest: fetch_key_SomeD)
  ultimately show ?thesis using one(1) by blast
qed

text \<open>A run that ends with a dead letter.\<close>

definition sample_message :: delivery where
  "sample_message = \<lparr>m_message_id = ''1-0'', m_task_id = 1, m_generation = 0\<rparr>"

definition sample_sent :: sys where
  "sample_sent = sample_claimed\<lparr>stream := [sample_message], in_flight := [(hd sample_claims, ''1-0'')]\<rparr>"

definition sample_lease :: "task_lease option \<times> cdb" where
  "sample_lease = lease_task 1 0 ''worker-1'' 120 10 (sys_db sample_sent)"

definition sample_working :: sys where
  "sample_working = sample_sent\<lparr>sys_db := snd sample_lease, held_leases := [(the (fst sample_lease), sample_message)]\<rparr>"

definition sample_burial :: "(exc + bool) \<times> cdb" where
  "sample_burial = transition_failure (the (fst sample_lease)) (Collection PermanentTaskFailure ''boom'' None) 0 20 20 (snd sample_lease)"

definition sample_buried :: sys where
  "sample_buried = sample_working\<lparr>sys_db := snd sample_burial, ack_due := [sample_message], outcomes := [(1, 0)]\<rparr>"

lemmas sample_run = sample_message_def sample_sent_def sample_claimed_def sample_claims_def sample_submitted_def
  sample_lease_def sample_working_def sample_burial_def sample_buried_def sys_init_def

lemma sample_buried_reachable: "reachable sample_buried"
proof -
  have "sys_step sample_claimed sample_sent"
  proof -
    have "hd sample_claims \<in> set (claims sample_claimed)" "message ''1-0'' (hd sample_claims) = sample_message"
      by (simp_all add: sample_run sample_defs message_def claimed_of_def)
    from sys_step.xadd [OF this(1), of "''1-0''"] this(2) show ?thesis
      by (simp add: sample_run)
  qed
  moreover have lease: "sample_lease = (Some (the (fst sample_lease)), snd sample_lease)"
    by (simp add: sample_run lease_task_def leasable_def sample_defs awaits_enqueue_def)
  have "sys_step sample_sent sample_working"
    unfolding sample_working_def
    using sys_step.begin_work [of sample_message sample_sent "''worker-1''" 120 10 "the (fst sample_lease)" "snd sample_lease"] lease
    by (simp add: sample_lease_def) (simp add: sample_run)
  moreover have "sys_step sample_working sample_buried"
  proof -
    have run: "transition_failure (the (fst sample_lease)) (Collection PermanentTaskFailure ''boom'' None) 0 20 20 (sys_db sample_working)
        = (Inr True, snd sample_burial)"
      by (simp add: sample_run sample_defs lease_task_def leasable_def awaits_enqueue_def transition_failure_def
          classify_def retryable_def dead_letter_task_def owns_def Let_def)
    have held: "(the (fst sample_lease), sample_message) \<in> set (held_leases sample_working)"
      by (simp add: sample_working_def)
    have named: "l_id (the (fst sample_lease)) = 1" "l_generation (the (fst sample_lease)) = 0"
      by (simp_all add: sample_run sample_defs lease_task_def leasable_def awaits_enqueue_def)
    have "ack_due sample_working = []" "outcomes sample_working = []" by (simp_all add: sample_run)
    then show ?thesis
      using sys_step.failed [OF held run] by (simp add: sample_buried_def named)
  qed
  ultimately show ?thesis using sample_reachable(2) by (blast intro: reachable_from.next_step)
qed

text \<open>The two runs of the witness have a purge between them; the first takes the dead letter, the second nothing.\<close>

theorem replayed_at_most_once_witness:
  "\<exists>x db1. replay None 100 5 50 [] 30 (sys_db sample_buried) = Inr ([x], db1) \<and>
    (\<exists>rs' db2. replay None 100 5 50 [] 40 (snd (purge_done db1)) = Inr (rs', db2) \<and>
       res_dead_letter_id x \<notin> set (map res_dead_letter_id rs'))"
proof -
  have inv: "sys_inv sample_buried" by (rule reachable_inv [OF sample_buried_reachable])
  have none: "replay None 100 5 50 [] now db = replay (Some any_selector) 100 5 50 [] now db" for now db
    by (simp add: replay_def any_selector_def)
  have "length (select_dead any_selector 100 [] (sys_db sample_buried)) = 1"
    by (simp add: sample_run sample_defs lease_task_def leasable_def awaits_enqueue_def transition_failure_def
        classify_def retryable_def dead_letter_task_def owns_def Let_def select_dead_def selects_def any_selector_def
        dead_letter_of_def mark_dead_def)
  then obtain rs db1 where first: "replay None 100 5 50 [] 30 (sys_db sample_buried) = Inr (rs, db1)" and "length rs = 1"
    using replay_outcome [OF sys_inv_parts(1,2) [OF inv], of 100 5 any_selector 50 "[]" 30] none
    by (auto dest: list_all2_lengthD)
  then obtain x where one: "rs = [x]" by (metis One_nat_def length_0_conv length_Suc_conv)
  let ?s = "sample_buried\<lparr>sys_db := db1\<rparr>"
  let ?t = "?s\<lparr>sys_db := snd (purge_done db1)\<rparr>"
  have "sys_step ?s ?t" using sys_step.purge [of ?s] by simp
  then have run: "reachable_from sys_step ?s ?t" by (rule reachable_from_one)
  have "sys_inv ?t"
    using control_plane.inv_from [OF run] control_plane.inv_step [OF inv sys_step.replay_step [OF first]] .
  from replay_outcome [OF sys_inv_parts(1,2) [OF this], of 100 5 any_selector 50 "[]" 40] none
  obtain rs' db2 where again: "replay None 100 5 50 [] 40 (sys_db ?t) = Inr (rs', db2)" by auto
  from replayed_at_most_once [OF sample_buried_reachable first run again] one first again
  show ?thesis by auto
qed

section \<open>Progress\<close>

text \<open>A message whose task waits or runs at its generation leads to a lease as soon as the old one has run out.\<close>

definition working_on :: "sys \<Rightarrow> int \<Rightarrow> int \<Rightarrow> bool" where
  "working_on s i g \<longleftrightarrow> (\<exists>(L, m)\<in>set (held_leases s). l_id L = i \<and> l_generation L = g \<and>
     leased_by (sys_db s) L \<and> m \<notin> set (acked s))"

lemma message_leads_to_lease:
  assumes inv: "sys_inv s" and m: "m \<in> set (stream s)"
    and row: "task_by_id (sys_db s) (m_task_id m) = Some r" "t_generation r = m_generation m"
    and status: "t_status r \<in> {ENQUEUED, RUNNING}"
  shows "\<exists>t. sys_step s t \<and> working_on t (m_task_id m) (m_generation m)"
proof -
  note inv0 = sys_inv_parts(1) [OF inv]
  define now where "now = max (t_next_run_at r) (case t_lease_expires_at r of None \<Rightarrow> 0 | Some x \<Rightarrow> x)"
  have "task_ok r" using inv0 row(1) by (auto simp: ledger_inv_defs dest: fetch_key_SomeD)
  moreover have "t_id r = m_task_id m" using row(1) by (auto dest: fetch_key_SomeD)
  ultimately have can: "leasable now (m_task_id m) (m_generation m) r"
    using row(2) status by (auto simp: leasable_def now_def task_ok_def split: option.splits)
  obtain x db' where lease: "lease_task (m_task_id m) (m_generation m) ''worker-1'' 120 now (sys_db s) = (x, db')"
    by (cases "lease_task (m_task_id m) (m_generation m) ''worker-1'' 120 now (sys_db s)")
  with can row(1) obtain L where L: "x = Some L"
    using lease_task_outcome [OF inv0, where i = "m_task_id m" and g = "m_generation m" and w = "''worker-1''"
        and s = 120 and now = now]
    by (cases x) auto
  let ?t = "s\<lparr>sys_db := db', held_leases := (L, m) # held_leases s\<rparr>"
  have "sys_step s ?t" using sys_step.begin_work [OF m] lease L by blast
  moreover have "\<not> settled_gen (sys_db s) (m_task_id m) (m_generation m)"
    using row status by (auto simp: settled_gen_def)
  then have "m \<notin> set (acked s)" using acked_settled(2) [OF sys_inv_parts(5) [OF inv]] by blast
  then have "working_on ?t (m_task_id m) (m_generation m)"
    using lease_names_delivery [OF inv0 lease [unfolded L]] by (auto simp: working_on_def)
  ultimately show ?thesis by blast
qed

text \<open>An unpublished event of a waiting task can be claimed and sent.\<close>

lemma event_leads_to_message:
  assumes inv: "sys_inv s" and row: "task_by_id (sys_db s) i = Some r"
    and status: "t_status r \<in> {PENDING, RETRY_SCHEDULED, ENQUEUED}"
    and event: "outbox_event (sys_db s) i (t_generation r) = Some e" "o_published_at e = None"
  shows "\<exists>t m r'. reachable_from sys_step s t \<and> m \<in> set (stream t) \<and> m_task_id m = i \<and>
    m_generation m = t_generation r \<and> task_by_id (sys_db t) i = Some r' \<and> t_generation r' = t_generation r \<and>
    t_status r' = ENQUEUED"
proof -
  note inv0 = sys_inv_parts(1) [OF inv]
  let ?db = "sys_db s"
  define now where "now = max (o_available_at e) (case o_claim_expires_at e of None \<Rightarrow> 0 | Some x \<Rightarrow> x)"
  define b where "b = int (length (outbox ?db)) + 1"
  from event(1) have e: "e \<in> set (outbox ?db)" "event_of e = (i, t_generation r)" by (auto dest: fetch_key_SomeD)
  have "claimable now ?db e"
    using row status e event(2) by (auto simp: claimable_def now_def split: option.splits)
  moreover have "length (filter (claimable now ?db) (outbox ?db)) \<le> nat b"
    using length_filter_le [of "claimable now ?db" "outbox ?db"] unfolding b_def by linarith
  ultimately have sel: "e \<in> set (select_claimable b [] now ?db)"
    using e(1) by (simp add: select_claimable_def)
  let ?ev = "claimed_of ''t'' e"
  obtain evs db' where run: "claim_ready b ''t'' 30 [] now now ?db = Inr (evs, db')"
    and ev: "?ev \<in> set evs"
    using sel by (simp add: claim_ready_eq [OF inv0] b_def)
  define s1 where "s1 = s\<lparr>sys_db := db', claims := claims s @ evs\<rparr>"
  have step1: "sys_step s s1" unfolding s1_def by (rule sys_step.claim [OF run])
  obtain msg where fresh: "msg \<notin> m_message_id ` set (stream s1)"
    using ex_new_if_finite [OF infinite_UNIV_listI, of "m_message_id ` set (stream s1)"] by auto
  define t where "t = s1\<lparr>stream := stream s1 @ [message msg ?ev], in_flight := in_flight s1 @ [(?ev, msg)]\<rparr>"
  have "sys_step s1 t"
    unfolding t_def by (rule sys_step.xadd [OF _ fresh]) (simp add: s1_def ev)
  with step1 have "reachable_from sys_step s t" by (blast intro: reachable_from.intros)
  moreover from claim_ready_outcome [OF inv0 run] ev obtain r' where
    "task_by_id db' (c_task_id ?ev) = Some r'" "t_generation r' = c_generation ?ev" "t_status r' = ENQUEUED"
    by (auto simp: claim_visible_def)
  ultimately show ?thesis
    using e(2) by (intro exI [of _ t] exI [of _ "message msg ?ev"] exI [of _ r'])
      (auto simp: t_def s1_def message_def claimed_of_def)
qed

text \<open>
  C2: No task is ever stuck: from every reachable state, and for every task that is not finished, there is a
  continuation in which a worker holds a valid lease of the task at its current generation, on a message that
  has not been acknowledged; no crash of a dispatcher or worker can rule that out.
\<close>

theorem never_stuck:
  assumes "reachable s" and "task_by_id (sys_db s) i = Some r" and "\<not> terminal (t_status r)"
  shows "\<exists>t. reachable_from sys_step s t \<and> working_on t i (t_generation r)"
proof -
  note inv = reachable_inv [OF assms(1)]
  from assms(2) have r: "r \<in> set (tasks (sys_db s))" "t_id r = i" by (auto dest: fetch_key_SomeD)
  then have "task_ok r" and "task_linked (sys_db s) r"
    using sys_inv_parts(1) [OF inv] by (auto simp: ledger_inv_defs)
  then have status: "t_status r \<in> {PENDING, RETRY_SCHEDULED, ENQUEUED, RUNNING}"
    using assms(3) by (cases "t_status r") (auto simp: task_ok_def)
  from \<open>task_linked (sys_db s) r\<close> r(2) obtain e where e: "outbox_event (sys_db s) i (t_generation r) = Some e"
    "t_status r \<in> {PENDING, RETRY_SCHEDULED} \<longrightarrow> o_published_at e = None"
    by (auto simp: task_linked_def pristine_def)
  show ?thesis
  proof (cases "t_status r = RUNNING \<or> o_published_at e \<noteq> None")
    case True
    have "event_of e = (i, t_generation r)" "e \<in> set (outbox (sys_db s))"
      using e(1) by (auto dest: fetch_key_SomeD)
    then obtain m where m: "m \<in> set (stream s)" "m_task_id m = i" "m_generation m = t_generation r"
      using True sys_inv_parts(4) [OF inv] r by (auto simp: sent_ok_def)
    moreover have "t_status r \<in> {ENQUEUED, RUNNING}" using True e(2) status by auto
    ultimately show ?thesis
      using message_leads_to_lease [OF inv m(1)] assms(2) by (metis reachable_from_one)
  next
    case False
    then obtain t m r' where t: "reachable_from sys_step s t" "m \<in> set (stream t)" "m_task_id m = i"
      "m_generation m = t_generation r" "task_by_id (sys_db t) i = Some r'" "t_generation r' = t_generation r"
      "t_status r' = ENQUEUED"
      using event_leads_to_message [OF inv assms(2) _ e(1)] status by auto
    have "sys_inv t" using control_plane.inv_from [OF t(1) inv] .
    then obtain u where "sys_step t u" "working_on u i (t_generation r)"
      using message_leads_to_lease [of t m r'] t by auto
    with t(1) show ?thesis by (blast intro: reachable_from.next_step)
  qed
qed

theorem never_stuck_witness:
  "\<exists>t. reachable_from sys_step sample_submitted t \<and> working_on t 1 0"
  using never_stuck [OF sample_reachable(1), of 1 sample_task] by (simp add: sample_db) (simp add: sample_defs)

end
