(* ===== verification/PyScalar.thy ===== *)
theory PyScalar
  imports PyValue "HOL-Library.Char_ord" "HOL-Library.List_Lexorder"
begin

text \<open>
  The conversions of Python 3.11 that the request code applies to decoded JSON: \<open>==\<close>,
  \<open>str\<close> and \<open>repr\<close>, \<open>int\<close>, and \<open>date.fromisoformat\<close>. Strings
  are ordered by code point. \<open>str\<close> of a finite float (the shortest decimal that reads back as
  it) is a parameter.
\<close>

section \<open>Equality\<close>

text \<open>Booleans, integers and floats compare by value, across the three types.\<close>

fun num_of :: "pyval \<Rightarrow> pyfloat option" where
  "num_of (PBool b) = Some (Fin (if b then 1 else 0))"
| "num_of (PInt i) = Some (fl_of_int i)"
| "num_of (PFloat f) = Some f"
| "num_of _ = None"

definition num_eq :: "pyval \<Rightarrow> pyval \<Rightarrow> bool" where
  "num_eq a b = (case (num_of a, num_of b) of
     (Some x, Some y) \<Rightarrow> x = y \<and> x \<noteq> NaN | _ \<Rightarrow> False)"

fun py_eq :: "pyval \<Rightarrow> pyval \<Rightarrow> bool"
  and py_eq_list :: "pyval list \<Rightarrow> pyval list \<Rightarrow> bool"
  and py_eq_dict :: "pydict \<Rightarrow> pydict \<Rightarrow> bool" where
  "py_eq PNone b = (b = PNone)"
| "py_eq (PStr s) b = (b = PStr s)"
| "py_eq (PList xs) b = (case b of PList ys \<Rightarrow> py_eq_list xs ys | _ \<Rightarrow> False)"
| "py_eq (PDict d) b = (case b of PDict e \<Rightarrow> length d = length e \<and> py_eq_dict d e | _ \<Rightarrow> False)"
| "py_eq a b = num_eq a b"
| "py_eq_list [] ys = (ys = [])"
| "py_eq_list (x # xs) ys = (case ys of [] \<Rightarrow> False | y # ys' \<Rightarrow> py_eq x y \<and> py_eq_list xs ys')"
| "py_eq_dict [] e = True"
| "py_eq_dict ((k, v) # d) e = (case map_of e k of None \<Rightarrow> False | Some w \<Rightarrow> py_eq v w \<and> py_eq_dict d e)"

definition py_in :: "pyval \<Rightarrow> pyval list \<Rightarrow> bool" where
  "py_in v vs = list_ex (py_eq v) vs"

lemma py_eq_str: "py_eq v (PStr s) \<longleftrightarrow> v = PStr s"
  by (cases v) (auto simp: num_eq_def split: option.splits)

section \<open>Text\<close>

definition hex_char :: "nat \<Rightarrow> char" where
  "hex_char d = char_of (if d < 10 then 48 + d else 87 + d)"

text \<open>\<open>repr\<close> of a Latin-1 string: the quote is \<open>'\<close> unless the text has one and no double quote.\<close>

definition repr_char :: "char \<Rightarrow> char \<Rightarrow> string" where
  "repr_char quote c = (let n = (of_char c :: nat) in
     if c = quote \<or> n = 92 then [CHR 0x5C, c]
     else if n = 9 then [CHR 0x5C, CHR ''t'']
     else if n = 10 then [CHR 0x5C, CHR ''n'']
     else if n = 13 then [CHR 0x5C, CHR ''r'']
     else if n < 32 \<or> (127 \<le> n \<and> n \<le> 160) \<or> n = 173
       then [CHR 0x5C, CHR ''x'', hex_char (n div 16), hex_char (n mod 16)]
     else [c])"

definition repr_str :: "string \<Rightarrow> string" where
  "repr_str s = (let quote = (if CHR 0x27 \<in> set s \<and> CHR 0x22 \<notin> set s then CHR 0x22 else CHR 0x27)
     in quote # concat (map (repr_char quote) s) @ [quote])"

fun join :: "string \<Rightarrow> string list \<Rightarrow> string" where
  "join sep [] = []"
| "join sep [s] = s"
| "join sep (s # t # ss) = s @ sep @ join sep (t # ss)"

fun float_str :: "(rat \<Rightarrow> string) \<Rightarrow> pyfloat \<Rightarrow> string" where
  "float_str fr (Fin r) = fr r"
| "float_str fr PosInf = ''inf''"
| "float_str fr NegInf = ''-inf''"
| "float_str fr NaN = ''nan''"

fun py_repr :: "(rat \<Rightarrow> string) \<Rightarrow> pyval \<Rightarrow> string"
  and repr_list :: "(rat \<Rightarrow> string) \<Rightarrow> pyval list \<Rightarrow> string list"
  and repr_dict :: "(rat \<Rightarrow> string) \<Rightarrow> pydict \<Rightarrow> string list" where
  "py_repr fr PNone = ''None''"
| "py_repr fr (PBool b) = (if b then ''True'' else ''False'')"
| "py_repr fr (PInt i) = int_str i"
| "py_repr fr (PFloat f) = float_str fr f"
| "py_repr fr (PStr s) = repr_str s"
| "py_repr fr (PList xs) = ''['' @ join '', '' (repr_list fr xs) @ '']''"
| "py_repr fr (PDict d) = ''{'' @ join '', '' (repr_dict fr d) @ ''}''"
| "repr_list fr [] = []"
| "repr_list fr (x # xs) = py_repr fr x # repr_list fr xs"
| "repr_dict fr [] = []"
| "repr_dict fr ((k, v) # d) = (repr_str k @ '': '' @ py_repr fr v) # repr_dict fr d"

definition py_str :: "(rat \<Rightarrow> string) \<Rightarrow> pyval \<Rightarrow> string" where
  "py_str fr v = (case v of PStr s \<Rightarrow> s | _ \<Rightarrow> py_repr fr v)"

lemma py_str_PStr [simp]: "py_str fr (PStr s) = s"
  by (simp add: py_str_def)

section \<open>int\<close>

text \<open>
  \<open>int\<close> of a string: white space around (not the separators 28 to 31 that \<open>strip\<close> also removes),
  a sign, digits with single underscores between them, at most 4300 of them.
\<close>

definition int_space :: "char \<Rightarrow> bool" where
  "int_space c = (let n = (of_char c :: nat) in (9 \<le> n \<and> n \<le> 13) \<or> n = 32 \<or> n = 133 \<or> n = 160)"

definition trim_int :: "string \<Rightarrow> string" where
  "trim_int s = rev (dropWhile int_space (rev (dropWhile int_space s)))"

definition dec_val :: "string \<Rightarrow> int" where
  "dec_val s = foldl (\<lambda>a c. 10 * a + int (digit_val c)) 0 s"

fun digit_groups :: "string \<Rightarrow> bool" where
  "digit_groups [] = False"
| "digit_groups [c] = is_digit c"
| "digit_groups (c # d # s) = (is_digit c \<and> (if d = CHR ''_'' then digit_groups s else digit_groups (d # s)))"

definition parse_nat :: "string \<Rightarrow> exc + int" where
  "parse_nat s =
     (if \<not> digit_groups s then Inl (ValueError ''invalid literal for int() with base 10'')
      else let ds = filter is_digit s
           in if 4300 < length ds then Inl (ValueError ''Exceeds the limit (4300 digits) for integer string conversion'')
              else Inr (dec_val ds))"

definition parse_int :: "string \<Rightarrow> exc + int" where
  "parse_int s = (case trim_int s of
     [] \<Rightarrow> parse_nat []
   | c # t \<Rightarrow> if c = CHR ''-'' then and_then (parse_nat t) (\<lambda>i. Inr (- i))
              else if c = CHR ''+'' then parse_nat t else parse_nat (c # t))"

text \<open>What \<open>str\<close> writes of an integer, \<open>int\<close> reads back, up to the digit limit.\<close>

lemma nat_str_nonempty [simp]: "nat_str n \<noteq> []"
  by (simp add: nat_str.simps [of n])

lemma length_nat_str: "n < 10 ^ k \<Longrightarrow> 0 < k \<Longrightarrow> length (nat_str n) \<le> k"
proof (induction k arbitrary: n)
  case (Suc k)
  show ?case
  proof (cases "n < 10")
    case False
    with Suc.prems have k: "0 < k" by (cases k) auto
    have "n div 10 < 10 ^ k" using Suc.prems by (simp add: div_less_iff_less_mult mult.commute)
    from Suc.IH [OF this k] False show ?thesis by (simp add: nat_str.simps [of n])
  qed (simp add: nat_str.simps [of n])
qed simp

lemma digit_groups_digits: "ds \<noteq> [] \<Longrightarrow> list_all is_digit ds \<Longrightarrow> digit_groups ds"
proof (induction ds rule: digit_groups.induct)
  case (3 c d s)
  then have "d \<noteq> CHR ''_''" by (auto simp: is_digit_def)
  with 3 show ?case by simp
qed auto

lemma foldl_of_nat: "foldl (\<lambda>a c. 10 * a + int (digit_val c)) (int a) s = int (foldl (\<lambda>a c. 10 * a + digit_val c) a s)"
proof (induction s arbitrary: a)
  case (Cons c s)
  from Cons.IH [of "10 * a + digit_val c"] show ?case by simp
qed simp

lemma dec_val_digits: "dec_val s = int (digits_val s)"
  using foldl_of_nat [of 0 s] by (simp add: dec_val_def digits_val_def)

lemma parse_nat_str: "length (nat_str n) \<le> 4300 \<Longrightarrow> parse_nat (nat_str n) = Inr (int n)"
proof -
  have ds: "list_all is_digit (nat_str n)" by (auto simp: list_all_iff nat_str_digits)
  then have "filter is_digit (nat_str n) = nat_str n" by (auto simp: list_all_iff)
  with digit_groups_digits [OF nat_str_nonempty ds]
  show "length (nat_str n) \<le> 4300 \<Longrightarrow> parse_nat (nat_str n) = Inr (int n)"
    by (simp add: parse_nat_def dec_val_digits)
qed

lemma trim_int_id: "\<forall>c\<in>set s. \<not> int_space c \<Longrightarrow> trim_int s = s"
proof -
  have "dropWhile int_space t = t" if "\<forall>c\<in>set t. \<not> int_space c" for t
    using that by (cases t) auto
  from this [of s] this [of "rev s"] show "\<forall>c\<in>set s. \<not> int_space c \<Longrightarrow> trim_int s = s"
    by (simp add: trim_int_def)
qed

lemma parse_int_str: "length (int_str i) \<le> 4300 \<Longrightarrow> parse_int (int_str i) = Inr i"
proof -
  assume len: "length (int_str i) \<le> 4300"
  have "\<not> int_space c" if "c \<in> set (int_str i)" for c
    using int_str_chars [OF that] by (auto simp: is_digit_def int_space_def Let_def)
  then have trim: "trim_int (int_str i) = int_str i" by (simp add: trim_int_id)
  show ?thesis
  proof (cases "i < 0")
    case True
    then show ?thesis using len by (simp add: parse_int_def trim) (simp add: int_str_def parse_nat_str and_then_def)
  next
    case False
    then obtain c t where s: "nat_str (nat i) = c # t" by (cases "nat_str (nat i)") auto
    then have "is_digit c" using nat_str_digits [of c "nat i"] by simp
    then have "c \<noteq> CHR ''-''" "c \<noteq> CHR ''+''" by (auto simp: is_digit_def)
    then show ?thesis using False len parse_nat_str [of "nat i"] trim by (simp add: parse_int_def int_str_def s)
  qed
qed

lemma length_int_str: "\<bar>i\<bar> < 10 ^ k \<Longrightarrow> 0 < k \<Longrightarrow> length (int_str i) \<le> Suc k"
proof -
  assume i: "\<bar>i\<bar> < 10 ^ k" and k: "0 < k"
  then have "nat \<bar>i\<bar> < 10 ^ k" by (simp add: nat_less_iff)
  from length_nat_str [OF this k] show ?thesis by (auto simp: int_str_def)
qed

text \<open>A float is truncated towards zero.\<close>

definition trunc :: "rat \<Rightarrow> int" where
  "trunc r = (if 0 \<le> r then \<lfloor>r\<rfloor> else \<lceil>r\<rceil>)"

fun py_int :: "pyval \<Rightarrow> exc + int" where
  "py_int (PBool b) = Inr (if b then 1 else 0)"
| "py_int (PInt i) = Inr i"
| "py_int (PFloat (Fin r)) = Inr (trunc r)"
| "py_int (PFloat NaN) = Inl (ValueError ''cannot convert float NaN to integer'')"
| "py_int (PFloat _) = Inl (OverflowError ''cannot convert float infinity to integer'')"
| "py_int (PStr s) = parse_int s"
| "py_int _ = Inl (TypeError ''int() argument must be a string, a bytes-like object or a real number'')"

section \<open>date.fromisoformat\<close>

definition utf8_length :: "string \<Rightarrow> nat" where
  "utf8_length s = sum_list (map (\<lambda>c. if (of_char c :: nat) < 128 then 1 else 2) s)"

fun digits_at :: "nat \<Rightarrow> string \<Rightarrow> (int \<times> string) option" where
  "digits_at n s = (if n \<le> length s \<and> list_all is_digit (take n s)
     then Some (dec_val (take n s), drop n s) else None)"

definition leap_year :: "int \<Rightarrow> bool" where
  "leap_year y \<longleftrightarrow> y mod 4 = 0 \<and> (y mod 100 \<noteq> 0 \<or> y mod 400 = 0)"

definition days_in_month :: "int \<Rightarrow> int \<Rightarrow> int" where
  "days_in_month y m = (if m = 2 then (if leap_year y then 29 else 28)
     else if m \<in> {4, 6, 9, 11} then 30 else 31)"

definition valid_ymd :: "int \<Rightarrow> int \<Rightarrow> int \<Rightarrow> bool" where
  "valid_ymd y m d \<longleftrightarrow> 1 \<le> y \<and> y \<le> 9999 \<and> 1 \<le> m \<and> m \<le> 12 \<and> 1 \<le> d \<and> d \<le> days_in_month y m"

text \<open>The ordinal of January 1st, its weekday (Monday is 0), and the Monday of ISO week 1.\<close>

definition year_start :: "int \<Rightarrow> int" where
  "year_start y = (let p = y - 1 in p * 365 + p div 4 - p div 100 + p div 400 + 1)"

definition first_weekday :: "int \<Rightarrow> int" where
  "first_weekday y = (year_start y + 6) mod 7"

definition week1_monday :: "int \<Rightarrow> int" where
  "week1_monday y = year_start y - first_weekday y + (if 3 < first_weekday y then 7 else 0)"

definition valid_week :: "int \<Rightarrow> int \<Rightarrow> int \<Rightarrow> bool" where
  "valid_week y w d \<longleftrightarrow> 1 \<le> y \<and> 1 \<le> w \<and>
     (w < 53 \<or> w = 53 \<and> (first_weekday y = 3 \<or> first_weekday y = 2 \<and> leap_year y)) \<and>
     1 \<le> d \<and> d \<le> 7 \<and>
     (let n = week1_monday y + (w - 1) * 7 + (d - 1) in 1 \<le> n \<and> n \<le> 3652059)"

text \<open>
  The parser accepts \<open>YYYY-MM-DD\<close>, \<open>YYYYMMDD\<close>, \<open>YYYY-Www[-D]\<close> and \<open>YYYYWww[D]\<close>; it checks the length
  of the whole text (7, 8 or 10 bytes) and never looks behind the fields it needs.
\<close>

definition iso_week_date :: "bool \<Rightarrow> int \<Rightarrow> string \<Rightarrow> bool" where
  "iso_week_date sep y s = (case digits_at 2 s of None \<Rightarrow> False
     | Some (w, r) \<Rightarrow>
         if r = [] then valid_week y w 1
         else if sep \<and> hd r \<noteq> CHR ''-'' then False
         else (case digits_at 1 (if sep then tl r else r) of None \<Rightarrow> False
               | Some (d, _) \<Rightarrow> valid_week y w d))"

definition calendar_date :: "bool \<Rightarrow> int \<Rightarrow> string \<Rightarrow> bool" where
  "calendar_date sep y s = (case digits_at 2 s of None \<Rightarrow> False
     | Some (m, r) \<Rightarrow>
         if sep \<and> take 1 r \<noteq> ''-'' then False
         else (case digits_at 2 (if sep then tl r else r) of None \<Rightarrow> False
               | Some (d, _) \<Rightarrow> valid_ymd y m d))"

definition valid_iso_date :: "string \<Rightarrow> bool" where
  "valid_iso_date s = (utf8_length s \<in> {7, 8, 10} \<and>
     (case digits_at 4 s of None \<Rightarrow> False
      | Some (y, r) \<Rightarrow>
          let sep = (take 1 r = ''-''); r' = (if sep then tl r else r)
          in if take 1 r' = ''W'' then iso_week_date sep y (tl r') else calendar_date sep y r'))"

text \<open>Dates that the interpreter accepts and refuses.\<close>

lemma iso_date_samples:
  "list_all valid_iso_date [''2020-02-29'', ''20200229'', ''2020-W01'', ''2020W011'', ''2020-W53-1'', ''9999-W52-5'', ''20200101xx'']"
  "\<not> list_ex valid_iso_date [''2021-02-29'', ''2020-1-1'', ''2021-W53-1'', ''0000-01-01'', ''9999-W52-6'', ''2020-0101'', ''20200101x'']"
  by code_simp+

lemma int_samples:
  "map parse_int ['' 5 '', ''+5'', ''1_0'', ''-07''] = [Inr 5, Inr 5, Inr 10, Inr (- 7)]"
  "list_all (\<lambda>s. case parse_int s of Inl _ \<Rightarrow> True | Inr _ \<Rightarrow> False) ['''', ''-'', ''_1'', ''1__0'', ''1_'', ''+ 5'', ''0x1'']"
  by code_simp+

end
