(* ===== verification/Capabilities.thy ===== *)
theory Capabilities
  imports PyScalar "HOL-Library.Product_Lexorder"
begin

text \<open>
  \<open>xingestion/capabilities.py\<close>: the contracts of what may be collected, requests against them, the
  routes that can serve a request, and the planner that turns a task's payload into a bounded plan.
  Contracts are read from \<open>contracts/capabilities.v1.json\<close>; \<open>search_tweets_spec\<close> is the record
  that \<open>from_dict\<close> builds from its one entry.
\<close>

section \<open>Contracts\<close>

record input_spec =
  is_type :: string
  is_required :: bool
  is_nullable :: bool
  is_default :: pyval
  is_has_default :: bool
  is_enum :: "pyval list"
  is_minimum :: "int option"
  is_maximum :: "int option"
  is_minimum_length :: "int option"
  is_format :: "string option"

record capability_spec =
  cs_capability_id :: string
  cs_contract_version :: string
  cs_inputs :: "(string \<times> input_spec) list"
  cs_pagination :: pydict

record capability_request =
  rq_capability_id :: string
  rq_contract_version :: string
  rq_params :: pydict
  rq_cursor :: pyval
  rq_page_size :: pyval
  rq_correlation_id :: pyval

datatype executor_kind = LEGACY_SOURCE_ADAPTER | XREV_PROTOCOL_RUNTIME | FIXTURE

record capability_route =
  rt_route_id :: string
  rt_capability_id :: string
  rt_contract_version :: string
  rt_executor_kind :: executor_kind
  rt_priority :: int
  rt_enabled :: bool
  rt_supported_products :: "string list"
  rt_supported_inputs :: "string list"
  rt_maximum_page_size :: "int option"
  rt_maximum_pages :: "int option"
  rt_protocol_release_manifest :: "string option"

record acquisition_plan =
  pl_request :: capability_request
  pl_route :: capability_route
  pl_page_size :: int
  pl_max_pages :: int
  pl_warnings :: "string list"

section \<open>One input\<close>

text \<open>\<open>isinstance\<close> against the three contract types; a bool is an int to Python, but not here.\<close>

fun has_type :: "string \<Rightarrow> pyval \<Rightarrow> bool" where
  "has_type t (PStr _) = (t = ''string'')"
| "has_type t (PInt _) = (t = ''integer'')"
| "has_type t (PBool _) = (t = ''boolean'')"
| "has_type t _ = False"

abbreviation (input) below :: "int option \<Rightarrow> int \<Rightarrow> bool" where
  "below m i \<equiv> (case m of None \<Rightarrow> False | Some b \<Rightarrow> i < b)"

abbreviation (input) above :: "int option \<Rightarrow> int \<Rightarrow> bool" where
  "above m i \<equiv> (case m of None \<Rightarrow> False | Some b \<Rightarrow> b < i)"

text \<open>The checks on a string, which is stripped when a minimum length is given, and on an integer.\<close>

definition validate_length :: "string \<Rightarrow> input_spec \<Rightarrow> string \<Rightarrow> exc + string" where
  "validate_length name spec s = (case is_minimum_length spec of
     None \<Rightarrow> Inr s
   | Some n \<Rightarrow> if int (length (strip s)) < n
       then Inl (CapabilityContractError (''input '' @ repr_str name @ '' must contain at least '' @ int_str n @ '' character(s)''))
       else Inr (strip s))"

definition validate_date :: "string \<Rightarrow> input_spec \<Rightarrow> string \<Rightarrow> exc + string" where
  "validate_date name spec s =
     (if is_format spec = Some ''date'' \<and> \<not> valid_iso_date s
      then Inl (CapabilityContractError (''input '' @ repr_str name @ '' must use ISO date format YYYY-MM-DD''))
      else Inr s)"

definition validate_range :: "string \<Rightarrow> input_spec \<Rightarrow> int \<Rightarrow> exc + int" where
  "validate_range name spec i =
     (if below (is_minimum spec) i
      then Inl (CapabilityContractError (''input '' @ repr_str name @ '' is below minimum''))
      else if above (is_maximum spec) i
      then Inl (CapabilityContractError (''input '' @ repr_str name @ '' exceeds maximum''))
      else Inr i)"

definition validate_value :: "string \<Rightarrow> pyval \<Rightarrow> input_spec \<Rightarrow> exc + pyval" where
  "validate_value name val spec = (case val of
     PStr s \<Rightarrow> and_then (validate_length name spec s)
       (\<lambda>s. and_then (validate_date name spec s) (\<lambda>s. Inr (PStr s)))
   | PInt i \<Rightarrow> and_then (validate_range name spec i) (\<lambda>i. Inr (PInt i))
   | v \<Rightarrow> Inr v)"

definition validate_input :: "(rat \<Rightarrow> string) \<Rightarrow> string \<Rightarrow> pyval \<Rightarrow> input_spec \<Rightarrow> exc + pyval" where
  "validate_input fr name val spec =
     (if val = PNone then
        (if is_nullable spec then Inr PNone
         else Inl (CapabilityContractError (''input '' @ repr_str name @ '' cannot be null'')))
      else if is_type spec \<notin> {''string'', ''integer'', ''boolean''} then
        Inl (CapabilityContractError (''unsupported contract field type '' @ repr_str (is_type spec) @ '' for '' @ repr_str name))
      else if is_type spec = ''integer'' \<and> (case val of PBool _ \<Rightarrow> True | _ \<Rightarrow> False) then
        Inl (CapabilityContractError (''input '' @ repr_str name @ '' must be an integer''))
      else if \<not> has_type (is_type spec) val then
        Inl (CapabilityContractError (''input '' @ repr_str name @ '' must be '' @ is_type spec))
      else if is_enum spec \<noteq> [] \<and> \<not> py_in val (is_enum spec) then
        Inl (CapabilityContractError (''input '' @ repr_str name @ '' must be one of '' @ join '', '' (map (py_str fr) (is_enum spec))))
      else validate_value name val spec)"

section \<open>validate\_params\<close>

definition unknown_inputs :: "capability_spec \<Rightarrow> pydict \<Rightarrow> string list" where
  "unknown_inputs spec params = sort (remdups (filter (\<lambda>n. n \<notin> fst ` set (cs_inputs spec)) (map fst params)))"

text \<open>What one contract input contributes: an entry, nothing, or an error.\<close>

definition normal_input ::
  "(rat \<Rightarrow> string) \<Rightarrow> string \<Rightarrow> pydict \<Rightarrow> string \<Rightarrow> input_spec \<Rightarrow> exc + pydict" where
  "normal_input fr cap params name spec = (case map_of params name of
     None \<Rightarrow>
       (if is_has_default spec then Inr [(name, is_default spec)]
        else if is_required spec
        then Inl (CapabilityContractError (cap @ '' input '' @ repr_str name @ '' is required''))
        else Inr [])
   | Some v \<Rightarrow> and_then (validate_input fr name v spec) (\<lambda>v'. Inr [(name, v')]))"

fun normal_inputs ::
  "(rat \<Rightarrow> string) \<Rightarrow> string \<Rightarrow> pydict \<Rightarrow> (string \<times> input_spec) list \<Rightarrow> exc + pydict" where
  "normal_inputs fr cap params [] = Inr []"
| "normal_inputs fr cap params ((name, spec) # inputs) =
     and_then (normal_input fr cap params name spec)
       (\<lambda>entry. and_then (normal_inputs fr cap params inputs) (\<lambda>d. Inr (entry @ d)))"

definition validate_params :: "(rat \<Rightarrow> string) \<Rightarrow> capability_spec \<Rightarrow> pydict \<Rightarrow> exc + pydict" where
  "validate_params fr spec params =
     (let unknown = unknown_inputs spec params
      in if unknown \<noteq> []
         then Inl (CapabilityContractError (''unsupported '' @ cs_capability_id spec @ '' input(s): '' @ join '', '' unknown))
         else normal_inputs fr (cs_capability_id spec) params (cs_inputs spec))"

section \<open>Requests\<close>

text \<open>\<open>CapabilityRequest(...)\<close> with the checks of \<open>__post_init__\<close>.\<close>

definition make_request ::
  "string \<Rightarrow> string \<Rightarrow> pydict \<Rightarrow> pyval \<Rightarrow> pyval \<Rightarrow> pyval \<Rightarrow> exc + capability_request" where
  "make_request cap version params cursor page_size correlation =
     (if cap = [] \<or> version = [] then
        Inl (CapabilityContractError ''capability_id and capability_contract_version are required'')
      else if (case cursor of PNone \<Rightarrow> False | PStr _ \<Rightarrow> False | _ \<Rightarrow> True) then
        Inl (CapabilityContractError ''cursor must be an opaque string or null'')
      else if (case page_size of PNone \<Rightarrow> False | PInt i \<Rightarrow> i \<le> 0 | _ \<Rightarrow> True) then
        Inl (CapabilityContractError ''page_size must be a positive integer'')
      else Inr \<lparr>rq_capability_id = cap, rq_contract_version = version, rq_params = params,
                rq_cursor = cursor, rq_page_size = page_size, rq_correlation_id = correlation\<rparr>)"

definition to_task_payload :: "capability_request \<Rightarrow> pydict" where
  "to_task_payload rq =
     [(''capability_id'', PStr (rq_capability_id rq)),
      (''capability_contract_version'', PStr (rq_contract_version rq)),
      (''params'', PDict (rq_params rq)),
      (''cursor'', rq_cursor rq),
      (''page_size'', rq_page_size rq),
      (''correlation_id'', rq_correlation_id rq)]"

definition optional_string :: "pyval \<Rightarrow> exc + pyval" where
  "optional_string v = (case v of PNone \<Rightarrow> Inr PNone | PStr s \<Rightarrow> Inr (PStr s)
     | _ \<Rightarrow> Inl (CapabilityContractError ''optional value must be a string''))"

definition optional_integer :: "pyval \<Rightarrow> exc + pyval" where
  "optional_integer v = (case v of PNone \<Rightarrow> Inr PNone | PInt i \<Rightarrow> Inr (PInt i)
     | _ \<Rightarrow> Inl (CapabilityContractError ''optional value must be an integer''))"

text \<open>TypeError and ValueError become contract errors; OverflowError passes through.\<close>

definition legacy_positive_integer :: "pyval \<Rightarrow> exc + int" where
  "legacy_positive_integer v = (case py_int v of
     Inr i \<Rightarrow> if i \<le> 0 then Inl (CapabilityContractError ''legacy numeric value must be positive'') else Inr i
   | Inl (TypeError _) \<Rightarrow> Inl (CapabilityContractError ''legacy numeric value must be an integer'')
   | Inl (ValueError _) \<Rightarrow> Inl (CapabilityContractError ''legacy numeric value must be an integer'')
   | Inl e \<Rightarrow> Inl e)"

definition CAPABILITY_TASK_TYPE :: string where
  "CAPABILITY_TASK_TYPE = ''CAPABILITY_REQUEST''"

definition LEGACY_SEARCH_TASK_TYPE :: string where
  "LEGACY_SEARCH_TASK_TYPE = ''X_KEYWORD_SEARCH''"

text \<open>\<open>d.get(k, v)\<close> and \<open>str(v or text)\<close>.\<close>

definition dict_get_or :: "pydict \<Rightarrow> string \<Rightarrow> pyval \<Rightarrow> pyval" where
  "dict_get_or d k v = (case map_of d k of None \<Rightarrow> v | Some u \<Rightarrow> u)"

definition str_or :: "(rat \<Rightarrow> string) \<Rightarrow> pyval \<Rightarrow> string \<Rightarrow> string" where
  "str_or fr v s = (if truthy v then py_str fr v else s)"

definition capability_task_request ::
  "(rat \<Rightarrow> string) \<Rightarrow> pydict \<Rightarrow> pyval \<Rightarrow> exc + capability_request" where
  "capability_task_request fr payload correlation = (case dict_get payload ''params'' of
     PDict params \<Rightarrow>
       and_then (optional_string (dict_get payload ''cursor'')) (\<lambda>cursor.
       and_then (optional_integer (dict_get payload ''page_size'')) (\<lambda>page_size.
       and_then (optional_string (let c = dict_get payload ''correlation_id'' in if truthy c then c else correlation)) (\<lambda>corr.
         make_request (str_or fr (dict_get payload ''capability_id'') [])
           (str_or fr (dict_get payload ''capability_contract_version'') []) params cursor page_size corr)))
   | _ \<Rightarrow> Inl (CapabilityContractError ''capability task params must be an object''))"

definition legacy_task_request ::
  "(rat \<Rightarrow> string) \<Rightarrow> pydict \<Rightarrow> pyval \<Rightarrow> exc + capability_request" where
  "legacy_task_request fr payload correlation =
     and_then (legacy_positive_integer (dict_get_or payload ''max_pages'' (PInt 1))) (\<lambda>pages.
     and_then (optional_string (dict_get payload ''cursor'')) (\<lambda>cursor.
     and_then (if dict_get payload ''page_size'' = PNone then Inr PNone
               else and_then (legacy_positive_integer (dict_get payload ''page_size'')) (\<lambda>i. Inr (PInt i))) (\<lambda>page_size.
       make_request ''SEARCH_TWEETS'' ''1''
         [(''query'', PStr (strip (str_or fr (dict_get payload ''search_keyword'') []))),
          (''product'', PStr (str_or fr (dict_get payload ''product'') ''Latest'')),
          (''max_pages'', PInt pages)] cursor page_size correlation)))"

definition request_from_task ::
  "(rat \<Rightarrow> string) \<Rightarrow> string \<Rightarrow> pydict \<Rightarrow> pyval \<Rightarrow> exc + capability_request" where
  "request_from_task fr task_type payload correlation =
     (if task_type = CAPABILITY_TASK_TYPE then capability_task_request fr payload correlation
      else if task_type = LEGACY_SEARCH_TASK_TYPE then legacy_task_request fr payload correlation
      else Inl (UnsupportedCapability (''unsupported task_type='' @ task_type)))"

section \<open>The catalog\<close>

type_synonym catalog = "((string \<times> string) \<times> capability_spec) list"

definition spec_key :: "capability_spec \<Rightarrow> string \<times> string" where
  "spec_key spec = (cs_capability_id spec, cs_contract_version spec)"

fun add_specs :: "catalog \<Rightarrow> capability_spec list \<Rightarrow> exc + catalog" where
  "add_specs cat [] = Inr cat"
| "add_specs cat (spec # specs) =
     (if map_of cat (spec_key spec) \<noteq> None
      then Inl (CapabilityContractError (''duplicate capability contract: ('' @ repr_str (cs_capability_id spec)
             @ '', '' @ repr_str (cs_contract_version spec) @ '')''))
      else add_specs (cat @ [(spec_key spec, spec)]) specs)"

definition make_catalog :: "capability_spec list \<Rightarrow> string \<Rightarrow> exc + catalog" where
  "make_catalog specs artifact_schema_version =
     (if artifact_schema_version = [] then Inl (CapabilityContractError ''artifact_schema_version is required'')
      else if specs = [] then Inl (CapabilityContractError ''capability catalog must not be empty'')
      else add_specs [] specs)"

definition require :: "catalog \<Rightarrow> string \<Rightarrow> string \<Rightarrow> exc + capability_spec" where
  "require cat cap version = (case map_of cat (cap, version) of
     Some spec \<Rightarrow> Inr spec
   | None \<Rightarrow> Inl (UnsupportedCapability (''unsupported capability contract '' @ cap @ ''@'' @ version)))"

definition check_page_size :: "capability_request \<Rightarrow> capability_spec \<Rightarrow> exc + unit" where
  "check_page_size rq spec = (case rq_page_size rq of
     PInt n \<Rightarrow> and_then (py_int (dict_get_or (cs_pagination spec) ''maximum_page_size'' (PInt n)))
       (\<lambda>maximum. if maximum < n
          then Inl (CapabilityContractError (''page_size exceeds '' @ rq_capability_id rq @ '' contract maximum '' @ int_str maximum))
          else Inr ())
   | _ \<Rightarrow> Inr ())"

definition validate :: "(rat \<Rightarrow> string) \<Rightarrow> catalog \<Rightarrow> capability_request \<Rightarrow> exc + capability_request" where
  "validate fr cat rq =
     and_then (require cat (rq_capability_id rq) (rq_contract_version rq)) (\<lambda>spec.
     and_then (check_page_size rq spec) (\<lambda>_.
     and_then (validate_params fr spec (rq_params rq)) (\<lambda>params.
       make_request (rq_capability_id rq) (rq_contract_version rq) params (rq_cursor rq)
         (rq_page_size rq) (rq_correlation_id rq))))"

section \<open>Routes and the planner\<close>

abbreviation (input) not_positive :: "int option \<Rightarrow> bool" where
  "not_positive m \<equiv> (case m of None \<Rightarrow> False | Some v \<Rightarrow> v \<le> 0)"

text \<open>\<open>CapabilityRoute(...)\<close> with the checks of \<open>__post_init__\<close>.\<close>

definition make_route :: "capability_route \<Rightarrow> exc + capability_route" where
  "make_route rt =
     (if rt_route_id rt = [] \<or> rt_capability_id rt = [] \<or> rt_contract_version rt = [] then
        Inl (CapabilityContractError ''route_id, capability_id and capability_contract_version are required'')
      else if not_positive (rt_maximum_page_size rt) then
        Inl (CapabilityContractError ''maximum_page_size must be a positive integer'')
      else if not_positive (rt_maximum_pages rt) then
        Inl (CapabilityContractError ''maximum_pages must be a positive integer'')
      else if rt_executor_kind rt = XREV_PROTOCOL_RUNTIME \<and> rt_protocol_release_manifest rt \<in> {None, Some []} then
        Inl (CapabilityContractError ''XREV_PROTOCOL_RUNTIME routes require a protocol_release_manifest'')
      else Inr rt)"

text \<open>
  \<open>_route_supports_params\<close>: a parameter the route does not know must be null or the contract's default.
  The lookup \<open>spec.inputs[name]\<close> cannot miss after validation; a missing name is refused here.
\<close>

definition param_supported :: "capability_route \<Rightarrow> capability_spec \<Rightarrow> string \<times> pyval \<Rightarrow> bool" where
  "param_supported rt spec = (\<lambda>(name, val).
     name \<in> set (rt_supported_inputs rt) \<or>
     (case map_of (cs_inputs spec) name of None \<Rightarrow> False
      | Some field \<Rightarrow> val = PNone \<or> is_has_default field \<and> py_eq val (is_default field)))"

definition route_supports_params :: "capability_route \<Rightarrow> capability_spec \<Rightarrow> pydict \<Rightarrow> bool" where
  "route_supports_params rt spec params \<longleftrightarrow>
     rt_supported_inputs rt = [] \<or> list_all (param_supported rt spec) params"

definition route_serves :: "capability_request \<Rightarrow> capability_spec \<Rightarrow> capability_route \<Rightarrow> bool" where
  "route_serves rq spec rt \<longleftrightarrow>
     rt_enabled rt \<and> rt_capability_id rt = rq_capability_id rq \<and>
     rt_contract_version rt = rq_contract_version rq \<and>
     (let product = dict_get (rq_params rq) ''product''
      in rt_supported_products rt = [] \<or> product = PNone \<or> py_in product (map PStr (rt_supported_products rt))) \<and>
     route_supports_params rt spec (rq_params rq)"

definition route_rank :: "capability_route \<Rightarrow> int \<times> string" where
  "route_rank rt = (rt_priority rt, rt_route_id rt)"

text \<open>A requested amount against the route's maximum, with the warning when it is cut.\<close>

definition clamp :: "string \<Rightarrow> int option \<Rightarrow> int \<Rightarrow> int \<times> string list" where
  "clamp warning maximum n = (case maximum of
     None \<Rightarrow> (n, [])
   | Some m \<Rightarrow> if m < n then (m, [warning]) else (n, []))"

record planner =
  pn_catalog :: catalog
  pn_routes :: "capability_route list"

definition requested_page_size :: "capability_request \<Rightarrow> capability_spec \<Rightarrow> exc + int" where
  "requested_page_size rq spec = (case rq_page_size rq of
     PInt n \<Rightarrow> Inr n
   | _ \<Rightarrow> py_int (dict_get_or (cs_pagination spec) ''default_page_size'' (PInt 20)))"

definition plan_request :: "(rat \<Rightarrow> string) \<Rightarrow> planner \<Rightarrow> capability_request \<Rightarrow> exc + acquisition_plan" where
  "plan_request fr pn rq =
     and_then (validate fr (pn_catalog pn) rq) (\<lambda>v.
     and_then (require (pn_catalog pn) (rq_capability_id v) (rq_contract_version v)) (\<lambda>spec.
       case sort_key route_rank (filter (route_serves v spec) (pn_routes pn)) of
         [] \<Rightarrow> Inl (NoApprovedRoute (''no approved route for '' @ rq_capability_id v @ ''@'' @ rq_contract_version v))
       | rt # _ \<Rightarrow>
           and_then (requested_page_size v spec) (\<lambda>size.
           and_then (py_int (dict_get_or (rq_params v) ''max_pages'' (PInt 1))) (\<lambda>pages.
             let (size', w1) = clamp ''PAGE_SIZE_CLAMPED_TO_ROUTE'' (rt_maximum_page_size rt) size;
                 (pages', w2) = clamp ''MAX_PAGES_CLAMPED_TO_ROUTE'' (rt_maximum_pages rt) pages
             in Inr \<lparr>pl_request = v, pl_route = rt, pl_page_size = size', pl_max_pages = pages',
                     pl_warnings = w1 @ w2\<rparr>))))"

section \<open>The contract and the route the program ships\<close>

definition plain_input :: "string \<Rightarrow> input_spec" where
  "plain_input t = \<lparr>is_type = t, is_required = False, is_nullable = False, is_default = PNone,
     is_has_default = False, is_enum = [], is_minimum = None, is_maximum = None,
     is_minimum_length = None, is_format = None\<rparr>"

definition search_tweets_spec :: capability_spec where
  "search_tweets_spec =
     \<lparr>cs_capability_id = ''SEARCH_TWEETS'', cs_contract_version = ''1'',
      cs_inputs =
        [(''from_user'', (plain_input ''string'')\<lparr>is_nullable := True\<rparr>),
         (''include_replies'', (plain_input ''boolean'')\<lparr>is_default := PBool True, is_has_default := True\<rparr>),
         (''include_reposts'', (plain_input ''boolean'')\<lparr>is_default := PBool True, is_has_default := True\<rparr>),
         (''language'', (plain_input ''string'')\<lparr>is_nullable := True\<rparr>),
         (''max_pages'', (plain_input ''integer'')\<lparr>is_default := PInt 2, is_has_default := True,
            is_minimum := Some 1, is_maximum := Some 10\<rparr>),
         (''product'', (plain_input ''string'')\<lparr>is_default := PStr ''Latest'', is_has_default := True,
            is_enum := [PStr ''Latest'', PStr ''Top'', PStr ''Media'']\<rparr>),
         (''query'', (plain_input ''string'')\<lparr>is_required := True, is_minimum_length := Some 1\<rparr>),
         (''since'', (plain_input ''string'')\<lparr>is_nullable := True, is_format := Some ''date''\<rparr>),
         (''to_user'', (plain_input ''string'')\<lparr>is_nullable := True\<rparr>),
         (''until'', (plain_input ''string'')\<lparr>is_nullable := True, is_format := Some ''date''\<rparr>)],
      cs_pagination =
        [(''cursor_semantics'', PStr ''OPAQUE''), (''default_page_size'', PInt 20),
         (''maximum_page_size'', PInt 200), (''previous_cursor_optional'', PBool True)]\<rparr>"

definition legacy_route :: "int \<Rightarrow> int \<Rightarrow> capability_route" where
  "legacy_route maximum_page_size maximum_pages =
     \<lparr>rt_route_id = ''legacy-source-adapter/search-tweets/v1'', rt_capability_id = ''SEARCH_TWEETS'',
      rt_contract_version = ''1'', rt_executor_kind = LEGACY_SOURCE_ADAPTER, rt_priority = 100,
      rt_enabled = True, rt_supported_products = [''Latest''],
      rt_supported_inputs = [''query'', ''product'', ''max_pages''],
      rt_maximum_page_size = Some maximum_page_size, rt_maximum_pages = Some maximum_pages,
      rt_protocol_release_manifest = None\<rparr>"

definition legacy_search_planner :: "int \<Rightarrow> int \<Rightarrow> exc + planner" where
  "legacy_search_planner maximum_page_size maximum_pages =
     and_then (make_catalog [search_tweets_spec] ''1'') (\<lambda>cat.
     and_then (make_route (legacy_route maximum_page_size maximum_pages)) (\<lambda>rt.
       Inr \<lparr>pn_catalog = cat, pn_routes = [rt]\<rparr>))"

end
