(* ===== verification/Tokens.thy ===== *)
theory Tokens
  imports PyValue "HOL-Library.Option_ord" "HOL-Library.Product_Lexorder" "HOL-Library.Sublist"
begin

text \<open>
  \<open>TokenRepository\<close> of \<open>xingestion/control_plane.py\<close>, the pool of session tokens the collectors
  borrow, and the two services that write it from outside: \<open>token_refresh_service.py\<close> and the seeders
  \<open>bulk_account_seeder.py\<close> and \<open>seed_test.py\<close>. A lease is a row of its own; a token may be lent as
  often at a time as its \<open>max_concurrency\<close> says.
\<close>

section \<open>Rows\<close>

datatype token_status = ACTIVE | COOLDOWN | REVOKED

record token_row =
  k_id :: int
  k_key :: string
  k_value :: string
  k_status :: token_status
  k_cooldown_until :: "time option"
  k_last_error :: "string option"
  k_last_leased_at :: "time option"
  k_last_used_at :: "time option"
  k_max_concurrency :: int
  k_updated_at :: time

record lease_row =
  tl_id :: int
  tl_token_id :: int
  tl_owner :: string
  tl_acquired_at :: time
  tl_expires_at :: time

record token_lease =
  tk_lease_id :: int
  tk_token_id :: int
  tk_key :: string
  tk_value :: string
  tk_owner :: string
  tk_expires_at :: time

record tdb =
  tokens :: "token_row list"
  token_leases :: "lease_row list"
  token_seq :: int
  lease_seq :: int

definition empty_tdb :: tdb where
  "empty_tdb = \<lparr>tokens = [], token_leases = [], token_seq = 1, lease_seq = 1\<rparr>"

abbreviation token_by_id :: "tdb \<Rightarrow> int \<Rightarrow> token_row option" where
  "token_by_id db i \<equiv> fetch_key k_id i (tokens db)"

abbreviation lease_by_id :: "tdb \<Rightarrow> int \<Rightarrow> lease_row option" where
  "lease_by_id db i \<equiv> fetch_key tl_id i (token_leases db)"

section \<open>checkout\_token\<close>

text \<open>
  The transaction runs at READ COMMITTED: its \<open>DELETE\<close>, its \<open>SELECT\<close> and what follows the lock see what is committed when
  each of them starts, and all three use the one \<open>NOW()\<close> of the transaction. Its own writes are seen by others when it
  commits, so each statement is a definition and \<open>checkout_token\<close> puts them together with what others commit in between.
\<close>

record checkout_txn =
  ct_owner :: string
  ct_seconds :: int
  ct_now :: time
  ct_deleted :: "int list"

definition begin_checkout :: "string \<Rightarrow> int \<Rightarrow> time \<Rightarrow> tdb \<Rightarrow> checkout_txn" where
  "begin_checkout owner lease_seconds now db =
     \<lparr>ct_owner = owner, ct_seconds = lease_seconds, ct_now = now,
      ct_deleted = map tl_id (filter (\<lambda>l. tl_expires_at l \<le> now) (token_leases db))\<rparr>"

definition active_leases :: "time \<Rightarrow> tdb \<Rightarrow> token_row \<Rightarrow> nat" where
  "active_leases now db k =
     count_where (\<lambda>l. tl_token_id l = k_id k \<and> now < tl_expires_at l) (token_leases db)"

text \<open>The \<open>WHERE\<close> clause on a row of \<open>service_tokens\<close>, for a given count of the token's leases.\<close>

definition usable :: "time \<Rightarrow> nat \<Rightarrow> token_row \<Rightarrow> bool" where
  "usable now n k \<longleftrightarrow> k_status k = ACTIVE \<and>
     (k_cooldown_until k = None \<or> null_le (k_cooldown_until k) now) \<and> int n < k_max_concurrency k"

definition available :: "time \<Rightarrow> tdb \<Rightarrow> token_row \<Rightarrow> bool" where
  "available now db k \<longleftrightarrow> usable now (active_leases now db k) k"

text \<open>
  \<open>ORDER BY st.last_leased_at NULLS FIRST, st.id ASC\<close>: in the library's order on options, None comes first. The
  rows that match in the statement's snapshot, in this order, each with the count of its leases there.
\<close>

abbreviation turn :: "token_row \<Rightarrow> time option \<times> int" where
  "turn k \<equiv> (k_last_leased_at k, k_id k)"

definition candidates :: "checkout_txn \<Rightarrow> tdb \<Rightarrow> (int \<times> nat) list" where
  "candidates txn db = map (\<lambda>k. (k_id k, active_leases (ct_now txn) db k))
     (sort_key turn (filter (available (ct_now txn) db) (tokens db)))"

text \<open>
  \<open>FOR UPDATE OF st SKIP LOCKED LIMIT 1\<close>: rows that others have locked are passed over. A row that was changed since the
  snapshot is checked again as it is now, but the count of the other table stays that of the snapshot.
\<close>

definition lock_token :: "int list \<Rightarrow> checkout_txn \<Rightarrow> (int \<times> nat) list \<Rightarrow> tdb \<Rightarrow> token_row option" where
  "lock_token locked txn cands db =
     (case find (\<lambda>(i, n). i \<notin> set locked \<and>
             (case token_by_id db i of None \<Rightarrow> False | Some k \<Rightarrow> usable (ct_now txn) n k)) cands of
        None \<Rightarrow> None
      | Some (i, _) \<Rightarrow> token_by_id db i)"

definition drop_deleted :: "checkout_txn \<Rightarrow> tdb \<Rightarrow> tdb" where
  "drop_deleted txn db = db\<lparr>token_leases := delete_where (\<lambda>l. tl_id l \<in> set (ct_deleted txn)) (token_leases db)\<rparr>"

definition touch_token :: "time \<Rightarrow> token_row \<Rightarrow> token_row" where
  "touch_token now k = k\<lparr>k_last_leased_at := Some now, k_updated_at := now\<rparr>"

text \<open>
  From the lock to the commit. The insert violates \<open>UNIQUE (token_id, lease_owner)\<close> when this owner has a lease
  row of the token that was locked; the exception rolls the transaction back, all but the sequence.
\<close>

definition commit_checkout ::
  "int list \<Rightarrow> checkout_txn \<Rightarrow> (int \<times> nat) list \<Rightarrow> tdb \<Rightarrow> (exc + token_lease option) \<times> tdb" where
  "commit_checkout locked txn cands db =
     (let db1 = drop_deleted txn db
      in case lock_token locked txn cands db of
           None \<Rightarrow> (Inr None, db1)
         | Some k \<Rightarrow>
             (if \<exists>l\<in>set (token_leases db1). tl_token_id l = k_id k \<and> tl_owner l = ct_owner txn
              then (Inl (DbError ''unique violation: service_token_leases (token_id, lease_owner)''),
                    db\<lparr>lease_seq := lease_seq db + 1\<rparr>)
              else
                (let row = \<lparr>tl_id = lease_seq db, tl_token_id = k_id k, tl_owner = ct_owner txn,
                            tl_acquired_at = ct_now txn, tl_expires_at = ct_now txn + seconds (ct_seconds txn)\<rparr>
                 in (Inr (Some \<lparr>tk_lease_id = tl_id row, tk_token_id = k_id k, tk_key = k_key k,
                                tk_value = k_value k, tk_owner = ct_owner txn, tk_expires_at = tl_expires_at row\<rparr>),
                     db1\<lparr>token_leases := token_leases db1 @ [row], lease_seq := lease_seq db + 1,
                         tokens := update_where (\<lambda>x. k_id x = k_id k) (touch_token (ct_now txn)) (tokens db)\<rparr>))))"

text \<open>\<open>deleted\<close> and \<open>selected\<close> are what other transactions commit after the \<open>DELETE\<close> and during the \<open>SELECT\<close>.\<close>

definition checkout_token ::
  "string \<Rightarrow> int \<Rightarrow> int list \<Rightarrow> (tdb \<Rightarrow> tdb) \<Rightarrow> (tdb \<Rightarrow> tdb) \<Rightarrow> time \<Rightarrow> tdb \<Rightarrow> (exc + token_lease option) \<times> tdb" where
  "checkout_token owner lease_seconds locked deleted selected now db =
     (let txn = begin_checkout owner lease_seconds now db;
          db1 = deleted db
      in commit_checkout locked txn (candidates txn db1) (selected db1))"

section \<open>Giving a token back\<close>

definition is_lease :: "token_lease \<Rightarrow> lease_row \<Rightarrow> bool" where
  "is_lease lease l \<longleftrightarrow> tl_id l = tk_lease_id lease \<and> tl_owner l = tk_owner lease"

definition release_lease :: "token_lease \<Rightarrow> tdb \<Rightarrow> tdb" where
  "release_lease lease db = db\<lparr>token_leases := delete_where (is_lease lease) (token_leases db)\<rparr>"

definition used_token :: "time \<Rightarrow> token_row \<Rightarrow> token_row" where
  "used_token now k = k\<lparr>k_last_used_at := Some now,
     k_last_error := (if k_status k = ACTIVE then None else k_last_error k), k_updated_at := now\<rparr>"

definition record_success :: "token_lease \<Rightarrow> time \<Rightarrow> tdb \<Rightarrow> tdb" where
  "record_success lease now db =
     release_lease lease
       (db\<lparr>tokens := update_where (\<lambda>k. k_id k = tk_token_id lease) (used_token now) (tokens db)\<rparr>)"

definition cool_token :: "int \<Rightarrow> string \<Rightarrow> time \<Rightarrow> token_row \<Rightarrow> token_row" where
  "cool_token cooldown_seconds error_message now k =
     k\<lparr>k_status := COOLDOWN, k_cooldown_until := Some (now + seconds cooldown_seconds),
       k_last_error := Some (take 4000 error_message), k_updated_at := now\<rparr>"

definition mark_cooldown :: "token_lease \<Rightarrow> int \<Rightarrow> string \<Rightarrow> time \<Rightarrow> tdb \<Rightarrow> tdb" where
  "mark_cooldown lease cooldown_seconds error_message now db =
     release_lease lease
       (db\<lparr>tokens := update_where (\<lambda>k. k_id k = tk_token_id lease)
            (cool_token cooldown_seconds error_message now) (tokens db)\<rparr>)"

section \<open>recover\_expired\_cooldowns\<close>

definition cooled_down :: "time \<Rightarrow> token_row \<Rightarrow> bool" where
  "cooled_down now k \<longleftrightarrow> k_status k = COOLDOWN \<and> null_le (k_cooldown_until k) now"

definition revive_token :: "time \<Rightarrow> token_row \<Rightarrow> token_row" where
  "revive_token now k =
     k\<lparr>k_status := ACTIVE, k_cooldown_until := None, k_last_error := None, k_updated_at := now\<rparr>"

definition recover_expired_cooldowns :: "time \<Rightarrow> tdb \<Rightarrow> nat \<times> tdb" where
  "recover_expired_cooldowns now db =
     (count_where (cooled_down now) (tokens db),
      db\<lparr>tokens := update_where (cooled_down now) (revive_token now) (tokens db)\<rparr>)"

section \<open>Writers outside the worker\<close>

definition upsert_token :: "string \<Rightarrow> string \<Rightarrow> token_status \<Rightarrow> time \<Rightarrow> tdb \<Rightarrow> tdb" where
  "upsert_token key val status now db =
     (case fetch_key k_key key (tokens db) of
        Some _ \<Rightarrow> db\<lparr>token_seq := token_seq db + 1,
                     tokens := update_where (\<lambda>k. k_key k = key)
                       (\<lambda>k. k\<lparr>k_value := val, k_status := status, k_updated_at := now\<rparr>) (tokens db)\<rparr>
      | None \<Rightarrow> db\<lparr>token_seq := token_seq db + 1,
                   tokens := tokens db @ [\<lparr>k_id = token_seq db, k_key = key, k_value = val,
                     k_status = status, k_cooldown_until = None, k_last_error = None,
                     k_last_leased_at = None, k_last_used_at = None, k_max_concurrency = 1,
                     k_updated_at = now\<rparr>]\<rparr>)"

text \<open>\<open>login\<close> is what the client library gave, the exported cookies or an exception.\<close>

definition register_account_tokens :: "string \<Rightarrow> exc + string \<Rightarrow> time \<Rightarrow> tdb \<Rightarrow> tdb" where
  "register_account_tokens username login now db =
     (case login of Inl _ \<Rightarrow> db | Inr cookies \<Rightarrow> upsert_token username cookies ACTIVE now db)"

definition seed_rows :: "(string \<times> string) list" where
  "seed_rows = [(''test_account_01'', ''{}''), (''test_account_02'', ''{}'')]"

definition seed_tokens :: "time \<Rightarrow> tdb \<Rightarrow> nat \<times> tdb" where
  "seed_tokens now db =
     (length seed_rows, fold (\<lambda>(key, val). upsert_token key val REVOKED now) seed_rows db)"

text \<open>\<open>last_error LIKE '%401%' OR ... LIKE '%unauthorized%' OR ... LIKE '%auth%'\<close>.\<close>

definition needs_repair :: "token_row \<Rightarrow> bool" where
  "needs_repair k \<longleftrightarrow> k_status k = COOLDOWN \<and>
     (case k_last_error k of None \<Rightarrow> False
      | Some e \<Rightarrow> sublist ''401'' e \<or> sublist ''unauthorized'' e \<or> sublist ''auth'' e)"

text \<open>
  The repair of one session reads the credentials from the row's \<open>token_value\<close>. \<open>json_loads\<close> and \<open>login\<close> (user name,
  e-mail, password, TOTP secret; the fresh cookies as JSON text) belong to libraries, \<open>NOW()\<close> and the failures of the two
  updates are those of each row. What the repair raises revokes the token, except a cancellation, which is no
  \<open>Exception\<close> and ends the repair like a failing revocation.
\<close>

record repair_env =
  re_json_loads :: "string \<Rightarrow> exc + pyval"
  re_login :: "string \<Rightarrow> pyval \<Rightarrow> pyval \<Rightarrow> pyval \<Rightarrow> exc + string"
  re_clock :: "int \<Rightarrow> time"
  re_update_fails :: "int \<Rightarrow> exc option"
  re_revoke_fails :: "int \<Rightarrow> exc option"

definition revoke_token :: "exc \<Rightarrow> token_row \<Rightarrow> token_row" where
  "revoke_token e k =
     k\<lparr>k_status := REVOKED, k_last_error := Some (take 2000 (''re_auth_failed: '' @ exc_str e))\<rparr>"

fun py_type_name :: "pyval \<Rightarrow> string" where
  "py_type_name PNone = ''NoneType''"
| "py_type_name (PBool _) = ''bool''"
| "py_type_name (PInt _) = ''int''"
| "py_type_name (PFloat _) = ''float''"
| "py_type_name (PStr _) = ''str''"
| "py_type_name (PList _) = ''list''"
| "py_type_name (PDict _) = ''dict''"

definition set_token :: "token_row \<Rightarrow> (token_row \<Rightarrow> token_row) \<Rightarrow> tdb \<Rightarrow> tdb" where
  "set_token row f db = db\<lparr>tokens := update_where (\<lambda>k. k_id k = k_id row) f (tokens db)\<rparr>"

definition repair_failed :: "repair_env \<Rightarrow> token_row \<Rightarrow> exc \<Rightarrow> tdb \<Rightarrow> (exc + unit) \<times> tdb" where
  "repair_failed env row e db =
     (if e = CancelledError then (Inl CancelledError, db)
      else case re_revoke_fails env (k_id row) of
             Some e' \<Rightarrow> (Inl e', db)
           | None \<Rightarrow> (Inr (), set_token row (revoke_token e) db))"

definition programmatically_repair_session :: "repair_env \<Rightarrow> token_row \<Rightarrow> tdb \<Rightarrow> (exc + unit) \<times> tdb" where
  "programmatically_repair_session env row db =
     (case re_json_loads env (k_value row) of
        Inl e \<Rightarrow> repair_failed env row e db
      | Inr (PDict creds) \<Rightarrow>
          (let email = dict_get creds ''email''; password = dict_get creds ''password''
           in if \<not> truthy email \<or> \<not> truthy password then (Inr (), db)
              else (case re_login env (k_key row) email password (dict_get creds ''totp_secret'') of
                      Inl e \<Rightarrow> repair_failed env row e db
                    | Inr cookies \<Rightarrow>
                        (case re_update_fails env (k_id row) of
                           Some e \<Rightarrow> repair_failed env row e db
                         | None \<Rightarrow> (Inr (), set_token row (\<lambda>k. (revive_token (re_clock env (k_id row)) k)\<lparr>k_value := cookies\<rparr>) db))))
      | Inr v \<Rightarrow> repair_failed env row (Other ''AttributeError''
          ([CHR 0x27] @ py_type_name v @ [CHR 0x27] @ '' object has no attribute '' @ [CHR 0x27] @ ''get'' @ [CHR 0x27])) db)"

text \<open>\<open>scan_and_triage_dead_tokens\<close> repairs the rows of one query, each with a \<open>NOW()\<close> of its own.\<close>

fun repair_all :: "repair_env \<Rightarrow> token_row list \<Rightarrow> tdb \<Rightarrow> (exc + unit) \<times> tdb" where
  "repair_all env [] db = (Inr (), db)"
| "repair_all env (k # ks) db =
     (case programmatically_repair_session env k db of
        (Inl e, db1) \<Rightarrow> (Inl e, db1)
      | (Inr _, db1) \<Rightarrow> repair_all env ks db1)"

definition scan_and_triage_dead_tokens :: "repair_env \<Rightarrow> tdb \<Rightarrow> (exc + unit) \<times> tdb" where
  "scan_and_triage_dead_tokens env db = repair_all env (filter needs_repair (tokens db)) db"

section \<open>The repository as the collector sees it\<close>

text \<open>
  The four calls a collection makes, over any pool and any surroundings of a call (\<open>'env\<close>); the
  repository's have its two settings, and its surroundings are the rows other transactions lock, what they
  commit while a checkout runs, and the database times of the two transactions.
\<close>

record ('env, 'db) session_ops =
  so_checkout :: "'env \<Rightarrow> string \<Rightarrow> 'db \<Rightarrow> (exc + token_lease option) \<times> 'db"
  so_success :: "'env \<Rightarrow> token_lease \<Rightarrow> 'db \<Rightarrow> 'db"
  so_release :: "'env \<Rightarrow> token_lease \<Rightarrow> 'db \<Rightarrow> 'db"
  so_cooldown :: "'env \<Rightarrow> token_lease \<Rightarrow> string \<Rightarrow> 'db \<Rightarrow> 'db"

record pool_env =
  pe_locked :: "int list"
  pe_deleted :: "tdb \<Rightarrow> tdb"
  pe_selected :: "tdb \<Rightarrow> tdb"
  pe_start :: time
  pe_end :: time

definition token_repo :: "int \<Rightarrow> int \<Rightarrow> (pool_env, tdb) session_ops" where
  "token_repo lease_seconds cooldown_seconds =
     \<lparr>so_checkout = (\<lambda>env owner. 
        checkout_token owner lease_seconds (pe_locked env) (pe_deleted env) (pe_selected env) (pe_start env)),
      so_success = (\<lambda>env lease. record_success lease (pe_end env)),
      so_release = (\<lambda>env. release_lease),
      so_cooldown = (\<lambda>env lease msg. mark_cooldown lease cooldown_seconds msg (pe_end env))\<rparr>"

end
