(* ===== verification/Collector.thy ===== *)
theory Collector
  imports Worker Capabilities Tokens
begin

text \<open>
  \<open>IngestionExecutor\<close> of \<open>worker.py\<close>: a task's payload becomes a plan, the plan's pages are collected
  one after another, each under a session borrowed from the pool, with one failover to another session and
  then the recovery adapter. What an adapter returns or raises is a parameter, as are the commits other
  processes make while it runs; the pool is any \<open>session_ops\<close>.
\<close>

section \<open>Adapters\<close>

record collection_request =
  cr_query :: string
  cr_product :: string
  cr_cursor :: "string option"
  cr_page_size :: int

record collection_batch =
  cb_items :: "pydict list"
  cb_next_cursor :: pyval
  cb_adapter_name :: string
  cb_adapter_version :: string
  cb_metadata :: pydict

record source_adapter =
  sa_name :: string
  sa_version :: string
  sa_requires_session :: bool

text \<open>
  The surroundings of one attempt: of the two calls of the pool, the commits in between, and how the adapter
  answers.
\<close>

record ('env, 'db) attempt_env =
  ae_checkout :: 'env
  ae_others :: "'db \<Rightarrow> 'db"
  ae_answer :: "source_adapter \<Rightarrow> collection_request \<Rightarrow> token_lease option \<Rightarrow> exc + collection_batch"
  ae_back :: 'env

section \<open>\_collect\_with\_session\<close>

text \<open>The \<open>except\<close> and \<open>else\<close> clauses. \<open>CancelledError\<close> is not an \<open>Exception\<close>, so no clause sees it.\<close>

definition give_back ::
  "('env, 'db) session_ops \<Rightarrow> 'env \<Rightarrow> token_lease \<Rightarrow> exc + collection_batch \<Rightarrow> 'db \<Rightarrow> 'db" where
  "give_back ops env lease answer db = (case answer of
     Inr _ \<Rightarrow> so_success ops env lease db
   | Inl (Collection k msg _) \<Rightarrow>
       (if session_fault k then so_cooldown ops env lease (failure_class k @ '':'' @ msg) db
        else so_release ops env lease db)
   | Inl CancelledError \<Rightarrow> db
   | Inl _ \<Rightarrow> so_release ops env lease db)"

definition collect_with_session ::
  "('env, 'db) session_ops \<Rightarrow> source_adapter \<Rightarrow> collection_request \<Rightarrow> string \<Rightarrow> ('env, 'db) attempt_env \<Rightarrow> 'db \<Rightarrow>
     (exc + collection_batch) \<times> 'db" where
  "collect_with_session ops adapter req worker_id ae db =
     (if sa_requires_session adapter then
        (case so_checkout ops (ae_checkout ae) worker_id db of
           (Inl e, db1) \<Rightarrow> (Inl e, db1)
         | (Inr None, db1) \<Rightarrow>
             (Inl (Collection AuthenticationFailure ''no ACTIVE session is currently available'' None), db1)
         | (Inr (Some lease), db1) \<Rightarrow>
             (let answer = ae_answer ae adapter req (Some lease)
              in (answer, give_back ops (ae_back ae) lease answer (ae_others ae db1))))
      else (ae_answer ae adapter req None, ae_others ae db))"

section \<open>One page\<close>

record ('env, 'db) page_env =
  pg_first :: "('env, 'db) attempt_env"
  pg_failover :: "('env, 'db) attempt_env"
  pg_recovery :: "('env, 'db) attempt_env"

definition recover_page ::
  "('env, 'db) session_ops \<Rightarrow> source_adapter option \<Rightarrow> collection_request \<Rightarrow> string \<Rightarrow> ('env, 'db) page_env \<Rightarrow>
     exc \<Rightarrow> 'db \<Rightarrow> (exc + collection_batch) \<times> 'db" where
  "recover_page ops recovery req worker_id pe failure db = (case recovery of
     None \<Rightarrow> (Inl failure, db)
   | Some adapter \<Rightarrow> collect_with_session ops adapter req (worker_id @ '':recovery'') (pg_recovery pe) db)"

definition collect_page ::
  "('env, 'db) session_ops \<Rightarrow> source_adapter \<Rightarrow> source_adapter option \<Rightarrow> collection_request \<Rightarrow> string \<Rightarrow>
     ('env, 'db) page_env \<Rightarrow> 'db \<Rightarrow> (exc + collection_batch) \<times> 'db" where
  "collect_page ops primary recovery req worker_id pe db =
     (case collect_with_session ops primary req worker_id (pg_first pe) db of
        (Inl (Collection k msg after), db1) \<Rightarrow>
          (if k \<in> {AuthenticationFailure, RateLimited} then
             (case collect_with_session ops primary req (worker_id @ '':failover'') (pg_failover pe) db1 of
                (Inl (Collection k2 msg2 after2), db2) \<Rightarrow>
                  recover_page ops recovery req worker_id pe (Collection k2 msg2 after2) db2
              | result \<Rightarrow> result)
           else recover_page ops recovery req worker_id pe (Collection k msg after) db1)
      | result \<Rightarrow> result)"

section \<open>All pages\<close>

definition tag_item :: "collection_batch \<Rightarrow> pydict \<Rightarrow> pydict" where
  "tag_item batch item =
     dict_setdefault ''_collector_adapter_version'' (PStr (cb_adapter_version batch))
       (dict_setdefault ''_collector_adapter'' (PStr (cb_adapter_name batch)) item)"

definition page_entry :: "nat \<Rightarrow> collection_batch \<Rightarrow> pydict" where
  "page_entry page batch =
     [(''page'', PInt (int page)), (''name'', PStr (cb_adapter_name batch)),
      (''version'', PStr (cb_adapter_version batch)), (''count'', PInt (int (length (cb_items batch)))),
      (''metadata'', PDict (cb_metadata batch))]"

record collected =
  co_items :: "pydict list"
  co_pages :: "pydict list"
  co_cursor :: pyval

definition add_batch :: "collection_batch \<Rightarrow> collected \<Rightarrow> collected" where
  "add_batch batch acc =
     \<lparr>co_items = co_items acc @ map (tag_item batch) (cb_items batch),
      co_pages = co_pages acc @ [page_entry (length (co_pages acc) + 1) batch],
      co_cursor = cb_next_cursor batch\<rparr>"

text \<open>\<open>for page_number in range(max_pages)\<close>, with the \<open>break\<close> on an empty cursor.\<close>

fun collect_pages ::
  "(rat \<Rightarrow> string) \<Rightarrow> ('env, 'db) session_ops \<Rightarrow> source_adapter \<Rightarrow> source_adapter option \<Rightarrow> string \<times> string \<times> int \<Rightarrow>
     string \<Rightarrow> (nat \<Rightarrow> ('env, 'db) page_env) \<Rightarrow> nat \<Rightarrow> collected \<Rightarrow> 'db \<Rightarrow> (exc + collected) \<times> 'db" where
  "collect_pages fr ops primary recovery (query, product, page_size) worker_id envs 0 acc db = (Inr acc, db)"
| "collect_pages fr ops primary recovery (query, product, page_size) worker_id envs (Suc n) acc db =
     (let cursor = co_cursor acc;
          req = \<lparr>cr_query = query, cr_product = product,
                 cr_cursor = (if truthy cursor then Some (py_str fr cursor) else None), cr_page_size = page_size\<rparr>
      in case collect_page ops primary recovery req worker_id (envs (length (co_pages acc))) db of
           (Inl e, db1) \<Rightarrow> (Inl e, db1)
         | (Inr batch, db1) \<Rightarrow>
             (let acc1 = add_batch batch acc
              in if truthy (co_cursor acc1)
                 then collect_pages fr ops primary recovery (query, product, page_size) worker_id envs n acc1 db1
                 else (Inr acc1, db1)))"

section \<open>collect\<close>

record executor =
  ex_primary :: source_adapter
  ex_recovery :: "source_adapter option"
  ex_planner :: planner
  ex_max_pages :: int

text \<open>\<open>IngestionExecutor(...)\<close> without a planner of its own.\<close>

definition make_executor :: "source_adapter \<Rightarrow> source_adapter option \<Rightarrow> int \<Rightarrow> int \<Rightarrow> exc + executor" where
  "make_executor primary recovery collector_page_size collector_max_pages =
     and_then (legacy_search_planner (min collector_page_size 20) collector_max_pages)
       (\<lambda>pn. Inr \<lparr>ex_primary = primary, ex_recovery = recovery, ex_planner = pn, ex_max_pages = collector_max_pages\<rparr>)"

fun contract_error :: "exc \<Rightarrow> bool" where
  "contract_error (CapabilityContractError _) = True"
| "contract_error (UnsupportedCapability _) = True"
| "contract_error (NoApprovedRoute _) = True"
| "contract_error _ = False"

fun executor_kind_value :: "executor_kind \<Rightarrow> string" where
  "executor_kind_value LEGACY_SOURCE_ADAPTER = ''LEGACY_SOURCE_ADAPTER''"
| "executor_kind_value XREV_PROTOCOL_RUNTIME = ''XREV_PROTOCOL_RUNTIME''"
| "executor_kind_value FIXTURE = ''FIXTURE''"

definition correlation_of :: "task_lease \<Rightarrow> string" where
  "correlation_of task = ''task:'' @ int_str (l_id task) @ '':generation:'' @ int_str (l_generation task)"

text \<open>Everything before the first page: a contract error or a route for another executor is permanent.\<close>

definition plan_task :: "(rat \<Rightarrow> string) \<Rightarrow> executor \<Rightarrow> task_lease \<Rightarrow> exc + acquisition_plan" where
  "plan_task fr ex task =
     (let payload = (if l_task_type task = LEGACY_SEARCH_TASK_TYPE
                     then dict_setdefault ''max_pages'' (PInt (ex_max_pages ex)) (l_payload task)
                     else l_payload task)
      in case and_then (request_from_task fr (l_task_type task) payload (PStr (correlation_of task)))
                (plan_request fr (ex_planner ex)) of
           Inl e \<Rightarrow> Inl (if contract_error e then Collection PermanentTaskFailure (exc_str e) None else e)
         | Inr plan \<Rightarrow>
             (if rt_executor_kind (pl_route plan) \<noteq> LEGACY_SOURCE_ADAPTER
              then Inl (Collection PermanentTaskFailure (''route '' @ rt_route_id (pl_route plan) @
                     '' requires unsupported executor '' @ executor_kind_value (rt_executor_kind (pl_route plan))) None)
              else Inr plan))"

definition required_param :: "pydict \<Rightarrow> string \<Rightarrow> exc + pyval" where
  "required_param d k = (case map_of d k of None \<Rightarrow> Inl (KeyError (repr_str k)) | Some v \<Rightarrow> Inr v)"

definition collection_metadata :: "acquisition_plan \<Rightarrow> string \<Rightarrow> string \<Rightarrow> collected \<Rightarrow> pydict" where
  "collection_metadata plan query product acc =
     [(''capability_id'', PStr (rq_capability_id (pl_request plan))),
      (''capability_contract_version'', PStr (rq_contract_version (pl_request plan))),
      (''acquisition_route'', PStr (rt_route_id (pl_route plan))),
      (''query'', PStr query), (''product'', PStr product),
      (''pages'', PInt (int (length (co_pages acc)))),
      (''items_collected'', PInt (int (length (co_items acc)))),
      (''adapters'', PList (map PDict (co_pages acc))),
      (''next_cursor'', co_cursor acc),
      (''planner_warnings'', PList (map PStr (pl_warnings plan)))]"

definition collect ::
  "(rat \<Rightarrow> string) \<Rightarrow> ('env, 'db) session_ops \<Rightarrow> executor \<Rightarrow> task_lease \<Rightarrow> string \<Rightarrow> (nat \<Rightarrow> ('env, 'db) page_env) \<Rightarrow>
     'db \<Rightarrow> (exc + pydict list \<times> pydict) \<times> 'db" where
  "collect fr ops ex task worker_id envs db =
     (case plan_task fr ex task of
        Inl e \<Rightarrow> (Inl e, db)
      | Inr plan \<Rightarrow>
          (case and_then (required_param (rq_params (pl_request plan)) ''query'') (\<lambda>q.
                  and_then (required_param (rq_params (pl_request plan)) ''product'') (\<lambda>p. Inr (py_str fr q, py_str fr p))) of
             Inl e \<Rightarrow> (Inl e, db)
           | Inr (query, product) \<Rightarrow>
               (case collect_pages fr ops (ex_primary ex) (ex_recovery ex) (query, product, pl_page_size plan) worker_id
                       envs (nat (pl_max_pages plan))
                       \<lparr>co_items = [], co_pages = [], co_cursor = rq_cursor (pl_request plan)\<rparr> db of
                  (Inl e, db1) \<Rightarrow> (Inl e, db1)
                | (Inr acc, db1) \<Rightarrow> (Inr (co_items acc, collection_metadata plan query product acc), db1))))"

end
