(* ===== verification/CapabilityProps.thy ===== *)
theory CapabilityProps
  imports Capabilities
begin

text \<open>
  What the contracts guarantee: validation is a projection that survives storage of the request as a task
  payload, and the plan of the route the program ships is bounded by contract and route, whatever the
  request was.
\<close>

section \<open>One input\<close>

lemma validate_length_Inr:
  "validate_length n spec s = Inr t \<longleftrightarrow>
     (case is_minimum_length spec of None \<Rightarrow> t = s | Some m \<Rightarrow> m \<le> int (length (strip s)) \<and> t = strip s)"
  by (auto simp: validate_length_def split: option.splits)

lemma validate_date_Inr:
  "validate_date n spec s = Inr t \<longleftrightarrow> t = s \<and> (is_format spec = Some ''date'' \<longrightarrow> valid_iso_date s)"
  by (auto simp: validate_date_def)

lemma validate_range_Inr:
  "validate_range n spec i = Inr j \<longleftrightarrow> j = i \<and> \<not> below (is_minimum spec) i \<and> \<not> above (is_maximum spec) i"
  by (auto simp: validate_range_def)

lemmas validate_Inr = validate_length_Inr validate_date_Inr validate_range_Inr

lemma validate_value_type: "validate_value n v spec = Inr x \<Longrightarrow> has_type t x = has_type t v"
  by (auto simp: validate_value_def and_then_Inr split: pyval.splits)

lemma validate_value_idem: "validate_value n v spec = Inr x \<Longrightarrow> validate_value n x spec = Inr x"
  by (auto simp: validate_value_def and_then_Inr validate_Inr split: pyval.splits option.splits)

lemma validate_value_same:
  "is_minimum_length spec = None \<Longrightarrow> validate_value n v spec = Inr x \<Longrightarrow> x = v"
  by (auto simp: validate_value_def and_then_Inr validate_Inr split: pyval.splits option.splits)

lemma validate_input_Inr:
  "validate_input fr n v spec = Inr x \<longleftrightarrow>
     (if v = PNone then is_nullable spec \<and> x = PNone
      else has_type (is_type spec) v \<and> (is_enum spec = [] \<or> py_in v (is_enum spec)) \<and>
           validate_value n v spec = Inr x)"
  by (cases v) (auto simp: validate_input_def)

text \<open>
  An input is settled when its default passes its own checks and no value is stripped after its
  membership in an enumeration was tested.
\<close>

definition settled_input :: "(rat \<Rightarrow> string) \<Rightarrow> string \<times> input_spec \<Rightarrow> bool" where
  "settled_input fr = (\<lambda>(n, spec).
     (is_has_default spec \<longrightarrow> validate_input fr n (is_default spec) spec = Inr (is_default spec)) \<and>
     (is_enum spec = [] \<or> is_minimum_length spec = None))"

lemma validate_input_idem:
  assumes settled: "settled_input fr (n, spec)" and ok: "validate_input fr n v spec = Inr x"
  shows "validate_input fr n x spec = Inr x"
proof (cases "v = PNone")
  case True
  then show ?thesis using ok by (simp add: validate_input_Inr split: if_splits)
next
  case False
  with ok have v: "has_type (is_type spec) v" "is_enum spec = [] \<or> py_in v (is_enum spec)"
    "validate_value n v spec = Inr x"
    by (simp_all add: validate_input_Inr)
  then have "has_type (is_type spec) x" using validate_value_type by blast
  moreover from this have "x \<noteq> PNone" by auto
  moreover have "is_enum spec = [] \<or> py_in x (is_enum spec)"
    using v(2) settled validate_value_same [OF _ v(3)] by (auto simp: settled_input_def)
  ultimately show ?thesis using validate_value_idem [OF v(3)] by (simp add: validate_input_Inr)
qed

section \<open>All inputs\<close>

lemma normal_input_key: "normal_input fr cap ps n spec = Inr e \<Longrightarrow> e = [] \<or> (\<exists>v. e = [(n, v)])"
  by (auto simp: normal_input_def and_then_Inr split: option.splits if_splits)

lemma normal_inputs_keys:
  "normal_inputs fr cap ps inputs = Inr d \<Longrightarrow> fst ` set d \<subseteq> fst ` set inputs"
proof (induction inputs arbitrary: d)
  case (Cons a inputs)
  obtain n spec where a: "a = (n, spec)" by (cases a)
  with Cons.prems obtain e r where e: "normal_input fr cap ps n spec = Inr e"
    and r: "normal_inputs fr cap ps inputs = Inr r" and d: "d = e @ r"
    by (auto simp: and_then_Inr)
  have "fst ` set e \<subseteq> {n}" using normal_input_key [OF e] by auto
  with Cons.IH [OF r] show ?case by (auto simp: a d)
qed simp

lemma normal_inputs_at:
  assumes "normal_inputs fr cap ps inputs = Inr d" and "distinct (map fst inputs)" and "(n, spec) \<in> set inputs"
  shows "\<exists>e. normal_input fr cap ps n spec = Inr e \<and> map_of d n = map_of e n"
  using assms
proof (induction inputs arbitrary: d)
  case (Cons a inputs)
  obtain m sp where a: "a = (m, sp)" by (cases a)
  with Cons.prems obtain e r where e: "normal_input fr cap ps m sp = Inr e"
    and r: "normal_inputs fr cap ps inputs = Inr r" and d: "d = e @ r"
    by (auto simp: and_then_Inr)
  show ?case
  proof (cases "n = m")
    case True
    have "n \<notin> fst ` set r" using normal_inputs_keys [OF r] Cons.prems(2) True by (auto simp: a)
    then have "map_of r n = None" by (simp add: map_of_eq_None_iff)
    then have "map_of d n = map_of e n" by (auto simp: d map_add_def split: option.split)
    moreover have "spec = sp" using Cons.prems(2,3) True by (auto simp: a image_iff)
    ultimately show ?thesis using e True by blast
  next
    case False
    then have "map_of e n = None" using normal_input_key [OF e] by auto
    then have "map_of d n = map_of r n" by (simp add: d map_add_def split: option.splits)
    with Cons.IH [OF r] Cons.prems False show ?thesis by (simp add: a)
  qed
qed simp

lemma normal_inputs_cong:
  "(\<And>n spec. (n, spec) \<in> set inputs \<Longrightarrow> normal_input fr cap ps n spec = normal_input fr cap qs n spec) \<Longrightarrow>
     normal_inputs fr cap ps inputs = normal_inputs fr cap qs inputs"
proof (induction inputs)
  case (Cons a inputs)
  obtain n spec where a: "a = (n, spec)" by (cases a)
  have "normal_input fr cap ps n spec = normal_input fr cap qs n spec" using Cons.prems by (simp add: a)
  moreover have "normal_inputs fr cap ps inputs = normal_inputs fr cap qs inputs"
    using Cons.IH Cons.prems by simp
  ultimately show ?case by (simp add: a)
qed simp

lemma normal_input_idem:
  assumes settled: "settled_input fr (n, spec)" and e: "normal_input fr cap ps n spec = Inr e"
    and d: "map_of d n = map_of e n"
  shows "normal_input fr cap d n spec = Inr e"
proof (cases "map_of ps n")
  case None
  with e d settled show ?thesis
    by (auto simp: normal_input_def settled_input_def split: if_splits)
next
  case (Some v)
  with e obtain x where "validate_input fr n v spec = Inr x" and ex: "e = [(n, x)]"
    by (auto simp: normal_input_def and_then_Inr)
  then have "validate_input fr n x spec = Inr x" using validate_input_idem [OF settled] by blast
  with d ex show ?thesis by (simp add: normal_input_def)
qed

definition settled_spec :: "(rat \<Rightarrow> string) \<Rightarrow> capability_spec \<Rightarrow> bool" where
  "settled_spec fr spec \<longleftrightarrow> distinct (map fst (cs_inputs spec)) \<and> list_all (settled_input fr) (cs_inputs spec)"

lemma unknown_inputs_Nil: "unknown_inputs spec d = [] \<longleftrightarrow> fst ` set d \<subseteq> fst ` set (cs_inputs spec)"
proof -
  have "unknown_inputs spec d = [] \<longleftrightarrow> set (unknown_inputs spec d) = {}" by simp
  also have "\<dots> \<longleftrightarrow> fst ` set d \<subseteq> fst ` set (cs_inputs spec)"
    unfolding unknown_inputs_def by (auto simp del: set_empty)
  finally show ?thesis .
qed

lemma validate_params_Inr:
  "validate_params fr spec ps = Inr d \<longleftrightarrow>
     fst ` set ps \<subseteq> fst ` set (cs_inputs spec) \<and> normal_inputs fr (cs_capability_id spec) ps (cs_inputs spec) = Inr d"
  by (simp add: validate_params_def Let_def unknown_inputs_Nil)

lemma validate_params_idem:
  assumes settled: "settled_spec fr spec" and ok: "validate_params fr spec ps = Inr d"
  shows "validate_params fr spec d = Inr d"
proof -
  let ?cap = "cs_capability_id spec"
  from ok have d: "normal_inputs fr ?cap ps (cs_inputs spec) = Inr d" by (simp add: validate_params_Inr)
  have "normal_input fr ?cap d n sp = normal_input fr ?cap ps n sp" if "(n, sp) \<in> set (cs_inputs spec)" for n sp
  proof -
    note mem = that
    have "\<exists>e. normal_input fr ?cap ps n sp = Inr e \<and> map_of d n = map_of e n"
      by (rule normal_inputs_at [OF d _ mem]) (use settled in \<open>simp add: settled_spec_def\<close>)
    then obtain e where "normal_input fr ?cap ps n sp = Inr e" "map_of d n = map_of e n" by blast
    moreover have "settled_input fr (n, sp)" using settled mem by (auto simp: settled_spec_def list_all_iff)
    ultimately show ?thesis using normal_input_idem by metis
  qed
  then have "normal_inputs fr ?cap d (cs_inputs spec) = Inr d" using normal_inputs_cong d by metis
  then show ?thesis using normal_inputs_keys [OF d] by (simp add: validate_params_Inr)
qed

section \<open>Requests\<close>

lemma make_request_Inr:
  "make_request cap ver ps cur psize corr = Inr rq \<longleftrightarrow>
     cap \<noteq> [] \<and> ver \<noteq> [] \<and> (cur = PNone \<or> (\<exists>s. cur = PStr s)) \<and> (psize = PNone \<or> (\<exists>i>0. psize = PInt i)) \<and>
     rq = \<lparr>rq_capability_id = cap, rq_contract_version = ver, rq_params = ps,
           rq_cursor = cur, rq_page_size = psize, rq_correlation_id = corr\<rparr>"
  by (auto simp: make_request_def split: pyval.splits)

lemma require_Inr: "require cat cap ver = Inr spec \<longleftrightarrow> map_of cat (cap, ver) = Some spec"
  by (auto simp: require_def split: option.splits)

text \<open>What a validated request is, and that validating it again gives it back.\<close>

lemma validate_Inr_cases:
  assumes "validate fr cat rq = Inr v"
  obtains spec where "map_of cat (rq_capability_id rq, rq_contract_version rq) = Some spec"
    and "check_page_size rq spec = Inr ()" and "validate_params fr spec (rq_params rq) = Inr (rq_params v)"
    and "v = rq\<lparr>rq_params := rq_params v\<rparr>" and "rq_capability_id v \<noteq> []" and "rq_contract_version v \<noteq> []"
    and "rq_cursor v = PNone \<or> (\<exists>s. rq_cursor v = PStr s)" and "rq_page_size v = PNone \<or> (\<exists>i>0. rq_page_size v = PInt i)"
  using assms that by (auto simp: validate_def and_then_Inr require_Inr make_request_Inr)

lemma validate_idem:
  assumes settled: "list_all (settled_spec fr) (map snd cat)" and ok: "validate fr cat rq = Inr v"
  shows "validate fr cat v = Inr v"
  using ok
proof (cases rule: validate_Inr_cases)
  case (1 spec)
  then have "spec \<in> set (map snd cat)" by (force dest: map_of_SomeD)
  then have "settled_spec fr spec" using settled by (auto simp: list_all_iff)
  then have "validate_params fr spec (rq_params v) = Inr (rq_params v)"
    using validate_params_idem 1(3) by blast
  moreover have "rq_capability_id v = rq_capability_id rq" "rq_contract_version v = rq_contract_version rq"
    "rq_page_size v = rq_page_size rq"
    by (subst 1(4), simp)+
  ultimately show ?thesis
    using 1 by (auto simp: validate_def and_then_Inr require_Inr make_request_Inr check_page_size_def)
qed

lemma to_task_payload_get [simp]:
  "dict_get (to_task_payload rq) ''capability_id'' = PStr (rq_capability_id rq)"
  "dict_get (to_task_payload rq) ''capability_contract_version'' = PStr (rq_contract_version rq)"
  "dict_get (to_task_payload rq) ''params'' = PDict (rq_params rq)"
  "dict_get (to_task_payload rq) ''cursor'' = rq_cursor rq"
  "dict_get (to_task_payload rq) ''page_size'' = rq_page_size rq"
  "dict_get (to_task_payload rq) ''correlation_id'' = rq_correlation_id rq"
  by (simp_all add: dict_get_def to_task_payload_def)

lemma validate_correlation:
  "validate fr cat rq = Inr v \<Longrightarrow> validate fr cat (rq\<lparr>rq_correlation_id := c\<rparr>) = Inr (v\<lparr>rq_correlation_id := c\<rparr>)"
  by (auto simp: validate_def and_then_Inr require_Inr make_request_Inr check_page_size_def)

text \<open>
  C24: A validated request survives its storage as a task: reading the payload that \<open>to_task_payload\<close> wrote and
  validating the request found there gives the same request, whatever the contract normalised in it, but for one field: a
  request that had no correlation id, or an empty one, comes back with the one that its reader supplies. A request with a
  correlation id comes back as it was.
\<close>

theorem stored_request_validates_to_itself:
  assumes settled: "list_all (settled_spec fr) (map snd cat)" and ok: "validate fr cat rq = Inr v"
    and corr: "rq_correlation_id v = PNone \<or> (\<exists>c. rq_correlation_id v = PStr c)" and supplied: "supplied = PNone \<or> (\<exists>c. supplied = PStr c)"
  shows "\<exists>v'. and_then (request_from_task fr CAPABILITY_TASK_TYPE (to_task_payload v) supplied) (validate fr cat) = Inr v' \<and>
    v' = v\<lparr>rq_correlation_id := (if rq_correlation_id v = PNone \<or> rq_correlation_id v = PStr [] then supplied else rq_correlation_id v)\<rparr>"
proof -
  let ?c = "if rq_correlation_id v = PNone \<or> rq_correlation_id v = PStr [] then supplied else rq_correlation_id v"
  have c: "(if truthy (rq_correlation_id v) then rq_correlation_id v else supplied) = ?c" "optional_string ?c = Inr ?c"
    using corr supplied by (auto simp: optional_string_def)
  from ok have "request_from_task fr CAPABILITY_TASK_TYPE (to_task_payload v) supplied = Inr (v\<lparr>rq_correlation_id := ?c\<rparr>)"
  proof (cases rule: validate_Inr_cases)
    case (1 spec)
    then have "optional_string (rq_cursor v) = Inr (rq_cursor v)" "optional_integer (rq_page_size v) = Inr (rq_page_size v)"
      by (auto simp: optional_string_def optional_integer_def)
    then show ?thesis using 1(5-8)
      by (auto simp: request_from_task_def capability_task_request_def Let_def c str_or_def make_request_Inr and_then_Inr)
  qed
  then show ?thesis using validate_correlation [OF validate_idem [OF settled ok]] by simp
qed

section \<open>Plans\<close>

lemma sort_key_Cons_least:
  assumes "sort_key f (filter P xs) = x # rest"
  shows "x \<in> set xs" and "P x" and "y \<in> set xs \<Longrightarrow> P y \<Longrightarrow> f x \<le> f y"
proof -
  have "set (x # rest) = set (filter P xs)" by (metis assms set_sort)
  moreover have "sorted (map f (x # rest))" by (metis assms sorted_sort_key)
  ultimately show "x \<in> set xs" and "P x" and "y \<in> set xs \<Longrightarrow> P y \<Longrightarrow> f x \<le> f y" by auto
qed

lemma plan_request_cases:
  assumes "plan_request fr pn rq = Inr p"
  obtains v spec rt rest psize pages where "validate fr (pn_catalog pn) rq = Inr v"
    and "map_of (pn_catalog pn) (rq_capability_id v, rq_contract_version v) = Some spec"
    and "sort_key route_rank (filter (route_serves v spec) (pn_routes pn)) = rt # rest"
    and "requested_page_size v spec = Inr psize" and "py_int (dict_get_or (rq_params v) ''max_pages'' (PInt 1)) = Inr pages"
    and "pl_request p = v" and "pl_route p = rt"
    and "pl_page_size p = fst (clamp ''PAGE_SIZE_CLAMPED_TO_ROUTE'' (rt_maximum_page_size rt) psize)"
    and "pl_max_pages p = fst (clamp ''MAX_PAGES_CLAMPED_TO_ROUTE'' (rt_maximum_pages rt) pages)"
    and "pl_warnings p = snd (clamp ''PAGE_SIZE_CLAMPED_TO_ROUTE'' (rt_maximum_page_size rt) psize) @
           snd (clamp ''MAX_PAGES_CLAMPED_TO_ROUTE'' (rt_maximum_pages rt) pages)"
proof -
  from assms obtain v where v: "validate fr (pn_catalog pn) rq = Inr v"
    by (auto simp: plan_request_def and_then_Inr)
  with assms obtain spec where spec: "map_of (pn_catalog pn) (rq_capability_id v, rq_contract_version v) = Some spec"
    by (auto simp: plan_request_def and_then_Inr require_Inr)
  show thesis
  proof (cases "sort_key route_rank (filter (route_serves v spec) (pn_routes pn))")
    case Nil
    with assms v spec show thesis by (simp add: plan_request_def require_def)
  next
    case (Cons rt rest)
    with assms v spec that [OF v spec Cons] show thesis
      by (auto simp: plan_request_def require_def and_then_Inr split_beta)
  qed
qed

text \<open>
  The planner never takes a route that may not serve the request and takes the best one that may: the
  route of a plan is one of the planner's, is enabled, is for the request's capability and version and
  supports its product and inputs, and no such route has a lower priority number (or the same and a smaller
  id).
\<close>

theorem plan_picks_best_route:
  assumes "plan_request fr pn rq = Inr p"
  shows "\<exists>spec. map_of (pn_catalog pn) (rq_capability_id rq, rq_contract_version rq) = Some spec \<and>
    pl_route p \<in> set (pn_routes pn) \<and> route_serves (pl_request p) spec (pl_route p) \<and>
    (\<forall>rt\<in>set (pn_routes pn). route_serves (pl_request p) spec rt \<longrightarrow> route_rank (pl_route p) \<le> route_rank rt)"
  using assms
proof (cases rule: plan_request_cases)
  case (1 v spec rt rest psize pages)
  have "rq_capability_id v = rq_capability_id rq" "rq_contract_version v = rq_contract_version rq"
    using 1(1) by (auto simp: validate_def and_then_Inr make_request_Inr)
  then show ?thesis using 1 sort_key_Cons_least [OF 1(3)] by auto
qed

section \<open>The shipped contract\<close>

lemma search_spec_settled: "settled_spec fr search_tweets_spec"
  by (simp add: settled_spec_def search_tweets_spec_def plain_input_def settled_input_def validate_input_def
      validate_value_def validate_range_def validate_length_def validate_date_def py_in_def)

lemma legacy_search_planner_Inr:
  "legacy_search_planner ps mp = Inr pn \<longleftrightarrow> 1 \<le> ps \<and> 1 \<le> mp \<and>
     pn = \<lparr>pn_catalog = [((''SEARCH_TWEETS'', ''1''), search_tweets_spec)], pn_routes = [legacy_route ps mp]\<rparr>"
proof -
  have "make_catalog [search_tweets_spec] ''1'' = Inr [((''SEARCH_TWEETS'', ''1''), search_tweets_spec)]"
    by (simp add: make_catalog_def spec_key_def) (simp add: search_tweets_spec_def)
  moreover have "make_route (legacy_route ps mp) = Inr rt \<longleftrightarrow> 1 \<le> ps \<and> 1 \<le> mp \<and> rt = legacy_route ps mp" for rt
    unfolding make_route_def by (auto simp: legacy_route_def)
  ultimately show ?thesis by (auto simp: legacy_search_planner_def and_then_Inr)
qed

text \<open>What a validated parameter is, given the contract of its input.\<close>

lemma contract_input:
  assumes ok: "validate_params fr spec ps = Inr d" and names: "distinct (map fst (cs_inputs spec))"
    and mem: "(n, sp) \<in> set (cs_inputs spec)"
  obtains "map_of d n = None" and "\<not> is_has_default sp" and "\<not> is_required sp"
  | "map_of d n = Some (is_default sp)" and "is_has_default sp"
  | v x where "map_of d n = Some x" and "map_of ps n = Some v" and "validate_input fr n v sp = Inr x"
proof -
  have d: "normal_inputs fr (cs_capability_id spec) ps (cs_inputs spec) = Inr d"
    using ok by (simp add: validate_params_Inr)
  have "\<exists>e. normal_input fr (cs_capability_id spec) ps n sp = Inr e \<and> map_of d n = map_of e n"
    by (rule normal_inputs_at [OF d names mem])
  then show thesis
    using that by (auto simp: normal_input_def and_then_Inr split: option.splits if_splits)
qed

abbreviation search_input :: "string \<Rightarrow> input_spec" where
  "search_input n \<equiv> the (map_of (cs_inputs search_tweets_spec) n)"

lemma search_inputs:
  "distinct (map fst (cs_inputs search_tweets_spec))"
  "(''max_pages'', search_input ''max_pages'') \<in> set (cs_inputs search_tweets_spec)"
  "(''product'', search_input ''product'') \<in> set (cs_inputs search_tweets_spec)"
  "(''query'', search_input ''query'') \<in> set (cs_inputs search_tweets_spec)"
  "search_input ''max_pages'' = (plain_input ''integer'')\<lparr>is_default := PInt 2, is_has_default := True,
     is_minimum := Some 1, is_maximum := Some 10\<rparr>"
  "search_input ''product'' = (plain_input ''string'')\<lparr>is_default := PStr ''Latest'', is_has_default := True,
     is_enum := [PStr ''Latest'', PStr ''Top'', PStr ''Media'']\<rparr>"
  "search_input ''query'' = (plain_input ''string'')\<lparr>is_required := True, is_minimum_length := Some 1\<rparr>"
  by (simp_all add: search_tweets_spec_def)

lemma integer_input:
  assumes "validate_input fr n v sp = Inr x" and "is_type sp = ''integer''" and "\<not> is_nullable sp"
  shows "\<exists>i. x = PInt i \<and> \<not> below (is_minimum sp) i \<and> \<not> above (is_maximum sp) i"
  using assms
  by (cases v) (auto simp: validate_input_Inr validate_value_def and_then_Inr validate_range_Inr)

lemma string_input:
  assumes "validate_input fr n v sp = Inr x" and "is_type sp = ''string''" and "\<not> is_nullable sp"
  shows "\<exists>s. x = PStr s \<and> (\<forall>m. is_minimum_length sp = Some m \<longrightarrow> m \<le> int (length s) \<and> strip s = s)"
  using assms
  by (cases v) (auto simp: validate_input_Inr validate_value_def and_then_Inr validate_Inr split: option.splits)

lemma search_max_pages:
  assumes "validate_params fr search_tweets_spec ps = Inr d"
  shows "\<exists>i. map_of d ''max_pages'' = Some (PInt i) \<and> 1 \<le> i \<and> i \<le> 10"
proof (rule contract_input [OF assms search_inputs(1,2)])
  fix v x assume "map_of d ''max_pages'' = Some x" "validate_input fr ''max_pages'' v (search_input ''max_pages'') = Inr x"
  with integer_input [of fr "''max_pages''" v "search_input ''max_pages''" x] show ?thesis
    unfolding search_inputs(5) by (auto simp: plain_input_def)
qed (unfold search_inputs(5), simp_all)

lemma search_query:
  assumes "validate_params fr search_tweets_spec ps = Inr d"
  shows "\<exists>q. map_of d ''query'' = Some (PStr q) \<and> q \<noteq> [] \<and> strip q = q"
proof (rule contract_input [OF assms search_inputs(1,4)])
  fix v x assume x: "map_of d ''query'' = Some x" and ok: "validate_input fr ''query'' v (search_input ''query'') = Inr x"
  obtain q where "x = PStr q" "1 \<le> int (length q) \<and> strip q = q"
    using string_input [OF ok] unfolding search_inputs(7) by (auto simp: plain_input_def)
  with x show ?thesis by (intro exI [of _ q]) auto
qed (unfold search_inputs(7), simp_all add: plain_input_def)

lemma search_product:
  assumes "validate_params fr search_tweets_spec ps = Inr d"
  shows "\<exists>s. map_of d ''product'' = Some (PStr s)"
proof (rule contract_input [OF assms search_inputs(1,3)])
  fix v x assume "map_of d ''product'' = Some x" "validate_input fr ''product'' v (search_input ''product'') = Inr x"
  with string_input [of fr "''product''" v "search_input ''product''" x] show ?thesis
    unfolding search_inputs(6) by (auto simp: plain_input_def)
qed (unfold search_inputs(6), simp_all)

lemma search_page_size:
  assumes "check_page_size rq search_tweets_spec = Inr ()"
    and "rq_page_size rq = PNone \<or> (\<exists>i>0. rq_page_size rq = PInt i)"
  shows "\<exists>n. requested_page_size rq search_tweets_spec = Inr n \<and> 1 \<le> n \<and> n \<le> 200"
  using assms
  by (auto simp: check_page_size_def requested_page_size_def search_tweets_spec_def dict_get_or_def and_then_Inr)

lemma clamp_min: "fst (clamp w (Some m) n) = min m n"
  by (simp add: clamp_def)

lemma legacy_plan_bounds:
  assumes planner: "legacy_search_planner ps mp = Inr pn" and plan: "plan_request fr pn rq = Inr p"
  shows "rt_executor_kind (pl_route p) = LEGACY_SOURCE_ADAPTER \<and>
    1 \<le> pl_max_pages p \<and> pl_max_pages p \<le> min mp 10 \<and> 1 \<le> pl_page_size p \<and> pl_page_size p \<le> min ps 200 \<and>
    dict_get (rq_params (pl_request p)) ''product'' = PStr ''Latest'' \<and>
    (\<exists>q. dict_get (rq_params (pl_request p)) ''query'' = PStr q \<and> q \<noteq> [] \<and> strip q = q)"
  using plan
proof (cases rule: plan_request_cases)
  case (1 v spec rt rest psize pages)
  have pn: "1 \<le> ps" "1 \<le> mp" "pn_routes pn = [legacy_route ps mp]"
    "pn_catalog pn = [((''SEARCH_TWEETS'', ''1''), search_tweets_spec)]"
    using planner by (auto simp: legacy_search_planner_Inr)
  have rt: "rt = legacy_route ps mp" "route_serves v spec rt" using 1(3) pn(3) by (auto split: if_splits)
  have spec: "spec = search_tweets_spec" using 1(2) pn(4) by (simp split: if_splits)
  from 1(1) have v: "validate_params fr search_tweets_spec (rq_params rq) = Inr (rq_params v)"
    "check_page_size rq search_tweets_spec = Inr ()" "rq_page_size v = rq_page_size rq"
    "rq_page_size v = PNone \<or> (\<exists>i>0. rq_page_size v = PInt i)"
    by (auto simp: pn(4) validate_def and_then_Inr require_Inr make_request_Inr split: if_splits)
  obtain i where i: "map_of (rq_params v) ''max_pages'' = Some (PInt i)" "1 \<le> i" "i \<le> 10"
    using search_max_pages [OF v(1)] by blast
  then have pages: "pages = i" using 1(5) by (simp add: dict_get_or_def)
  have psize: "1 \<le> psize" "psize \<le> 200"
    using search_page_size [OF v(2)] v(3,4) 1(4) by (auto simp: spec requested_page_size_def)
  have "dict_get (rq_params v) ''product'' = PStr ''Latest''"
    using rt search_product [OF v(1)]
    by (auto simp: route_serves_def legacy_route_def Let_def py_in_def py_eq_str dict_get_def)
  then show ?thesis
    using 1(6-9) pn(1,2) i psize pages search_query [OF v(1)]
    by (auto simp: rt(1) legacy_route_def clamp_min dict_get_def)
qed


text \<open>
  C25: Whatever the request was, a plan of the planner the worker uses is bounded by the contract and by the
  worker's settings: between one and \<open>min maximum_pages 10\<close> pages of one to \<open>min maximum_page_size 200\<close> items, for
  the product \<open>Latest\<close> and a stripped, nonempty query, on the legacy adapter's route.
\<close>

theorem legacy_plan_sound:
  assumes planner: "legacy_search_planner ps mp = Inr pn" and plan: "plan_request fr pn rq = Inr p"
  shows "rt_executor_kind (pl_route p) = LEGACY_SOURCE_ADAPTER \<and>
    1 \<le> pl_max_pages p \<and> pl_max_pages p \<le> min mp 10 \<and> 1 \<le> pl_page_size p \<and> pl_page_size p \<le> min ps 200 \<and>
    dict_get (rq_params (pl_request p)) ''product'' = PStr ''Latest'' \<and>
    (\<exists>q. dict_get (rq_params (pl_request p)) ''query'' = PStr q \<and> q \<noteq> [] \<and> strip q = q)"
  by (rule legacy_plan_bounds [OF assms])

text \<open>The request a keyword task makes, and the parameters it has after validation.\<close>

lemma search_params_normal:
  assumes "strip kw \<noteq> []" and "1 \<le> n" and "n \<le> 10"
  shows "validate_params fr search_tweets_spec
     [(''query'', PStr (strip kw)), (''product'', PStr ''Latest''), (''max_pages'', PInt n)]
   = Inr [(''include_replies'', PBool True), (''include_reposts'', PBool True), (''max_pages'', PInt n),
          (''product'', PStr ''Latest''), (''query'', PStr (strip kw))]"
proof -
  have "1 \<le> int (length (strip kw))" using assms(1) by (cases "strip kw") auto
  then have "\<not> int (length (strip kw)) < 1" by linarith
  with assms show ?thesis
    by (simp add: validate_params_Inr)
      (simp add: search_tweets_spec_def plain_input_def normal_input_def validate_input_def validate_value_def
        validate_length_def validate_date_def validate_range_def py_in_def)
qed

lemma search_params_served:
  "route_serves \<lparr>rq_capability_id = ''SEARCH_TWEETS'', rq_contract_version = ''1'',
     rq_params = [(''include_replies'', PBool True), (''include_reposts'', PBool True), (''max_pages'', PInt n),
          (''product'', PStr ''Latest''), (''query'', PStr q)],
     rq_cursor = c, rq_page_size = z, rq_correlation_id = corr\<rparr> search_tweets_spec (legacy_route ps mp)"
  by (simp add: route_serves_def legacy_route_def route_supports_params_def param_supported_def
      search_tweets_spec_def plain_input_def py_in_def num_eq_def dict_get_def)

lemma legacy_task_plan:
  assumes planner: "legacy_search_planner ps mp = Inr pn"
    and kw: "map_of payload ''search_keyword'' = Some (PStr kw)" "strip kw \<noteq> []"
    and product: "map_of payload ''product'' \<in> {None, Some (PStr ''Latest'')}"
    and pages: "map_of payload ''max_pages'' = Some (PInt n)" "1 \<le> n" "n \<le> 10"
    and rest: "map_of payload ''cursor'' = None" "map_of payload ''page_size'' = None"
  shows "\<exists>p. and_then (request_from_task fr LEGACY_SEARCH_TASK_TYPE payload corr) (plan_request fr pn) = Inr p \<and>
    map_of (rq_params (pl_request p)) ''query'' = Some (PStr (strip kw)) \<and>
    pl_max_pages p = min mp n \<and> pl_page_size p = min ps 20 \<and>
    pl_warnings p = (if ps < 20 then [''PAGE_SIZE_CLAMPED_TO_ROUTE''] else []) @
      (if mp < n then [''MAX_PAGES_CLAMPED_TO_ROUTE''] else [])"
proof -
  let ?req = "\<lambda>params. \<lparr>rq_capability_id = ''SEARCH_TWEETS'', rq_contract_version = ''1'', rq_params = params,
     rq_cursor = PNone, rq_page_size = PNone, rq_correlation_id = corr\<rparr>"
  let ?v = "?req [(''include_replies'', PBool True), (''include_reposts'', PBool True), (''max_pages'', PInt n),
     (''product'', PStr ''Latest''), (''query'', PStr (strip kw))]"
  have "kw \<noteq> []" using kw(2) by (auto simp: strip_def)
  then have "request_from_task fr LEGACY_SEARCH_TASK_TYPE payload corr
    = Inr (?req [(''query'', PStr (strip kw)), (''product'', PStr ''Latest''), (''max_pages'', PInt n)])"
    using kw product pages rest
    by (auto simp: request_from_task_def LEGACY_SEARCH_TASK_TYPE_def CAPABILITY_TASK_TYPE_def legacy_task_request_def
        legacy_positive_integer_def dict_get_or_def dict_get_def str_or_def optional_string_def make_request_def)
  moreover have pn: "pn = \<lparr>pn_catalog = [((''SEARCH_TWEETS'', ''1''), search_tweets_spec)], pn_routes = [legacy_route ps mp]\<rparr>"
    using planner by (simp add: legacy_search_planner_Inr)
  have "validate fr (pn_catalog pn) (?req [(''query'', PStr (strip kw)), (''product'', PStr ''Latest''), (''max_pages'', PInt n)])
    = Inr ?v"
    using search_params_normal [OF kw(2) pages(2,3)]
    by (simp add: pn validate_def require_def check_page_size_def make_request_def)
  moreover have "requested_page_size ?v search_tweets_spec = Inr 20"
    by (simp add: requested_page_size_def dict_get_or_def search_tweets_spec_def)
  ultimately show ?thesis
    using search_params_served [of n "strip kw" PNone PNone corr ps mp]
    by (simp add: plan_request_def require_def dict_get_or_def pn) (simp add: legacy_route_def clamp_def min_def)
qed


text \<open>
  Every keyword task with a usable keyword is planned: if the keyword is not blank, the product is absent or
  \<open>Latest\<close> and the pages are within the contract, the task's payload gives a request and the worker's planner a
  plan for it, of \<open>min maximum_pages max_pages\<close> pages of \<open>min maximum_page_size 20\<close> items, with a warning for each
  of the two that was cut.
\<close>

theorem legacy_task_planned:
  assumes planner: "legacy_search_planner ps mp = Inr pn"
    and kw: "map_of payload ''search_keyword'' = Some (PStr kw)" "strip kw \<noteq> []"
    and product: "map_of payload ''product'' \<in> {None, Some (PStr ''Latest'')}"
    and pages: "map_of payload ''max_pages'' = Some (PInt n)" "1 \<le> n" "n \<le> 10"
    and rest: "map_of payload ''cursor'' = None" "map_of payload ''page_size'' = None"
  shows "\<exists>p. and_then (request_from_task fr LEGACY_SEARCH_TASK_TYPE payload corr) (plan_request fr pn) = Inr p \<and>
    pl_max_pages p = min mp n \<and> pl_page_size p = min ps 20 \<and>
    pl_warnings p = (if ps < 20 then [''PAGE_SIZE_CLAMPED_TO_ROUTE''] else []) @
      (if mp < n then [''MAX_PAGES_CLAMPED_TO_ROUTE''] else [])"
  using legacy_task_plan [OF assms] by blast

theorem legacy_task_planned_witness:
  "\<exists>pn p. legacy_search_planner 20 2 = Inr pn \<and>
     and_then (request_from_task (\<lambda>_. []) LEGACY_SEARCH_TASK_TYPE
        [(''search_keyword'', PStr '' bitcoin''), (''max_pages'', PInt 5)] PNone) (plan_request (\<lambda>_. []) pn) = Inr p \<and>
     pl_max_pages p = 2 \<and> pl_page_size p = 20 \<and> pl_warnings p = [''MAX_PAGES_CLAMPED_TO_ROUTE'']"
proof -
  obtain pn where pn: "legacy_search_planner 20 2 = Inr pn" by (simp add: legacy_search_planner_Inr)
  have "strip '' bitcoin'' \<noteq> []" by code_simp
  from legacy_task_planned [OF pn, where kw = "'' bitcoin''" and n = 5 and
      payload = "[(''search_keyword'', PStr '' bitcoin''), (''max_pages'', PInt 5)]" and corr = PNone and fr = "\<lambda>_. []"]
    pn this show ?thesis by auto
qed

text \<open>A sample request, its plan, and the stored request read back.\<close>

definition sample_request :: capability_request where
  "sample_request = \<lparr>rq_capability_id = ''SEARCH_TWEETS'', rq_contract_version = ''1'',
     rq_params = [(''query'', PStr (strip ''ai'')), (''product'', PStr ''Latest''), (''max_pages'', PInt 3)],
     rq_cursor = PNone, rq_page_size = PInt 50, rq_correlation_id = PStr ''seed:ai''\<rparr>"

abbreviation shipped_catalog :: catalog where
  "shipped_catalog \<equiv> [((''SEARCH_TWEETS'', ''1''), search_tweets_spec)]"

lemma sample_request_valid:
  "\<exists>v. validate fr shipped_catalog sample_request = Inr v \<and> rq_correlation_id v = PStr ''seed:ai''"
proof -
  have "strip ''ai'' \<noteq> []" by code_simp
  from search_params_normal [OF this, of 3] show ?thesis
    by (simp add: sample_request_def validate_def require_def check_page_size_def make_request_def)
      (simp add: search_tweets_spec_def dict_get_or_def)
qed

lemma sample_request_planned:
  assumes "legacy_search_planner 20 2 = Inr pn"
  shows "\<exists>p. plan_request fr pn sample_request = Inr p"
proof -
  have pn: "pn = \<lparr>pn_catalog = shipped_catalog, pn_routes = [legacy_route 20 2]\<rparr>"
    using assms by (simp add: legacy_search_planner_Inr)
  have "strip ''ai'' \<noteq> []" by code_simp
  note normal = search_params_normal [OF this, of 3]
  have "check_page_size sample_request search_tweets_spec = Inr ()"
    by (simp add: check_page_size_def sample_request_def search_tweets_spec_def dict_get_or_def)
  then show ?thesis
    using normal search_params_served [of 3 "strip ''ai''" PNone "PInt 50" "PStr ''seed:ai''" 20 2]
    by (simp add: pn plan_request_def validate_def require_def make_request_def sample_request_def requested_page_size_def
        dict_get_or_def split_beta)
qed

theorem stored_request_validates_to_itself_witness:
  "\<exists>v. validate (\<lambda>_. []) shipped_catalog sample_request = Inr v \<and>
     and_then (request_from_task (\<lambda>_. []) CAPABILITY_TASK_TYPE (to_task_payload v) (PStr ''task:1''))
       (validate (\<lambda>_. []) shipped_catalog) = Inr v"
proof -
  obtain v where v: "validate (\<lambda>_. []) shipped_catalog sample_request = Inr v" "rq_correlation_id v = PStr ''seed:ai''"
    using sample_request_valid by blast
  have "list_all (settled_spec (\<lambda>_. [])) (map snd shipped_catalog)" by (simp add: search_spec_settled)
  from stored_request_validates_to_itself [OF this v(1), of "PStr ''task:1''"] v show ?thesis by auto
qed

theorem plan_picks_best_route_witness:
  "\<exists>pn p. legacy_search_planner 20 2 = Inr pn \<and> plan_request (\<lambda>_. []) pn sample_request = Inr p \<and>
     pl_route p \<in> set (pn_routes pn)"
proof -
  obtain pn where pn: "legacy_search_planner 20 2 = Inr pn" by (simp add: legacy_search_planner_Inr)
  obtain p where p: "plan_request (\<lambda>_. []) pn sample_request = Inr p" using sample_request_planned [OF pn] by blast
  from plan_picks_best_route [OF p] pn p show ?thesis by auto
qed

theorem legacy_plan_sound_witness:
  "\<exists>pn p. legacy_search_planner 20 2 = Inr pn \<and> plan_request (\<lambda>_. []) pn sample_request = Inr p \<and>
     1 \<le> pl_max_pages p \<and> pl_max_pages p \<le> 2 \<and> pl_page_size p \<le> 20"
proof -
  obtain pn where pn: "legacy_search_planner 20 2 = Inr pn" by (simp add: legacy_search_planner_Inr)
  obtain p where p: "plan_request (\<lambda>_. []) pn sample_request = Inr p" using sample_request_planned [OF pn] by blast
  from legacy_plan_sound [OF pn p] pn p show ?thesis by auto
qed

end
