(* ===== verification/TokenProps.thy ===== *)
theory TokenProps
  imports Tokens "HOL-Library.Multiset"
begin

text \<open>
  The token pool lends the token that has waited longest, lends it more often than it may only by as much as checkouts
  overlap, and benches a token that failed for exactly the cooldown. The last section states the contract the
  collector relies on and shows that the repository provides it.
\<close>

section \<open>The invariant of the pool\<close>

definition token_ok :: "tdb \<Rightarrow> token_row \<Rightarrow> bool" where
  "token_ok db k \<longleftrightarrow> k_id k < token_seq db \<and> 0 < k_max_concurrency k"

definition lease_ok :: "tdb \<Rightarrow> lease_row \<Rightarrow> bool" where
  "lease_ok db l \<longleftrightarrow> tl_id l < lease_seq db \<and> token_by_id db (tl_token_id l) \<noteq> None"

definition token_inv :: "tdb \<Rightarrow> bool" where
  "token_inv db \<longleftrightarrow>
     distinct (map k_id (tokens db)) \<and> distinct (map k_key (tokens db)) \<and>
     distinct (map tl_id (token_leases db)) \<and>
     distinct (map (\<lambda>l. (tl_token_id l, tl_owner l)) (token_leases db)) \<and>
     (\<forall>k\<in>set (tokens db). token_ok db k) \<and> (\<forall>l\<in>set (token_leases db). lease_ok db l)"

lemma token_inv_empty: "token_inv empty_tdb"
  by (simp add: token_inv_def empty_tdb_def)

lemma token_inv_lease_seq [simp]: "token_inv db \<Longrightarrow> token_inv (db\<lparr>lease_seq := lease_seq db + 1\<rparr>)"
  by (fastforce simp: token_inv_def token_ok_def lease_ok_def)

text \<open>Updates of tokens that keep their identity, and deletions of leases, keep the invariant.\<close>

definition same_token :: "token_row \<Rightarrow> token_row \<Rightarrow> bool" where
  "same_token k k' \<longleftrightarrow> k_id k' = k_id k \<and> k_key k' = k_key k \<and> k_max_concurrency k' = k_max_concurrency k"

lemma token_inv_update:
  assumes inv: "token_inv db" and same: "\<And>k. P k \<Longrightarrow> same_token k (f k)"
  shows "token_inv (db\<lparr>tokens := update_where P f (tokens db)\<rparr>)" (is "token_inv ?db")
proof -
  have "map k_id (tokens ?db) = map k_id (tokens db)" "map k_key (tokens ?db) = map k_key (tokens db)"
    using same by (simp_all add: map_update_where same_token_def)
  moreover have "\<forall>k\<in>set (tokens ?db). token_ok ?db k"
    using inv same by (auto simp: token_inv_def ball_update_where token_ok_def same_token_def)
  moreover have "token_by_id ?db i \<noteq> None \<longleftrightarrow> token_by_id db i \<noteq> None" for i
    using same by (simp add: fetch_key_update_where same_token_def)
  then have "lease_ok ?db l = lease_ok db l" for l by (simp add: lease_ok_def)
  ultimately show ?thesis using inv by (simp add: token_inv_def)
qed

lemma token_inv_delete: "token_inv db \<Longrightarrow> token_inv (db\<lparr>token_leases := delete_where P (token_leases db)\<rparr>)"
  by (auto simp: token_inv_def token_ok_def lease_ok_def intro: distinct_map_delete_where)

lemma same_token_updates [simp]:
  "same_token k (touch_token now k)" "same_token k (used_token now k)" "same_token k (cool_token c m now k)"
  "same_token k (revive_token now k)" "same_token k (k\<lparr>k_value := v, k_status := s, k_updated_at := now\<rparr>)"
  "same_token k ((revive_token now k)\<lparr>k_value := v\<rparr>)" "same_token k (revoke_token e k)"
  by (simp_all add: same_token_def touch_token_def used_token_def cool_token_def revive_token_def revoke_token_def)

lemma drop_deleted_inv: "token_inv db \<Longrightarrow> token_inv (drop_deleted txn db)"
  by (simp add: drop_deleted_def token_inv_delete)

lemma release_lease_inv: "token_inv db \<Longrightarrow> token_inv (release_lease L db)"
  by (simp add: release_lease_def token_inv_delete)

lemma record_success_inv: "token_inv db \<Longrightarrow> token_inv (record_success L now db)"
  by (simp add: record_success_def release_lease_inv token_inv_update)

lemma mark_cooldown_inv: "token_inv db \<Longrightarrow> token_inv (mark_cooldown L c m now db)"
  by (simp add: mark_cooldown_def release_lease_inv token_inv_update)

lemma recover_inv: "token_inv db \<Longrightarrow> token_inv (snd (recover_expired_cooldowns now db))"
  by (simp add: recover_expired_cooldowns_def token_inv_update)

lemma upsert_token_inv:
  assumes inv: "token_inv db"
  shows "token_inv (upsert_token key val st now db)"
proof (cases "fetch_key k_key key (tokens db)")
  case (Some k)
  have "token_inv (db\<lparr>token_seq := token_seq db + 1\<rparr>)" (is "token_inv ?db")
    using inv by (fastforce simp: token_inv_def token_ok_def lease_ok_def)
  from token_inv_update [OF this, of "\<lambda>k. k_key k = key" "\<lambda>k. k\<lparr>k_value := val, k_status := st, k_updated_at := now\<rparr>"]
  show ?thesis using Some by (simp add: upsert_token_def)
next
  case None
  define k where "k = \<lparr>k_id = token_seq db, k_key = key, k_value = val, k_status = st, k_cooldown_until = None,
    k_last_error = None, k_last_leased_at = None, k_last_used_at = None, k_max_concurrency = 1, k_updated_at = now\<rparr>"
  define db' where "db' = upsert_token key val st now db"
  have db': "tokens db' = tokens db @ [k]" "token_leases db' = token_leases db"
    "token_seq db' = token_seq db + 1" "lease_seq db' = lease_seq db"
    using None by (simp_all add: db'_def upsert_token_def k_def)
  have ids: "\<forall>x\<in>set (tokens db). k_id x < token_seq db" using inv by (simp add: token_inv_def token_ok_def)
  have look: "token_by_id db i \<noteq> None \<Longrightarrow> token_by_id db' i \<noteq> None" for i
    by (auto simp: db' fetch_key_append)
  have "\<forall>x\<in>set (tokens db'). token_ok db' x"
    using inv by (auto simp: token_inv_def token_ok_def db') (simp_all add: k_def)
  moreover have "\<forall>l\<in>set (token_leases db'). lease_ok db' l"
    using inv look by (simp add: token_inv_def lease_ok_def db')
  moreover have "distinct (map k_id (tokens db'))" "distinct (map k_key (tokens db'))"
    using inv ids None by (auto simp: token_inv_def db' fetch_key_None_iff k_def)
  ultimately show ?thesis
    using inv unfolding db'_def [symmetric] by (simp add: token_inv_def db')
qed

lemma repair_cases:
  obtains (skipped) "programmatically_repair_session env row db = (Inr (), db)"
  | (failed) e where "programmatically_repair_session env row db = repair_failed env row e db"
  | (revived) v where "programmatically_repair_session env row db
      = (Inr (), set_token row (\<lambda>k. (revive_token (re_clock env (k_id row)) k)\<lparr>k_value := v\<rparr>) db)"
proof (cases "re_json_loads env (k_value row)")
  case (Inl e)
  then show ?thesis by (intro failed [of e]) (simp add: programmatically_repair_session_def)
next
  case (Inr v)
  show ?thesis
  proof (cases "\<exists>creds. v = PDict creds")
    case True
    then obtain creds where "v = PDict creds" ..
    note run = programmatically_repair_session_def Inr this Let_def
    let ?login = "re_login env (k_key row) (dict_get creds ''email'') (dict_get creds ''password'') (dict_get creds ''totp_secret'')"
    show ?thesis
    proof (cases "truthy (dict_get creds ''email'') \<and> truthy (dict_get creds ''password'')")
      case False
      then show ?thesis by (intro skipped) (auto simp: run)
    next
      case True
      show ?thesis
      proof (cases ?login)
        case (Inl e)
        with True show ?thesis by (intro failed [of e]) (simp add: run)
      next
        case (Inr cookies)
        with True show ?thesis
          by (cases "re_update_fails env (k_id row)") (auto simp: run intro: failed revived)
      qed
    qed
  next
    case False
    let ?e = "Other ''AttributeError'' ([CHR 0x27] @ py_type_name v @ [CHR 0x27] @ '' object has no attribute '' @
      [CHR 0x27] @ ''get'' @ [CHR 0x27])"
    have "programmatically_repair_session env row db = repair_failed env row ?e db"
      using Inr False by (cases v) (simp_all add: programmatically_repair_session_def)
    then show ?thesis by (rule failed)
  qed
qed

lemma repair_writes:
  "snd (programmatically_repair_session env row db) = db \<or>
   (\<exists>e. snd (programmatically_repair_session env row db) = set_token row (revoke_token e) db) \<or>
   (\<exists>now v. snd (programmatically_repair_session env row db) = set_token row (\<lambda>k. (revive_token now k)\<lparr>k_value := v\<rparr>) db)"
proof (cases rule: repair_cases [of env row db])
  case (failed e)
  then show ?thesis by (auto simp: repair_failed_def split: option.split)
next
  case (revived v)
  then show ?thesis by auto
qed simp

lemma repair_inv: "token_inv db \<Longrightarrow> token_inv (snd (programmatically_repair_session env row db))"
  using repair_writes [of env row db] by (auto simp: set_token_def token_inv_update)

lemma repair_all_inv: "token_inv db \<Longrightarrow> token_inv (snd (repair_all env ks db))"
proof (induction ks arbitrary: db)
  case (Cons k ks)
  then show ?case
    using repair_inv [of db env k] by (cases "programmatically_repair_session env k db") (auto split: sum.split)
qed simp

text \<open>
  The seeders and the repair itself store exported cookies in \<open>token_value\<close>, so a token they wrote has no
  credentials there and the repair leaves it as it is.
\<close>

lemma cookies_never_repaired:
  assumes "re_json_loads env (k_value row) = Inr (PDict cookies)" and "map_of cookies ''email'' = None"
  shows "programmatically_repair_session env row db = (Inr (), db)"
  using assms by (simp add: programmatically_repair_session_def dict_get_def)

section \<open>Checking a token out\<close>

lemma drop_deleted_frame [simp]:
  "tokens (drop_deleted txn db) = tokens db" "lease_seq (drop_deleted txn db) = lease_seq db"
  "token_seq (drop_deleted txn db) = token_seq db"
  by (simp_all add: drop_deleted_def)

lemma find_sorted:
  fixes t :: "'a \<Rightarrow> 'b :: linorder"
  assumes "sorted (map t xs)" and "find P (map f xs) = Some y"
  shows "\<exists>x\<in>set xs. y = f x \<and> P (f x) \<and> (\<forall>x'\<in>set xs. P (f x') \<longrightarrow> t x \<le> t x')"
  using assms by (induction xs) (auto split: if_splits)

lemma find_Some_in: "find P xs = Some x \<Longrightarrow> x \<in> set xs \<and> P x"
  by (induction xs) (auto split: if_splits)

lemma find_None_map: "find P (map f xs) = None \<longleftrightarrow> (\<forall>x\<in>set xs. \<not> P (f x))"
  by (auto simp: find_None_iff)

text \<open>
  What a checkout promises, in terms of the rows. \<open>seen\<close> is the database its \<open>SELECT\<close> saw and \<open>cur\<close> the one it found when it
  locked.
\<close>

definition free_token :: "time \<Rightarrow> tdb \<Rightarrow> token_row \<Rightarrow> bool" where
  "free_token now db k \<longleftrightarrow> k_status k = ACTIVE \<and> (\<forall>c. k_cooldown_until k = Some c \<longrightarrow> c \<le> now) \<and>
     int (length (filter (\<lambda>l. tl_token_id l = k_id k \<and> now < tl_expires_at l) (token_leases db))) < k_max_concurrency k"

definition waits_longer :: "token_row \<Rightarrow> token_row \<Rightarrow> bool" where
  "waits_longer k k' \<longleftrightarrow> (case (k_last_leased_at k, k_last_leased_at k') of
     (None, None) \<Rightarrow> k_id k < k_id k'
   | (None, Some _) \<Rightarrow> True
   | (Some _, None) \<Rightarrow> False
   | (Some t, Some t') \<Rightarrow> t < t' \<or> (t = t' \<and> k_id k < k_id k'))"

definition takeable :: "time \<Rightarrow> tdb \<Rightarrow> tdb \<Rightarrow> token_row \<Rightarrow> bool" where
  "takeable now seen cur k0 \<longleftrightarrow> k0 \<in> set (tokens seen) \<and> free_token now seen k0 \<and>
     (\<exists>k. token_by_id cur (k_id k0) = Some k \<and> k_status k = ACTIVE \<and> (\<forall>c. k_cooldown_until k = Some c \<longrightarrow> c \<le> now) \<and>
        int (length (filter (\<lambda>l. tl_token_id l = k_id k0 \<and> now < tl_expires_at l) (token_leases seen))) < k_max_concurrency k)"

definition next_token :: "int list \<Rightarrow> time \<Rightarrow> tdb \<Rightarrow> tdb \<Rightarrow> token_row \<Rightarrow> bool" where
  "next_token lk now seen cur k \<longleftrightarrow> k_id k \<notin> set lk \<and> token_by_id cur (k_id k) = Some k \<and>
     (\<exists>k0. k_id k0 = k_id k \<and> takeable now seen cur k0 \<and>
        (\<forall>k'. takeable now seen cur k' \<and> waits_longer k' k0 \<longrightarrow> k_id k' \<in> set lk))"

lemma available_free: "available now db k \<longleftrightarrow> free_token now db k"
  by (cases "k_cooldown_until k") (simp_all add: available_def usable_def free_token_def active_leases_def count_where_def)

lemma waits_longer_turn: "waits_longer k k' \<longleftrightarrow> turn k < turn k'"
  by (auto simp: waits_longer_def less_prod_def' split: option.split)

lemma lockable_takeable:
  assumes "k0 \<in> set (tokens seen)" "available now seen k0"
  shows "(case token_by_id cur (k_id k0) of None \<Rightarrow> False | Some k \<Rightarrow> usable now (active_leases now seen k0) k) \<longleftrightarrow> takeable now seen cur k0"
  using assms by (auto simp: takeable_def available_free usable_def active_leases_def count_where_def null_le_def split: option.splits)

lemma lock_token_None:
  "lock_token lk txn (candidates txn seen) cur = None \<longleftrightarrow> (\<forall>k. takeable (ct_now txn) seen cur k \<longrightarrow> k_id k \<in> set lk)"
proof -
  let ?P = "\<lambda>(i, n). i \<notin> set lk \<and> (case token_by_id cur i of None \<Rightarrow> False | Some k \<Rightarrow> usable (ct_now txn) n k)"
  have "lock_token lk txn (candidates txn seen) cur = None \<longleftrightarrow> find ?P (candidates txn seen) = None"
  proof (cases "find ?P (candidates txn seen)")
    case (Some y)
    then have "?P y" by (blast dest: find_Some_in)
    with Some show ?thesis by (cases y) (auto simp: lock_token_def split: option.splits)
  qed (simp add: lock_token_def)
  also have "\<dots> \<longleftrightarrow> (\<forall>k\<in>set (tokens seen). available (ct_now txn) seen k \<longrightarrow> takeable (ct_now txn) seen cur k \<longrightarrow> k_id k \<in> set lk)"
    by (auto simp: candidates_def find_None_map lockable_takeable)
  also have "\<dots> \<longleftrightarrow> (\<forall>k. takeable (ct_now txn) seen cur k \<longrightarrow> k_id k \<in> set lk)"
    by (auto simp: takeable_def available_free)
  finally show ?thesis .
qed

lemma lock_token_Some:
  assumes "lock_token lk txn (candidates txn seen) cur = Some k"
  shows "next_token lk (ct_now txn) seen cur k"
proof -
  let ?P = "\<lambda>(i, n). i \<notin> set lk \<and> (case token_by_id cur i of None \<Rightarrow> False | Some k \<Rightarrow> usable (ct_now txn) n k)"
  let ?free = "sort_key turn (filter (available (ct_now txn) seen) (tokens seen))"
  obtain y where y: "find ?P (candidates txn seen) = Some y" "token_by_id cur (fst y) = Some k"
    using assms by (auto simp: lock_token_def split: option.splits)
  have "sorted (map turn ?free)" by simp
  from find_sorted [OF this y(1) [unfolded candidates_def]]
  obtain k0 where k0: "k0 \<in> set ?free" "y = (k_id k0, active_leases (ct_now txn) seen k0)" "?P y"
    and least: "\<forall>k'\<in>set ?free. ?P (k_id k', active_leases (ct_now txn) seen k') \<longrightarrow> turn k0 \<le> turn k'" by blast
  have k: "k_id k = k_id k0" using y(2) k0(2) by (auto dest: fetch_key_SomeD)
  have in_free: "k' \<in> set ?free \<longleftrightarrow> k' \<in> set (tokens seen) \<and> available (ct_now txn) seen k'" for k' by auto
  have take: "takeable (ct_now txn) seen cur k0"
    using k0 lockable_takeable [of k0 seen "ct_now txn" cur] by (simp add: in_free)
  have "k_id k' \<in> set lk" if t: "takeable (ct_now txn) seen cur k'" and w: "waits_longer k' k0" for k'
  proof (rule ccontr)
    assume out: "k_id k' \<notin> set lk"
    have in': "k' \<in> set (tokens seen)" "available (ct_now txn) seen k'" using t by (auto simp: takeable_def available_free)
    then have "turn k0 \<le> turn k'" using least out t lockable_takeable [OF in', of cur] by (auto simp: in_free)
    then show False using w unfolding waits_longer_turn by (metis leD)
  qed
  then show ?thesis using take k k0(2,3) y(2) unfolding next_token_def by auto
qed

text \<open>The outcomes of the transaction from the lock on.\<close>

lemma commit_cases:
  obtains (empty) "lock_token lk txn cands db = None" "commit_checkout lk txn cands db = (Inr None, drop_deleted txn db)"
  | (twice) k l where "lock_token lk txn cands db = Some k"
      "l \<in> set (token_leases (drop_deleted txn db))" "tl_token_id l = k_id k" "tl_owner l = ct_owner txn"
      "\<exists>e. commit_checkout lk txn cands db = (Inl e, db\<lparr>lease_seq := lease_seq db + 1\<rparr>)"
  | (lent) k row db' where "lock_token lk txn cands db = Some k"
      "\<And>l. l \<in> set (token_leases (drop_deleted txn db)) \<Longrightarrow> tl_token_id l = k_id k \<Longrightarrow> tl_owner l \<noteq> ct_owner txn"
      "row = \<lparr>tl_id = lease_seq db, tl_token_id = k_id k, tl_owner = ct_owner txn, tl_acquired_at = ct_now txn,
         tl_expires_at = ct_now txn + seconds (ct_seconds txn)\<rparr>"
      "db' = (drop_deleted txn db)\<lparr>token_leases := token_leases (drop_deleted txn db) @ [row],
         lease_seq := lease_seq db + 1, tokens := update_where (\<lambda>x. k_id x = k_id k) (touch_token (ct_now txn)) (tokens db)\<rparr>"
      "commit_checkout lk txn cands db = (Inr (Some \<lparr>tk_lease_id = lease_seq db, tk_token_id = k_id k,
         tk_key = k_key k, tk_value = k_value k, tk_owner = ct_owner txn,
         tk_expires_at = ct_now txn + seconds (ct_seconds txn)\<rparr>), db')"
proof (cases "lock_token lk txn cands db")
  case None
  then show thesis using empty by (simp add: commit_checkout_def)
next
  case (Some k)
  show thesis
  proof (cases "\<exists>l\<in>set (token_leases (drop_deleted txn db)). tl_token_id l = k_id k \<and> tl_owner l = ct_owner txn")
    case True
    then obtain l where "l \<in> set (token_leases (drop_deleted txn db))" "tl_token_id l = k_id k" "tl_owner l = ct_owner txn"
      by blast
    moreover from True Some have "\<exists>e. commit_checkout lk txn cands db = (Inl e, db\<lparr>lease_seq := lease_seq db + 1\<rparr>)"
      by (simp add: commit_checkout_def Let_def)
    ultimately show thesis using twice Some by blast
  next
    case False
    show thesis
    proof (rule lent [OF Some])
      show "l \<in> set (token_leases (drop_deleted txn db)) \<Longrightarrow> tl_token_id l = k_id k \<Longrightarrow> tl_owner l \<noteq> ct_owner txn" for l
        using False by blast
    qed (use Some False in \<open>simp_all add: commit_checkout_def Let_def\<close>)
  qed
qed

lemma lock_token_row:
  assumes "lock_token lk txn cands db = Some k"
  shows "token_by_id db (k_id k) = Some k" and "k \<in> set (tokens db)" and "k_id k \<in> fst ` set cands" and "k_status k = ACTIVE"
    and "k_id k \<notin> set lk"
proof -
  obtain i n where i: "(i, n) \<in> set cands" "token_by_id db i = Some k" "usable (ct_now txn) n k" "i \<notin> set lk"
    using assms by (auto simp: lock_token_def split: option.splits dest!: find_Some_in)
  then show "token_by_id db (k_id k) = Some k" "k \<in> set (tokens db)" "k_id k \<in> fst ` set cands" "k_status k = ACTIVE" "k_id k \<notin> set lk"
    using fetch_key_SomeD [OF i(2)] by (force simp: usable_def)+
qed

lemma commit_checkout_inv:
  assumes inv: "token_inv db"
  shows "token_inv (snd (commit_checkout lk txn cands db))"
proof (cases rule: commit_cases [of lk txn cands db])
  case empty
  with drop_deleted_inv [OF inv] show ?thesis by simp
next
  case (twice k l)
  with inv show ?thesis by auto
next
  case (lent k row db')
  let ?db = "drop_deleted txn db"
  let ?db1 = "?db\<lparr>token_leases := token_leases ?db @ [row], lease_seq := lease_seq db + 1\<rparr>"
  have inv1: "token_inv ?db" by (rule drop_deleted_inv [OF inv])
  have row: "tl_token_id row = k_id k" "tl_id row = lease_seq db" "tl_owner row = ct_owner txn" by (simp_all add: lent(3))
  have "lease_ok ?db1 l" if "l \<in> set (token_leases ?db)" for l
    using inv1 that by (auto simp: token_inv_def lease_ok_def)
  moreover have "lease_ok ?db1 row" using lock_token_row(1) [OF lent(1)] by (simp add: lease_ok_def row)
  moreover have "tl_id l < lease_seq db" if "l \<in> set (token_leases ?db)" for l
    using inv1 that by (auto simp: token_inv_def lease_ok_def)
  then have "distinct (map tl_id (token_leases ?db1))"
    using inv1 row(2) by (fastforce simp: token_inv_def)
  moreover have "distinct (map (\<lambda>l. (tl_token_id l, tl_owner l)) (token_leases ?db1))"
  proof -
    have "(k_id k, ct_owner txn) \<notin> (\<lambda>l. (tl_token_id l, tl_owner l)) ` set (token_leases ?db)"
      using lent(2) by fastforce
    with inv1 row show ?thesis by (simp add: token_inv_def)
  qed
  ultimately have "token_inv ?db1" using inv1 unfolding token_inv_def token_ok_def by simp
  from token_inv_update [OF this, of "\<lambda>x. k_id x = k_id k" "touch_token (ct_now txn)"] lent(4,5)
  show ?thesis by simp
qed

lemma begin_checkout_fields [simp]:
  "ct_owner (begin_checkout w s now db) = w" "ct_seconds (begin_checkout w s now db) = s" "ct_now (begin_checkout w s now db) = now"
  by (simp_all add: begin_checkout_def)

lemma checkout_token_inv: "token_inv (sel (del db)) \<Longrightarrow> token_inv (snd (checkout_token w s lk del sel now db))"
  by (simp add: checkout_token_def Let_def commit_checkout_inv)

definition checked_out :: "tdb \<Rightarrow> token_lease \<Rightarrow> bool" where
  "checked_out db L \<longleftrightarrow> (\<exists>l. lease_by_id db (tk_lease_id L) = Some l \<and> is_lease L l \<and>
     tl_token_id l = tk_token_id L \<and> tl_expires_at l = tk_expires_at L)"

lemma commit_lends:
  assumes inv: "token_inv db" and run: "commit_checkout lk txn cands db = (Inr (Some L), db')"
  shows "checked_out db' L" and "tk_owner L = ct_owner txn"
proof -
  have inv': "token_inv db'" using commit_checkout_inv [OF inv, of lk txn cands] run by simp
  obtain k :: token_row where L: "L = \<lparr>tk_lease_id = lease_seq db, tk_token_id = k_id k,
         tk_key = k_key k, tk_value = k_value k, tk_owner = ct_owner txn, tk_expires_at = ct_now txn + seconds (ct_seconds txn)\<rparr>"
    and row: "\<lparr>tl_id = lease_seq db, tl_token_id = k_id k, tl_owner = ct_owner txn, tl_acquired_at = ct_now txn,
         tl_expires_at = ct_now txn + seconds (ct_seconds txn)\<rparr> \<in> set (token_leases db')"
  proof (cases rule: commit_cases [of lk txn cands db])
    case (lent k row db1)
    then show thesis using run that [of k] by simp
  qed (use run in auto)
  have "distinct (map tl_id (token_leases db'))" using inv' by (simp add: token_inv_def)
  from fetch_key_unique [OF this row] show "checked_out db' L" by (simp add: checked_out_def is_lease_def L)
  show "tk_owner L = ct_owner txn" by (simp add: L)
qed

text \<open>
  C31: \<open>checkout_token\<close> lends the token that is next, whatever is committed while it runs: of the tokens that were active, past
  their cooldown and below their concurrency limit for its \<open>SELECT\<close>, are still active and past their cooldown when it comes to
  lock them, and are not locked by others, the one leased longest ago (never-leased ones first, then by id). The lease is
  recorded under the caller's name for the time asked. It lends nothing exactly when no token is next, and raises
  exactly when the caller has a lease row of the token that is next which its own \<open>DELETE\<close> did not remove; then it
  changes no row.
\<close>

theorem checkout_outcome:
  fixes now :: time
  assumes inv: "token_inv (sel (del db))"
  defines "left \<equiv> \<lambda>l. \<not> (\<exists>l0\<in>set (token_leases db). tl_id l0 = tl_id l \<and> tl_expires_at l0 \<le> now)"
  shows "case checkout_token w s lk del sel now db of
      (Inr (Some L), db') \<Rightarrow> \<exists>k. next_token lk now (del db) (sel (del db)) k \<and>
        \<not> (\<exists>l\<in>set (token_leases (sel (del db))). tl_token_id l = k_id k \<and> tl_owner l = w \<and> left l) \<and>
        tk_token_id L = k_id k \<and> tk_key L = k_key k \<and> tk_value L = k_value k \<and> tk_owner L = w \<and>
        tk_expires_at L = now + s * 1000000 \<and> checked_out db' L \<and>
        (\<exists>k'. token_by_id db' (k_id k) = Some k' \<and> k_last_leased_at k' = Some now)
    | (Inr None, db') \<Rightarrow> tokens db' = tokens (sel (del db)) \<and> \<not> (\<exists>k. next_token lk now (del db) (sel (del db)) k)
    | (Inl e, db') \<Rightarrow> tokens db' = tokens (sel (del db)) \<and> token_leases db' = token_leases (sel (del db)) \<and>
        (\<exists>k. next_token lk now (del db) (sel (del db)) k \<and>
           (\<exists>l\<in>set (token_leases (sel (del db))). tl_token_id l = k_id k \<and> tl_owner l = w \<and> left l))"
proof -
  let ?txn = "begin_checkout w s now db"
  let ?cur = "sel (del db)"
  let ?cands = "candidates ?txn (del db)"
  have run: "checkout_token w s lk del sel now db = commit_checkout lk ?txn ?cands ?cur" by (simp add: checkout_token_def Let_def)
  have kept: "l \<in> set (token_leases (drop_deleted ?txn ?cur)) \<longleftrightarrow> l \<in> set (token_leases ?cur) \<and> left l" for l
    by (auto simp: drop_deleted_def left_def begin_checkout_def image_iff)
  show ?thesis
  proof (cases rule: commit_cases [of lk ?txn ?cands ?cur])
    case empty
    then show ?thesis using lock_token_None [of lk ?txn "del db" ?cur] by (auto simp: run next_token_def)
  next
    case (twice k l)
    then have "\<exists>l\<in>set (token_leases ?cur). tl_token_id l = k_id k \<and> tl_owner l = w \<and> left l"
      by (intro bexI [of _ l]) (simp_all add: kept)
    with lock_token_Some [OF twice(1)] have "\<exists>k. next_token lk now (del db) ?cur k \<and>
      (\<exists>l\<in>set (token_leases ?cur). tl_token_id l = k_id k \<and> tl_owner l = w \<and> left l)" by auto
    moreover obtain e where "commit_checkout lk ?txn ?cands ?cur = (Inl e, ?cur\<lparr>lease_seq := lease_seq ?cur + 1\<rparr>)" using twice(5) by blast
    ultimately show ?thesis by (simp add: run)
  next
    case (lent k row db')
    have "checked_out db' \<lparr>tk_lease_id = lease_seq ?cur, tk_token_id = k_id k, tk_key = k_key k, tk_value = k_value k,
        tk_owner = w, tk_expires_at = now + seconds s\<rparr>"
      using commit_lends(1) [OF inv lent(5)] by simp
    moreover have "\<exists>k'. token_by_id db' (k_id k) = Some k' \<and> k_last_leased_at k' = Some now"
      using lock_token_row(1) [OF lent(1)] by (simp add: lent(4) fetch_key_update_where touch_token_def)
    ultimately show ?thesis using lock_token_Some [OF lent(1)] lent(2,5) by (auto simp: run kept seconds_def)
  qed
qed

definition sample_tdb :: tdb where
  "sample_tdb = snd (seed_tokens 0 (upsert_token ''bot'' ''{}'' ACTIVE 0 empty_tdb))"

lemma sample_tdb: "token_inv sample_tdb"
  unfolding sample_tdb_def seed_tokens_def by (simp add: seed_rows_def upsert_token_inv token_inv_empty)

lemma sample_tokens: "map (\<lambda>k. (k_id k, k_status k)) (tokens sample_tdb) = [(1, ACTIVE), (2, REVOKED), (3, REVOKED)]"
  by (simp add: sample_tdb_def seed_tokens_def seed_rows_def upsert_token_def empty_tdb_def)

lemmas checkout_defs = checkout_token_def begin_checkout_def candidates_def lock_token_def commit_checkout_def drop_deleted_def
  available_def usable_def active_leases_def

lemma sample_checkout:
  "checkout_token ''worker-1'' 90 [] id id 10 sample_tdb = (Inr (Some \<lparr>tk_lease_id = 1, tk_token_id = 1, tk_key = ''bot'',
     tk_value = ''{}'', tk_owner = ''worker-1'', tk_expires_at = 10 + seconds 90\<rparr>),
   snd (checkout_token ''worker-1'' 90 [] id id 10 sample_tdb))"
  by (simp add: sample_tdb_def seed_tokens_def seed_rows_def upsert_token_def empty_tdb_def checkout_defs)

theorem checkout_outcome_witness:
  "\<exists>L db' k. checkout_token ''worker-1'' 90 [] id id 10 sample_tdb = (Inr (Some L), db') \<and> checked_out db' L \<and>
    next_token [] 10 sample_tdb sample_tdb k \<and> tk_token_id L = k_id k"
proof -
  obtain L db' where run: "checkout_token ''worker-1'' 90 [] id id 10 sample_tdb = (Inr (Some L), db')"
    using sample_checkout by blast
  with checkout_outcome [of id id sample_tdb, where w = "''worker-1''" and s = 90 and lk = "[]" and now = 10] sample_tdb show ?thesis
    by auto
qed

section \<open>Every interleaving\<close>

text \<open>
  The pool with the checkouts that are running, at most \<open>W\<close> of them: one that has deleted the expired leases, or one that has
  selected. Other writers take one statement each, or touch rows by their keys.
\<close>

datatype open_checkout = Deleted checkout_txn | Selected checkout_txn "(int \<times> nat) list"

fun txn_of :: "open_checkout \<Rightarrow> checkout_txn" where
  "txn_of (Deleted t) = t"
| "txn_of (Selected t _) = t"

record pool_sys =
  ps_db :: tdb
  ps_clock :: time
  ps_open :: "open_checkout multiset"

inductive token_write :: "tdb \<Rightarrow> tdb \<Rightarrow> bool" where
  succeed: "token_write db (record_success L now db)"
| release: "token_write db (release_lease L db)"
| cooldown: "token_write db (mark_cooldown L c msg now db)"
| recover: "token_write db (snd (recover_expired_cooldowns now db))"
| register: "token_write db (register_account_tokens user login now db)"
| seed: "token_write db (snd (seed_tokens now db))"
| repair: "token_write db (snd (programmatically_repair_session env row db))"

inductive pool_step :: "nat \<Rightarrow> pool_sys \<Rightarrow> pool_sys \<Rightarrow> bool" for W where
  tick: "ps_clock s \<le> t \<Longrightarrow> pool_step W s (s\<lparr>ps_clock := t\<rparr>)"
| start: "size (ps_open s) < W \<Longrightarrow> now \<le> ps_clock s \<Longrightarrow>
    pool_step W s (s\<lparr>ps_open := add_mset (Deleted (begin_checkout w secs now (ps_db s))) (ps_open s)\<rparr>)"
| choose: "Deleted t \<in># ps_open s \<Longrightarrow>
    pool_step W s (s\<lparr>ps_open := add_mset (Selected t (candidates t (ps_db s))) (ps_open s - {#Deleted t#})\<rparr>)"
| commit: "Selected t cands \<in># ps_open s \<Longrightarrow>
    pool_step W s (s\<lparr>ps_db := snd (commit_checkout lk t cands (ps_db s)), ps_open := ps_open s - {#Selected t cands#}\<rparr>)"
| abort: "x \<in># ps_open s \<Longrightarrow> pool_step W s (s\<lparr>ps_open := ps_open s - {#x#}\<rparr>)"
| other: "token_write (ps_db s) db \<Longrightarrow> pool_step W s (s\<lparr>ps_db := db\<rparr>)"

abbreviation live_leases :: "time \<Rightarrow> tdb \<Rightarrow> int \<Rightarrow> nat" where
  "live_leases now db i \<equiv> count_where (\<lambda>l. tl_token_id l = i \<and> now < tl_expires_at l) (token_leases db)"

text \<open>The checkouts that may still take token \<open>i\<close>.\<close>

fun aims_at :: "int \<Rightarrow> open_checkout \<Rightarrow> bool" where
  "aims_at i (Deleted _) = False"
| "aims_at i (Selected _ cands) = (i \<in> fst ` set cands)"

abbreviation aiming :: "open_checkout multiset \<Rightarrow> int \<Rightarrow> nat" where
  "aiming M i \<equiv> size (filter_mset (aims_at i) M)"

definition in_limit :: "nat \<Rightarrow> pool_sys \<Rightarrow> token_row \<Rightarrow> bool" where
  "in_limit W s k \<longleftrightarrow> int (live_leases (ps_clock s) (ps_db s) (k_id k) + aiming (ps_open s) (k_id k)) \<le> k_max_concurrency k + int (W - 1)"

definition pool_inv :: "nat \<Rightarrow> pool_sys \<Rightarrow> bool" where
  "pool_inv W s \<longleftrightarrow> token_inv (ps_db s) \<and> size (ps_open s) \<le> W \<and> (\<forall>x\<in>#ps_open s. ct_now (txn_of x) \<le> ps_clock s) \<and>
     (\<forall>k\<in>set (tokens (ps_db s)). in_limit W s k)"

text \<open>Other writers make no lease, and no token that has one.\<close>

definition lends_nothing :: "tdb \<Rightarrow> tdb \<Rightarrow> bool" where
  "lends_nothing db db' \<longleftrightarrow> token_inv db' \<and> (\<forall>P. count_where P (token_leases db') \<le> count_where P (token_leases db)) \<and>
     (\<forall>k'\<in>set (tokens db'). (\<exists>k\<in>set (tokens db). same_token k k') \<or>
        (k_max_concurrency k' = 1 \<and> count_where (\<lambda>l. tl_token_id l = k_id k') (token_leases db') = 0))"

lemma lends_nothing_update:
  assumes "token_inv db" and "\<And>k. P k \<Longrightarrow> same_token k (f k)"
  shows "lends_nothing db (db\<lparr>tokens := update_where P f (tokens db)\<rparr>)"
  unfolding lends_nothing_def
proof (intro conjI allI ballI)
  show "token_inv (db\<lparr>tokens := update_where P f (tokens db)\<rparr>)" by (rule token_inv_update [OF assms])
  fix k' assume "k' \<in> set (tokens (db\<lparr>tokens := update_where P f (tokens db)\<rparr>))"
  then obtain k where "k \<in> set (tokens db)" "k' = (if P k then f k else k)" by (auto elim: update_whereE)
  then show "(\<exists>k\<in>set (tokens db). same_token k k') \<or> (k_max_concurrency k' = 1 \<and>
      count_where (\<lambda>l. tl_token_id l = k_id k') (token_leases (db\<lparr>tokens := update_where P f (tokens db)\<rparr>)) = 0)"
    using assms(2) by (intro disjI1 bexI [of _ k]) (auto simp: same_token_def)
qed simp

lemma same_token_refl [simp]: "same_token k k"
  by (simp add: same_token_def)

lemma count_where_delete_le: "count_where P (delete_where Q rows) \<le> count_where P rows"
  unfolding count_where_delete by (rule count_where_mono) simp

lemma lends_nothing_release: "token_inv db \<Longrightarrow> lends_nothing db (release_lease L db)"
  unfolding lends_nothing_def using release_lease_inv [of db L]
  by (auto simp: release_lease_def count_where_delete_le intro: same_token_refl)

lemma lends_nothing_refl: "token_inv db \<Longrightarrow> lends_nothing db db"
  by (auto simp: lends_nothing_def intro: same_token_refl)

lemma lends_nothing_upsert:
  assumes inv: "token_inv db"
  shows "lends_nothing db (upsert_token key val st now db)"
proof (cases "fetch_key k_key key (tokens db)")
  case (Some k)
  have "\<exists>k\<in>set (tokens db). same_token k k'" if "k' \<in> set (tokens (upsert_token key val st now db))" for k'
    using that Some by (auto simp: upsert_token_def same_token_def set_update_where)
  moreover have "token_leases (upsert_token key val st now db) = token_leases db" using Some by (simp add: upsert_token_def)
  ultimately show ?thesis using upsert_token_inv [OF inv] unfolding lends_nothing_def by simp
next
  case None
  have fresh: "tl_token_id l \<noteq> token_seq db" if "l \<in> set (token_leases db)" for l
    using inv that by (fastforce simp: token_inv_def lease_ok_def token_ok_def dest: fetch_key_SomeD)
  have "\<forall>k'\<in>set (tokens (upsert_token key val st now db)). (\<exists>k\<in>set (tokens db). same_token k k') \<or>
      (k_max_concurrency k' = 1 \<and> k_id k' = token_seq db)"
    using None by (auto simp: upsert_token_def same_token_def)
  moreover have "token_leases (upsert_token key val st now db) = token_leases db" using None by (simp add: upsert_token_def)
  moreover have "count_where (\<lambda>l. tl_token_id l = token_seq db) (token_leases db) = 0" using fresh by (simp add: count_where_0_iff)
  ultimately show ?thesis using upsert_token_inv [OF inv] unfolding lends_nothing_def by simp metis
qed

lemma lends_nothingD:
  assumes "lends_nothing db db'"
  shows "token_inv db'" and "count_where P (token_leases db') \<le> count_where P (token_leases db)"
    and "k' \<in> set (tokens db') \<Longrightarrow> (\<exists>k\<in>set (tokens db). same_token k k') \<or>
      (k_max_concurrency k' = 1 \<and> count_where (\<lambda>l. tl_token_id l = k_id k') (token_leases db') = 0)"
  using assms unfolding lends_nothing_def by metis+

lemma lends_nothing_trans:
  assumes ab: "lends_nothing a b" and bc: "lends_nothing b c"
  shows "lends_nothing a c"
  unfolding lends_nothing_def
proof (intro conjI allI ballI)
  show "token_inv c" by (rule lends_nothingD(1) [OF bc])
  show "count_where P (token_leases c) \<le> count_where P (token_leases a)" for P
    by (rule order_trans [OF lends_nothingD(2) [OF bc] lends_nothingD(2) [OF ab]])
  fix k' assume "k' \<in> set (tokens c)"
  from lends_nothingD(3) [OF bc this] consider k :: token_row where "k \<in> set (tokens b)" "same_token k k'"
    | "k_max_concurrency k' = 1" "count_where (\<lambda>l. tl_token_id l = k_id k') (token_leases c) = 0"
    by metis
  then show "(\<exists>k\<in>set (tokens a). same_token k k') \<or>
      (k_max_concurrency k' = 1 \<and> count_where (\<lambda>l. tl_token_id l = k_id k') (token_leases c) = 0)"
  proof cases
    case 1
    from lends_nothingD(3) [OF ab 1(1)] consider k0 :: token_row where "k0 \<in> set (tokens a)" "same_token k0 k"
      | "k_max_concurrency k = 1" "count_where (\<lambda>l. tl_token_id l = k_id k) (token_leases b) = 0"
      by metis
    then show ?thesis
    proof cases
      case 2
      have "count_where (\<lambda>l. tl_token_id l = k_id k) (token_leases c) \<le> count_where (\<lambda>l. tl_token_id l = k_id k) (token_leases b)"
        by (rule lends_nothingD(2) [OF bc])
      with 2 1(2) show ?thesis by (simp add: same_token_def)
    qed (use 1(2) in \<open>auto simp: same_token_def\<close>)
  qed simp
qed

lemma token_write_lends_nothing:
  assumes "token_write db db'" and "token_inv db"
  shows "lends_nothing db db'"
  using assms
proof (induction rule: token_write.induct)
  case (succeed db L now)
  then show ?case
    unfolding record_success_def by (intro lends_nothing_trans [OF lends_nothing_update lends_nothing_release]) (simp_all add: token_inv_update)
next
  case (cooldown db L c msg now)
  then show ?case
    unfolding mark_cooldown_def by (intro lends_nothing_trans [OF lends_nothing_update lends_nothing_release]) (simp_all add: token_inv_update)
next
  case (register db user login now)
  then show ?case by (auto simp: register_account_tokens_def lends_nothing_upsert lends_nothing_refl split: sum.splits)
next
  case (seed db now)
  then show ?case
    by (simp add: seed_tokens_def seed_rows_def) (intro lends_nothing_trans [OF lends_nothing_upsert lends_nothing_upsert] upsert_token_inv)
next
  case (repair db env row)
  then show ?case
    using repair_writes [of env row db] by (auto simp: set_token_def lends_nothing_update lends_nothing_refl)
qed (simp_all add: lends_nothing_release recover_expired_cooldowns_def lends_nothing_update)

text \<open>A state of the pool is as good as another with the same tokens, no more leases, none less expired and no more checkouts.\<close>

lemma in_limit_mono:
  assumes "in_limit W s k" and "same_token k k'"
    and "live_leases (ps_clock s') (ps_db s') (k_id k) + aiming (ps_open s') (k_id k)
      \<le> live_leases (ps_clock s) (ps_db s) (k_id k) + aiming (ps_open s) (k_id k)"
  shows "in_limit W s' k'"
  using assms by (auto simp: in_limit_def same_token_def)

lemma aiming_add: "aiming (add_mset x M) i = (if aims_at i x then Suc (aiming M i) else aiming M i)"
  by simp

lemma aiming_remove: "x \<in># M \<Longrightarrow> aiming M i = (if aims_at i x then Suc (aiming (M - {#x#}) i) else aiming (M - {#x#}) i)"
  by (metis aiming_add insert_DiffM)

lemma live_leases_commit:
  assumes inv: "token_inv db"
  shows "live_leases c (snd (commit_checkout lk t cands db)) i
    \<le> live_leases c db i + (if i \<in> fst ` set cands then 1 else 0)"
proof -
  have drop: "live_leases c (drop_deleted t db) i \<le> live_leases c db i"
    by (simp add: drop_deleted_def count_where_delete_le)
  show ?thesis
  proof (cases rule: commit_cases [of lk t cands db])
    case (lent k row db')
    have "k_id k = i \<Longrightarrow> i \<in> fst ` set cands" using lock_token_row(3) [OF lent(1)] by simp
    then show ?thesis using drop lent(3,4,5) by auto
  qed (use drop in auto)
qed

lemma commit_tokens:
  assumes "k' \<in> set (tokens (snd (commit_checkout lk t cands db)))"
  shows "\<exists>k\<in>set (tokens db). same_token k k'"
proof (cases rule: commit_cases [of lk t cands db])
  case (lent k row db')
  then have "k' \<in> set (update_where (\<lambda>x. k_id x = k_id k) (touch_token (ct_now t)) (tokens db))" using assms by simp
  then show ?thesis by (rule update_whereE) (metis same_token_updates(1) same_token_refl)
qed (use assms in \<open>auto intro: same_token_refl\<close>)

lemma pool_inv_less:
  assumes inv: "pool_inv W s" and "token_inv (ps_db s')" "size (ps_open s') \<le> W"
    and "\<And>x. x \<in># ps_open s' \<Longrightarrow> ct_now (txn_of x) \<le> ps_clock s'"
    and less: "\<And>k'. k' \<in> set (tokens (ps_db s')) \<Longrightarrow> \<exists>k\<in>set (tokens (ps_db s)). same_token k k' \<and>
      live_leases (ps_clock s') (ps_db s') (k_id k) + aiming (ps_open s') (k_id k)
        \<le> live_leases (ps_clock s) (ps_db s) (k_id k) + aiming (ps_open s) (k_id k)"
  shows "pool_inv W s'"
proof -
  have "in_limit W s' k'" if "k' \<in> set (tokens (ps_db s'))" for k'
  proof -
    from less [OF that] obtain k where k: "k \<in> set (tokens (ps_db s))" "same_token k k'"
      "live_leases (ps_clock s') (ps_db s') (k_id k) + aiming (ps_open s') (k_id k)
        \<le> live_leases (ps_clock s) (ps_db s) (k_id k) + aiming (ps_open s) (k_id k)" by blast
    have "in_limit W s k" using inv k(1) by (simp add: pool_inv_def)
    from in_limit_mono [OF this k(2,3)] show ?thesis .
  qed
  with assms(2-4) show ?thesis by (simp add: pool_inv_def)
qed

lemma pool_invD:
  assumes "pool_inv W s"
  shows "token_inv (ps_db s)" "size (ps_open s) \<le> W" "x \<in># ps_open s \<Longrightarrow> ct_now (txn_of x) \<le> ps_clock s"
    "k \<in> set (tokens (ps_db s)) \<Longrightarrow> in_limit W s k"
  using assms by (auto simp: pool_inv_def)

lemma pool_step_inv:
  assumes inv: "pool_inv W s" and step: "pool_step W s s'"
  shows "pool_inv W s'"
  using step
proof cases
  case (tick t)
  have fewer: "live_leases t (ps_db s) i \<le> live_leases (ps_clock s) (ps_db s) i" for i
    using tick(2) by (intro count_where_mono) auto
  show ?thesis
  proof (rule pool_inv_less [OF inv])
    show "ct_now (txn_of x) \<le> ps_clock s'" if "x \<in># ps_open s'" for x
      using pool_invD(3) [OF inv, of x] that tick by simp
    show "\<exists>k\<in>set (tokens (ps_db s)). same_token k k' \<and>
      live_leases (ps_clock s') (ps_db s') (k_id k) + aiming (ps_open s') (k_id k)
        \<le> live_leases (ps_clock s) (ps_db s) (k_id k) + aiming (ps_open s) (k_id k)" if "k' \<in> set (tokens (ps_db s'))" for k'
      using that tick(1) fewer by (intro bexI [of _ k']) simp_all
  qed (use pool_invD(1,2) [OF inv] tick(1) in simp_all)
next
  case (start now w secs)
  show ?thesis
  proof (rule pool_inv_less [OF inv])
    show "ct_now (txn_of x) \<le> ps_clock s'" if "x \<in># ps_open s'" for x
      using pool_invD(3) [OF inv, of x] that start by auto
    show "\<exists>k\<in>set (tokens (ps_db s)). same_token k k' \<and>
      live_leases (ps_clock s') (ps_db s') (k_id k) + aiming (ps_open s') (k_id k)
        \<le> live_leases (ps_clock s) (ps_db s) (k_id k) + aiming (ps_open s) (k_id k)" if "k' \<in> set (tokens (ps_db s'))" for k'
      using that start(1) by (intro bexI [of _ k']) simp_all
  qed (use pool_invD(1,2) [OF inv] start(1,2) in simp_all)
next
  case (choose t)
  have now: "ct_now t \<le> ps_clock s" using inv choose(2) by (force simp: pool_inv_def)
  have "in_limit W s' k" if k: "k \<in> set (tokens (ps_db s))" for k
  proof (cases "k_id k \<in> fst ` set (candidates t (ps_db s))")
    case False
    have "ps_open s' = add_mset (Selected t (candidates t (ps_db s))) (ps_open s - {#Deleted t#})" using choose(1) by simp
    then have "aiming (ps_open s') (k_id k) = aiming (ps_open s - {#Deleted t#}) (k_id k)" by (simp only: False aiming_add aims_at.simps if_False)
    also have "\<dots> = aiming (ps_open s) (k_id k)" using aiming_remove [OF choose(2), of "k_id k"] by (simp only: aims_at.simps if_False)
    finally show ?thesis
      using choose(1) by (intro in_limit_mono [OF pool_invD(4) [OF inv k]]) simp_all
  next
    case True
    then obtain k0 where "k0 \<in> set (tokens (ps_db s))" "k_id k0 = k_id k" "available (ct_now t) (ps_db s) k0"
      by (auto simp: candidates_def)
    then have "available (ct_now t) (ps_db s) k"
      using inv k same_key_eq [of k_id "tokens (ps_db s)" k0 k] by (simp add: pool_inv_def token_inv_def)
    moreover have "live_leases (ps_clock s) (ps_db s) (k_id k) \<le> active_leases (ct_now t) (ps_db s) k"
      unfolding active_leases_def using now by (intro count_where_mono) auto
    ultimately have "int (live_leases (ps_clock s) (ps_db s) (k_id k)) < k_max_concurrency k"
      by (simp add: available_def usable_def)
    moreover have "aiming (ps_open s') (k_id k) \<le> size (ps_open s')" by (rule size_filter_mset_lesseq)
    moreover have "size (ps_open s') = size (ps_open s)" using choose by (simp add: size_Suc_Diff1)
    moreover have "0 < size (ps_open s)" using choose(2) by (metis empty_iff set_mset_empty size_eq_0_iff_empty not_gr_zero)
    ultimately show ?thesis using inv choose by (auto simp: pool_inv_def in_limit_def)
  qed
  then show ?thesis using inv choose now
    by (auto simp: pool_inv_def size_Suc_Diff1 dest: in_diffD)
next
  case (commit t cands lk)
  have inv0: "token_inv (ps_db s)" by (rule pool_invD(1) [OF inv])
  have small: "size (ps_open s - {#Selected t cands#}) \<le> size (ps_open s)" by (simp add: size_mset_mono)
  show ?thesis
  proof (rule pool_inv_less [OF inv])
    show "token_inv (ps_db s')" using commit_checkout_inv [OF inv0] commit(1) by simp
    show "ct_now (txn_of x) \<le> ps_clock s'" if "x \<in># ps_open s'" for x
      using pool_invD(3) [OF inv, of x] that commit(1) by (auto dest: in_diffD)
    fix k' assume "k' \<in> set (tokens (ps_db s'))"
    then obtain k where k: "k \<in> set (tokens (ps_db s))" "same_token k k'"
      using commit_tokens [of k' lk t cands "ps_db s"] commit(1) by auto
    have "live_leases (ps_clock s) (snd (commit_checkout lk t cands (ps_db s))) (k_id k) + aiming (ps_open s - {#Selected t cands#}) (k_id k)
      \<le> live_leases (ps_clock s) (ps_db s) (k_id k) + aiming (ps_open s) (k_id k)"
      using live_leases_commit [OF inv0, where c = "ps_clock s" and lk = lk and t = t and cands = cands and i = "k_id k"] aiming_remove [OF commit(2), of "k_id k"]
      by (cases "k_id k \<in> fst ` set cands") (simp_all only: aims_at.simps if_True if_False)
    then show "\<exists>k\<in>set (tokens (ps_db s)). same_token k k' \<and>
      live_leases (ps_clock s') (ps_db s') (k_id k) + aiming (ps_open s') (k_id k)
        \<le> live_leases (ps_clock s) (ps_db s) (k_id k) + aiming (ps_open s) (k_id k)"
      using k commit(1) by (intro bexI [of _ k]) simp_all
  qed (use small pool_invD(2) [OF inv] commit(1) in simp_all)
next
  case (abort x)
  have small: "size (ps_open s - {#x#}) \<le> size (ps_open s)" by (simp add: size_mset_mono)
  have fewer: "aiming (ps_open s - {#x#}) i \<le> aiming (ps_open s) i" for i
    using aiming_remove [OF abort(2), of i] by (cases "aims_at i x") simp_all
  show ?thesis
  proof (rule pool_inv_less [OF inv])
    show "ct_now (txn_of y) \<le> ps_clock s'" if "y \<in># ps_open s'" for y
      using pool_invD(3) [OF inv, of y] that abort(1) by (auto dest: in_diffD)
    show "\<exists>k\<in>set (tokens (ps_db s)). same_token k k' \<and>
      live_leases (ps_clock s') (ps_db s') (k_id k) + aiming (ps_open s') (k_id k)
        \<le> live_leases (ps_clock s) (ps_db s) (k_id k) + aiming (ps_open s) (k_id k)" if "k' \<in> set (tokens (ps_db s'))" for k'
      using that abort(1) fewer by (intro bexI [of _ k']) simp_all
  qed (use small pool_invD(1,2) [OF inv] abort(1) in simp_all)
next
  case (other db)
  have ln: "lends_nothing (ps_db s) db" using token_write_lends_nothing [OF other(2)] inv by (simp add: pool_inv_def)
  have "in_limit W s' k'" if k': "k' \<in> set (tokens db)" for k'
  proof -
    have fewer: "count_where P (token_leases db) \<le> count_where P (token_leases (ps_db s))" for P by (rule lends_nothingD(2) [OF ln])
    consider k :: token_row where "k \<in> set (tokens (ps_db s))" "same_token k k'"
      | "k_max_concurrency k' = 1" "count_where (\<lambda>l. tl_token_id l = k_id k') (token_leases db) = 0"
      using lends_nothingD(3) [OF ln k'] by metis
    then show ?thesis
    proof cases
      case 1
      then show ?thesis using inv fewer other by (intro in_limit_mono [OF _ 1(2)]) (auto simp: pool_inv_def)
    next
      case 2
      then have "live_leases (ps_clock s) db (k_id k') = 0" by (auto simp: count_where_0_iff)
      moreover have "aiming (ps_open s) (k_id k') \<le> W" by (rule order_trans [OF size_filter_mset_lesseq pool_invD(2) [OF inv]])
      then have "int (aiming (ps_open s) (k_id k')) \<le> 1 + int (W - 1)" by linarith
      ultimately show ?thesis using other(1) 2(1) by (simp add: in_limit_def)
    qed
  qed
  then show ?thesis using inv other ln by (auto simp: pool_inv_def lends_nothing_def)
qed

definition pool_init :: pool_sys where
  "pool_init = \<lparr>ps_db = empty_tdb, ps_clock = 0, ps_open = {#}\<rparr>"

interpretation token_pool: safe_system pool_init "pool_step W" "pool_inv W" for W
  by unfold_locales (simp add: pool_inv_def pool_init_def token_inv_empty, simp add: empty_tdb_def, rule pool_step_inv)

text \<open>
  C14: How far the pool can exceed the concurrency limit of a token: as PostgreSQL runs the statements of the checkouts,
  interleaved with each other and with every other writer of the tables, a token has never more than
  \<open>max_concurrency + (W - 1)\<close> unexpired leases when at most \<open>W\<close> checkouts are open at a time, so the limit itself holds where
  checkouts do not overlap. No worker has two lease rows of one token, and every lease row names a token there is.
\<close>

theorem pool_overbooking_bounded:
  assumes start: "token_inv (ps_db s0)" "ps_open s0 = {#}"
    "\<forall>k\<in>set (tokens (ps_db s0)). int (count_where (\<lambda>l. tl_token_id l = k_id k) (token_leases (ps_db s0))) \<le> k_max_concurrency k"
    and run: "reachable_from (pool_step W) s0 s" and token: "token_by_id (ps_db s) i = Some k"
  shows "int (count_where (\<lambda>l. tl_token_id l = i \<and> ps_clock s < tl_expires_at l) (token_leases (ps_db s)))
      \<le> k_max_concurrency k + int (W - 1) \<and>
    count_where (\<lambda>l. tl_token_id l = i \<and> tl_owner l = w) (token_leases (ps_db s)) \<le> 1 \<and>
    (\<forall>l\<in>set (token_leases (ps_db s)). \<exists>k'\<in>set (tokens (ps_db s)). k_id k' = tl_token_id l)"
proof -
  have "live_leases (ps_clock s0) (ps_db s0) j \<le> count_where (\<lambda>l. tl_token_id l = j) (token_leases (ps_db s0))" for j
    by (rule count_where_mono) simp
  then have "int (live_leases (ps_clock s0) (ps_db s0) (k_id k)) \<le> k_max_concurrency k" if "k \<in> set (tokens (ps_db s0))" for k
    using start(3) [rule_format, OF that] by (meson of_nat_mono order_trans)
  then have "in_limit W s0 k" if "k \<in> set (tokens (ps_db s0))" for k
    using that by (fastforce simp: in_limit_def start(2))
  then have "pool_inv W s0" using start(1,2) by (simp add: pool_inv_def)
  then have inv: "pool_inv W s" by (rule token_pool.inv_from [OF run])
  have k: "k \<in> set (tokens (ps_db s))" "k_id k = i" using token by (auto dest: fetch_key_SomeD)
  then have "in_limit W s k" using inv by (simp add: pool_inv_def)
  then have "int (live_leases (ps_clock s) (ps_db s) i) \<le> k_max_concurrency k + int (W - 1)" using k(2) by (simp add: in_limit_def)
  moreover have "count_where (\<lambda>l. tl_token_id l = i \<and> tl_owner l = w) (token_leases (ps_db s)) \<le> 1"
    using count_where_key [of "\<lambda>l. (tl_token_id l, tl_owner l)" "token_leases (ps_db s)"
        "\<lambda>l. tl_token_id l = i \<and> tl_owner l = w" "(i, w)"] inv
    by (auto simp: pool_inv_def token_inv_def split: option.splits)
  moreover have "\<forall>l\<in>set (token_leases (ps_db s)). \<exists>k'\<in>set (tokens (ps_db s)). k_id k' = tl_token_id l"
    using inv by (fastforce simp: pool_inv_def token_inv_def lease_ok_def dest: fetch_key_SomeD)
  ultimately show ?thesis by blast
qed

text \<open>The bound is reached: two checkouts that select before either commits lend a token with \<open>max_concurrency\<close> 1 twice.\<close>

definition idle_pool :: pool_sys where
  "idle_pool = \<lparr>ps_db = sample_tdb, ps_clock = 10, ps_open = {#}\<rparr>"

lemma overbooking_happens:
  "\<exists>s k. reachable_from (pool_step 2) idle_pool s \<and> token_by_id (ps_db s) 1 = Some k \<and> k_max_concurrency k = 1 \<and>
     live_leases (ps_clock s) (ps_db s) 1 = 2"
proof -
  define a where "a = begin_checkout ''worker-1'' 90 10 sample_tdb"
  define b where "b = begin_checkout ''worker-2'' 90 10 sample_tdb"
  define db1 where "db1 = snd (commit_checkout [] a (candidates a sample_tdb) sample_tdb)"
  define db2 where "db2 = snd (commit_checkout [] b (candidates b sample_tdb) db1)"
  let ?s = "\<lambda>db M. \<lparr>ps_db = db, ps_clock = 10, ps_open = M\<rparr>"
  let ?A = "Selected a (candidates a sample_tdb)" and ?B = "Selected b (candidates b sample_tdb)"
  have "pool_step 2 (?s sample_tdb {#}) (?s sample_tdb {#Deleted a#})"
    using pool_step.start [of "?s sample_tdb {#}" 2 10 "''worker-1''" 90] by (simp add: a_def)
  moreover have "pool_step 2 (?s sample_tdb {#Deleted a#}) (?s sample_tdb {#Deleted b, Deleted a#})"
    using pool_step.start [of "?s sample_tdb {#Deleted a#}" 2 10 "''worker-2''" 90] by (simp add: b_def)
  moreover have "pool_step 2 (?s sample_tdb {#Deleted b, Deleted a#}) (?s sample_tdb {#?A, Deleted b#})"
    using pool_step.choose [of a "?s sample_tdb {#Deleted b, Deleted a#}" 2] by (simp add: add_mset_commute)
  moreover have "pool_step 2 (?s sample_tdb {#?A, Deleted b#}) (?s sample_tdb {#?B, ?A#})"
    using pool_step.choose [of b "?s sample_tdb {#?A, Deleted b#}" 2] by (simp add: add_mset_commute)
  moreover have "pool_step 2 (?s sample_tdb {#?B, ?A#}) (?s db1 {#?B#})"
    using pool_step.commit [of a "candidates a sample_tdb" "?s sample_tdb {#?B, ?A#}" 2 "[]"] by (simp add: db1_def add_mset_commute)
  moreover have "pool_step 2 (?s db1 {#?B#}) (?s db2 {#})"
    using pool_step.commit [of b "candidates b sample_tdb" "?s db1 {#?B#}" 2 "[]"] by (simp add: db2_def)
  ultimately have "reachable_from (pool_step 2) idle_pool (?s db2 {#})"
    unfolding idle_pool_def by (meson reachable_from.intros)
  moreover have "\<exists>k. token_by_id db2 1 = Some k \<and> k_max_concurrency k = 1" "live_leases 10 db2 1 = 2"
    by (simp_all add: db1_def db2_def a_def b_def sample_tdb_def seed_tokens_def seed_rows_def upsert_token_def empty_tdb_def
        checkout_defs touch_token_def seconds_def)
  ultimately show ?thesis by (intro exI [of _ "?s db2 {#}"]) auto
qed

theorem pool_overbooking_bounded_witness:
  "\<exists>s k. reachable_from (pool_step 2) idle_pool s \<and> token_by_id (ps_db s) 1 = Some k \<and> k_max_concurrency k = 1 \<and>
     live_leases (ps_clock s) (ps_db s) 1 = 2 \<and> count_where (\<lambda>l. tl_token_id l = 1 \<and> tl_owner l = ''worker-1'') (token_leases (ps_db s)) \<le> 1"
proof -
  have start: "token_inv (ps_db idle_pool)" "ps_open idle_pool = {#}" using sample_tdb by (simp_all add: idle_pool_def)
  have "\<forall>k\<in>set (tokens (ps_db idle_pool)). int (count_where (\<lambda>l. tl_token_id l = k_id k) (token_leases (ps_db idle_pool))) \<le> k_max_concurrency k"
    by (simp add: idle_pool_def sample_tdb_def seed_tokens_def seed_rows_def upsert_token_def empty_tdb_def)
  note bounded = pool_overbooking_bounded [OF start this]
  from overbooking_happens show ?thesis using bounded by blast
qed

section \<open>Cooling down\<close>

lemma release_lease_frame [simp]: "tokens (release_lease L db) = tokens db"
  by (simp add: release_lease_def)

lemma is_lease_gone: "\<not> (\<exists>l\<in>set (token_leases (release_lease L db)). is_lease L l)"
  by (simp add: release_lease_def)

lemma mark_cooldown_row:
  "token_by_id (mark_cooldown L c msg t db) i
    = map_option (\<lambda>k. if k_id k = tk_token_id L then cool_token c msg t k else k) (token_by_id db i)"
  by (simp add: mark_cooldown_def fetch_key_update_where cool_token_def)

lemma recover_row:
  "token_by_id (snd (recover_expired_cooldowns now db)) i
    = map_option (\<lambda>k. if cooled_down now k then revive_token now k else k) (token_by_id db i)"
  by (simp add: recover_expired_cooldowns_def fetch_key_update_where revive_token_def)




text \<open>
  \<open>mark_cooldown\<close> does not look at the status, so a token that was revoked while it was lent out comes back into
  circulation after the cooldown.
\<close>

lemma revoked_token_returns:
  assumes "token_by_id db (tk_token_id L) = Some k" and "k_status k = REVOKED" and "t + seconds c \<le> now"
  shows "\<exists>k2. token_by_id (snd (recover_expired_cooldowns now (mark_cooldown L c msg t db))) (tk_token_id L) = Some k2 \<and>
    k_status k2 = ACTIVE"
  using assms by (auto simp: recover_row mark_cooldown_row cooled_down_def cool_token_def revive_token_def dest: fetch_key_SomeD)

section \<open>The contract of a session pool\<close>

definition same_lease :: "token_lease \<Rightarrow> token_lease \<Rightarrow> bool" where
  "same_lease K L \<longleftrightarrow> tk_lease_id K = tk_lease_id L \<and> tk_owner K = tk_owner L"

text \<open>The three names under which one collection borrows.\<close>

definition own_lease :: "string \<Rightarrow> token_lease \<Rightarrow> bool" where
  "own_lease w K \<longleftrightarrow> tk_owner K \<in> {w, w @ '':failover'', w @ '':recovery''}"

text \<open>
  What a collection may rely on, whichever pool it borrows from, when the other users of the pool keep it in order and borrow
  nothing under the collection's names (\<open>quiet\<close>): a checkout either lends a lease that is then
  held, or lends nothing or raises, and it makes no other lease under these names; each of the three ways to give a lease back
  ends that lease and no other.
\<close>

locale session_pool =
  fixes ops :: "('env, 'db) session_ops"
    and good :: "'db \<Rightarrow> bool"
    and holds :: "'db \<Rightarrow> token_lease \<Rightarrow> bool"
    and quiet :: "string \<Rightarrow> 'env \<Rightarrow> bool"
  assumes checkout_good: "good db \<Longrightarrow> quiet w env \<Longrightarrow> good (snd (so_checkout ops env x db))"
    and checkout_holds: "good db \<Longrightarrow> quiet w env \<Longrightarrow> so_checkout ops env x db = (Inr (Some L), db') \<Longrightarrow> holds db' L \<and> tk_owner L = x"
    and checkout_new: "good db \<Longrightarrow> quiet w env \<Longrightarrow> so_checkout ops env x db = (r, db') \<Longrightarrow> own_lease w K \<Longrightarrow> holds db' K \<Longrightarrow>
      holds db K \<or> (\<exists>L. r = Inr (Some L) \<and> same_lease K L)"
    and success_good: "good db \<Longrightarrow> good (so_success ops env L db)"
    and release_good: "good db \<Longrightarrow> good (so_release ops env L db)"
    and cooldown_good: "good db \<Longrightarrow> good (so_cooldown ops env L msg db)"
    and success_holds: "good db \<Longrightarrow> holds (so_success ops env L db) K \<longleftrightarrow> holds db K \<and> \<not> same_lease K L"
    and release_holds: "good db \<Longrightarrow> holds (so_release ops env L db) K \<longleftrightarrow> holds db K \<and> \<not> same_lease K L"
    and cooldown_holds: "good db \<Longrightarrow> holds (so_cooldown ops env L msg db) K \<longleftrightarrow> holds db K \<and> \<not> same_lease K L"

lemma checked_out_release:
  assumes "token_inv db"
  shows "checked_out (release_lease L db) K \<longleftrightarrow> checked_out db K \<and> \<not> same_lease K L"
proof -
  have "distinct (map tl_id (token_leases db))" using assms by (simp add: token_inv_def)
  then show ?thesis
    by (auto simp: checked_out_def release_lease_def fetch_key_delete_where is_lease_def same_lease_def
        dest: fetch_key_SomeD split: option.splits if_splits)
qed

lemma checked_out_tokens [simp]: "checked_out (db\<lparr>tokens := ts\<rparr>) L = checked_out db L"
  by (simp add: checked_out_def)

lemma checked_out_seq [simp]: "checked_out (db\<lparr>lease_seq := n\<rparr>) L = checked_out db L"
  by (simp add: checked_out_def)

lemma checked_out_drop:
  assumes "token_inv db" and "checked_out (drop_deleted txn db) K"
  shows "checked_out db K"
proof -
  have "distinct (map tl_id (token_leases db))" using assms(1) by (simp add: token_inv_def)
  with assms(2) show ?thesis
    by (auto simp: checked_out_def drop_deleted_def fetch_key_delete_where split: option.splits if_splits)
qed

lemma checked_out_commit:
  assumes inv: "token_inv db" and run: "commit_checkout lk txn cands db = (r, db')" and held: "checked_out db' K"
  shows "checked_out db K \<or> (\<exists>L. r = Inr (Some L) \<and> same_lease K L)"
proof (cases rule: commit_cases [of lk txn cands db])
  case (lent k row db1)
  let ?db = "drop_deleted txn db"
  have "lease_by_id db' (tk_lease_id K)
    = (case lease_by_id ?db (tk_lease_id K) of None \<Rightarrow> if tl_id row = tk_lease_id K then Some row else None | Some l \<Rightarrow> Some l)"
    using run lent by (auto simp: fetch_key_append split: option.split)
  with held consider "checked_out ?db K" | "tl_id row = tk_lease_id K" "is_lease K row"
    by (auto simp: checked_out_def split: option.splits if_splits)
  then show ?thesis
  proof cases
    case 2
    then show ?thesis using run lent by (auto simp: same_lease_def is_lease_def)
  qed (use checked_out_drop [OF inv] in blast)
qed (use run held checked_out_drop [OF inv] in auto)

text \<open>What others commit while a checkout runs keeps the tables in order and borrows nothing under these names.\<close>

definition quiet_commits :: "string \<Rightarrow> (tdb \<Rightarrow> tdb) \<Rightarrow> bool" where
  "quiet_commits w f \<longleftrightarrow> (\<forall>db. token_inv db \<longrightarrow> token_inv (f db) \<and> (\<forall>K. own_lease w K \<and> checked_out (f db) K \<longrightarrow> checked_out db K))"

definition quiet_pool_env :: "string \<Rightarrow> pool_env \<Rightarrow> bool" where
  "quiet_pool_env w env \<longleftrightarrow> quiet_commits w (pe_deleted env) \<and> quiet_commits w (pe_selected env)"

lemma quiet_commitsD:
  assumes "quiet_commits w f" and "token_inv db"
  shows "token_inv (f db)" and "own_lease w K \<Longrightarrow> checked_out (f db) K \<Longrightarrow> checked_out db K"
  using assms by (auto simp: quiet_commits_def)

lemma quiet_commits_id [simp]: "quiet_commits w id"
  by (simp add: quiet_commits_def)

interpretation token_repository: session_pool "token_repo lease_seconds cooldown_seconds" token_inv checked_out quiet_pool_env
  for lease_seconds cooldown_seconds
proof unfold_locales
  fix db :: tdb and env :: pool_env and w x L db' msg and r :: "exc + token_lease option" and K
  assume inv: "token_inv db"
  let ?ops = "token_repo lease_seconds cooldown_seconds"
  let ?cur = "pe_selected env (pe_deleted env db)"
  {
    assume "quiet_pool_env w env"
    then have gaps: "quiet_commits w (pe_deleted env)" "quiet_commits w (pe_selected env)" by (simp_all add: quiet_pool_env_def)
    note mid = quiet_commitsD(1) [OF gaps(1) inv]
    note cur = quiet_commitsD(1) [OF gaps(2) mid]
    have same: "checked_out db K" if "own_lease w K" "checked_out ?cur K"
      by (rule quiet_commitsD(2) [OF gaps(1) inv that(1) quiet_commitsD(2) [OF gaps(2) mid that]])
    show "token_inv (snd (so_checkout ?ops env x db))"
      using cur by (simp add: token_repo_def checkout_token_inv)
    show "checked_out db' L \<and> tk_owner L = x" if "so_checkout ?ops env x db = (Inr (Some L), db')"
      using commit_lends [OF cur] that by (auto simp: token_repo_def checkout_token_def Let_def)
    show "checked_out db K \<or> (\<exists>L. r = Inr (Some L) \<and> same_lease K L)"
      if "so_checkout ?ops env x db = (r, db')" and "own_lease w K" and "checked_out db' K"
      using checked_out_commit [OF cur _ that(3)] that(1) same [OF that(2)] by (auto simp: token_repo_def checkout_token_def Let_def)
  }
  show "token_inv (so_success ?ops env L db)" "token_inv (so_release ?ops env L db)" "token_inv (so_cooldown ?ops env L msg db)"
    using inv by (simp_all add: token_repo_def record_success_inv release_lease_inv mark_cooldown_inv)
  show "checked_out (so_release ?ops env L db) K \<longleftrightarrow> checked_out db K \<and> \<not> same_lease K L"
    using inv by (simp add: token_repo_def checked_out_release)
  show "checked_out (so_success ?ops env L db) K \<longleftrightarrow> checked_out db K \<and> \<not> same_lease K L"
    using inv by (simp add: token_repo_def record_success_def checked_out_release token_inv_update)
  show "checked_out (so_cooldown ?ops env L msg db) K \<longleftrightarrow> checked_out db K \<and> \<not> same_lease K L"
    using inv by (simp add: token_repo_def mark_cooldown_def checked_out_release token_inv_update)
qed

end
