(* ===== verification/CollectorProps.thy ===== *)
theory CollectorProps
  imports Collector CapabilityProps TokenProps
begin

text \<open>
  A collection gives every session back unless it is cancelled, never makes more pages than contract and
  settings allow, and reports exactly what it collected. The first is proved for any pool with the contract
  of \<open>session_pool\<close> and then used for the repository.
\<close>

section \<open>Sessions are given back\<close>

text \<open>Other processes keep the pool in order and do not borrow under these names, while a checkout runs and after it.\<close>

definition quiet_attempt ::
  "('db \<Rightarrow> bool) \<Rightarrow> ('db \<Rightarrow> token_lease \<Rightarrow> bool) \<Rightarrow> (string \<Rightarrow> 'env \<Rightarrow> bool) \<Rightarrow> string \<Rightarrow> ('env, 'db) attempt_env \<Rightarrow> bool" where
  "quiet_attempt good holds quiet w ae \<longleftrightarrow> quiet w (ae_checkout ae) \<and> (\<forall>db. good db \<longrightarrow> good (ae_others ae db) \<and>
     (\<forall>K. own_lease w K \<and> holds (ae_others ae db) K \<longrightarrow> holds db K))"

definition quiet_page ::
  "('db \<Rightarrow> bool) \<Rightarrow> ('db \<Rightarrow> token_lease \<Rightarrow> bool) \<Rightarrow> (string \<Rightarrow> 'env \<Rightarrow> bool) \<Rightarrow> string \<Rightarrow> ('env, 'db) page_env \<Rightarrow> bool" where
  "quiet_page good holds quiet w pe \<longleftrightarrow> quiet_attempt good holds quiet w (pg_first pe) \<and>
     quiet_attempt good holds quiet w (pg_failover pe) \<and> quiet_attempt good holds quiet w (pg_recovery pe)"

text \<open>What holds after a step of a collection: the pool is in order, and nothing new is held unless cancelled.\<close>

definition clean_after ::
  "('db \<Rightarrow> bool) \<Rightarrow> ('db \<Rightarrow> token_lease \<Rightarrow> bool) \<Rightarrow> string \<Rightarrow> 'db \<Rightarrow> (exc + 'a) \<times> 'db \<Rightarrow> bool" where
  "clean_after good holds w db = (\<lambda>(r, db'). good db' \<and>
     (r \<noteq> Inl CancelledError \<longrightarrow> (\<forall>K. own_lease w K \<and> holds db' K \<longrightarrow> holds db K)))"

lemma clean_after_trans:
  "clean_after good holds w db (r, db1) \<Longrightarrow> r \<noteq> Inl CancelledError \<Longrightarrow> clean_after good holds w db1 res \<Longrightarrow>
     clean_after good holds w db res"
  by (auto simp: clean_after_def split: prod.splits)

lemma clean_after_result:
  "clean_after good holds w db (r, db1) \<Longrightarrow> r \<noteq> Inl CancelledError \<Longrightarrow> clean_after good holds w db (r', db1)"
  by (simp add: clean_after_def)

lemma clean_after_same: "good db \<Longrightarrow> clean_after good holds w db (r, db)"
  by (simp add: clean_after_def)

context session_pool
begin

lemma give_back_good: "good db \<Longrightarrow> good (give_back ops env L answer db)"
  by (auto simp: give_back_def success_good release_good cooldown_good split: sum.split exc.split)

lemma give_back_holds:
  "good db \<Longrightarrow> answer \<noteq> Inl CancelledError \<Longrightarrow>
     holds (give_back ops env L answer db) K \<longleftrightarrow> holds db K \<and> \<not> same_lease K L"
  by (auto simp: give_back_def success_holds release_holds cooldown_holds split: sum.split exc.split)

lemma attempt_clean:
  assumes good: "good db" and calm: "quiet_attempt good holds quiet w ae"
  shows "clean_after good holds w db (collect_with_session ops adapter req x ae db)"
proof (cases "sa_requires_session adapter")
  case False
  with assms show ?thesis by (simp add: collect_with_session_def clean_after_def quiet_attempt_def)
next
  case True
  obtain r db1 where co: "so_checkout ops (ae_checkout ae) x db = (r, db1)" by fastforce
  have quiet1: "quiet w (ae_checkout ae)" using calm by (simp add: quiet_attempt_def)
  have good1: "good db1" using checkout_good [OF good quiet1, of x] co by simp
  note new = checkout_new [OF good quiet1 co]
  show ?thesis
  proof (cases "\<exists>L. r = Inr (Some L)")
    case False
    then have "own_lease w K \<Longrightarrow> holds db1 K \<Longrightarrow> holds db K" for K using new by blast
    with True co good1 False show ?thesis
      by (auto simp: collect_with_session_def clean_after_def split: sum.splits option.splits)
  next
    case lent: True
    then obtain L where r: "r = Inr (Some L)" by blast
    define db2 where "db2 = ae_others ae db1"
    have others: "good db2" "\<And>K. own_lease w K \<Longrightarrow> holds db2 K \<Longrightarrow> holds db1 K"
      using calm good1 by (auto simp: quiet_attempt_def db2_def)
    define answer where "answer = ae_answer ae adapter req (Some L)"
    have "collect_with_session ops adapter req x ae db = (answer, give_back ops (ae_back ae) L answer db2)"
      using True co by (simp add: collect_with_session_def r answer_def db2_def Let_def)
    moreover have "holds db K"
      if "own_lease w K" "holds (give_back ops (ae_back ae) L answer db2) K" "answer \<noteq> Inl CancelledError" for K
      using that give_back_holds [OF others(1) that(3)] others(2) new [of K] r by auto
    ultimately show ?thesis using give_back_good [OF others(1)] by (auto simp: clean_after_def)
  qed
qed

lemma recover_clean:
  assumes "good db" and "quiet_page good holds quiet w pe"
  shows "clean_after good holds w db (recover_page ops recovery req x pe e db)"
  using assms by (cases recovery) (simp_all add: recover_page_def clean_after_same attempt_clean quiet_page_def)

lemma page_clean:
  assumes good: "good db" and calm: "quiet_page good holds quiet w pe"
  shows "clean_after good holds w db (collect_page ops primary recovery req x pe db)"
proof -
  obtain r1 db1 where one: "collect_with_session ops primary req x (pg_first pe) db = (r1, db1)" by fastforce
  have clean1: "clean_after good holds w db (r1, db1)"
    using attempt_clean [OF good, of w "pg_first pe" primary req x] calm one by (simp add: quiet_page_def)
  then have good1: "good db1" by (simp add: clean_after_def)
  show ?thesis
  proof (cases "\<exists>k msg t. r1 = Inl (Collection k msg t)")
    case False
    with one clean1 show ?thesis by (auto simp: collect_page_def split: sum.split exc.split)
  next
    case True
    then obtain k msg t where r1: "r1 = Inl (Collection k msg t)" by blast
    obtain r2 db2 where two: "collect_with_session ops primary req (x @ '':failover'') (pg_failover pe) db1 = (r2, db2)"
      by fastforce
    have clean2: "clean_after good holds w db1 (r2, db2)"
      using attempt_clean [OF good1, of w "pg_failover pe" primary req "x @ '':failover''"] calm two
      by (simp add: quiet_page_def)
    then have good2: "good db2" by (simp add: clean_after_def)
    have "clean_after good holds w db1 (collect_page ops primary recovery req x pe db)"
      using one two r1 clean2 recover_clean [OF good1 calm]
        clean_after_trans [OF clean2 _ recover_clean [OF good2 calm]]
      by (auto simp: collect_page_def split: sum.split exc.split)
    then show ?thesis using clean_after_trans [OF clean1] r1 by blast
  qed
qed

lemma pages_clean:
  assumes "good db" and calm: "\<And>n. quiet_page good holds quiet w (envs n)"
  shows "clean_after good holds w db (collect_pages fr ops primary recovery (query, product, page_size) x envs n acc db)"
  using assms(1)
proof (induction n arbitrary: acc db)
  case 0
  then show ?case by (simp add: clean_after_same)
next
  case (Suc n)
  define req where "req = \<lparr>cr_query = query, cr_product = product,
    cr_cursor = (if truthy (co_cursor acc) then Some (py_str fr (co_cursor acc)) else None), cr_page_size = page_size\<rparr>"
  obtain r db1 where page: "collect_page ops primary recovery req x (envs (length (co_pages acc))) db = (r, db1)"
    by fastforce
  have clean: "clean_after good holds w db (r, db1)"
    using page_clean [OF Suc.prems calm, where n1 = "length (co_pages acc)" and primary = primary and recovery = recovery
        and req = req and x = x] page by simp
  then have good1: "good db1" by (simp add: clean_after_def)
  show ?case
  proof (cases r)
    case (Inl e)
    with clean page show ?thesis by (simp add: req_def clean_after_def)
  next
    case (Inr batch)
    have "clean_after good holds w db (collect_pages fr ops primary recovery (query, product, page_size) x envs n
      (add_batch batch acc) db1)"
      using clean_after_trans [OF clean _ Suc.IH [OF good1]] Inr by simp
    with clean page Inr show ?thesis
      by (simp add: req_def Let_def clean_after_result [of good holds w db r db1])
  qed
qed

lemma collect_clean:
  assumes good: "good db" and calm: "\<And>n. quiet_page good holds quiet w (envs n)"
  shows "clean_after good holds w db (collect fr ops ex task w envs db)"
proof -
  have pages: "good db1 \<and> (r \<noteq> Inl CancelledError \<longrightarrow> (\<forall>K. own_lease w K \<and> holds db1 K \<longrightarrow> holds db K))"
    if "collect_pages fr ops (ex_primary ex) (ex_recovery ex) q w envs n acc db = (r, db1)" for q n acc r db1
    using pages_clean [OF good, where envs = envs and fr = fr and primary = "ex_primary ex" and recovery = "ex_recovery ex"
        and query = "fst q" and product = "fst (snd q)" and page_size = "snd (snd q)" and x = w and n = n and acc = acc and w = w] calm that
    by (simp add: clean_after_def)
  show ?thesis
    using good by (auto simp: collect_def clean_after_def dest: pages split: sum.splits prod.splits)
qed

end

text \<open>
  C15: A collection leaks no session: unless it is cancelled, whatever the adapters answer, however often it fails over
  and wherever it stops, the leases the worker holds afterwards under its own name, its failover name and its
  recovery name are leases it held before. Other processes may do anything to the pool in the meantime that
  keeps it in order and borrows nothing under these names.
\<close>

theorem collection_returns_sessions:
  assumes "token_inv db" and "\<And>n. quiet_page token_inv checked_out quiet_pool_env w (envs n)"
    and run: "collect fr (token_repo lease_seconds cooldown_seconds) ex task w envs db = (r, db')"
    and "r \<noteq> Inl CancelledError" and "own_lease w K" and "checked_out db' K"
  shows "checked_out db K"
  using token_repository.collect_clean [OF assms(1), where envs = envs and w = w and fr = fr and ex = ex and task = task
      and lease_seconds = lease_seconds and cooldown_seconds = cooldown_seconds] assms(2,4-6) run
  by (simp add: clean_after_def)

text \<open>A cancelled attempt keeps its lease until it expires.\<close>

lemma cancelled_attempt_keeps_lease:
  assumes "token_inv db" and "sa_requires_session adapter" and quiet: "quiet_pool_env v (ae_checkout ae)"
    and co: "so_checkout (token_repo ls cs) (ae_checkout ae) w db = (Inr (Some L), db1)"
    and cancelled: "ae_answer ae adapter req (Some L) = Inl CancelledError" and "ae_others ae = id"
  shows "\<exists>db'. collect_with_session (token_repo ls cs) adapter req w ae db = (Inl CancelledError, db') \<and> checked_out db' L"
  using assms token_repository.checkout_holds [OF assms(1) quiet co]
  by (simp add: collect_with_session_def give_back_def)

section \<open>What a collection reports\<close>

definition page_count :: "pydict \<Rightarrow> int" where
  "page_count entry = (case dict_get entry ''count'' of PInt n \<Rightarrow> n | _ \<Rightarrow> 0)"

definition tagged :: "pydict \<Rightarrow> bool" where
  "tagged item \<longleftrightarrow> map_of item ''_collector_adapter'' \<noteq> None \<and> map_of item ''_collector_adapter_version'' \<noteq> None"

definition accounted :: "collected \<Rightarrow> bool" where
  "accounted acc \<longleftrightarrow> int (length (co_items acc)) = sum_list (map page_count (co_pages acc)) \<and> list_all tagged (co_items acc)"

lemma accounted_empty: "accounted \<lparr>co_items = [], co_pages = [], co_cursor = c\<rparr>"
  by (simp add: accounted_def)

lemma tagged_item: "tagged (tag_item batch item)"
  by (auto simp: tagged_def tag_item_def map_of_setdefault)

lemma accounted_add: "accounted acc \<Longrightarrow> accounted (add_batch batch acc)"
  by (auto simp: accounted_def add_batch_def page_count_def page_entry_def dict_get_def list_all_iff tagged_item)

lemma length_add_batch [simp]: "length (co_pages (add_batch batch acc)) = Suc (length (co_pages acc))"
  by (simp add: add_batch_def)

text \<open>
  A run of the page loop with a budget of \<open>n\<close> pages makes at least one if it may, at most \<open>n\<close>, and fewer only
  when the last page had no cursor.
\<close>

lemma collect_pages_result:
  assumes "collect_pages fr ops primary recovery (query, product, page_size) w envs n acc db = (Inr acc', db')" and "accounted acc"
  shows "accounted acc' \<and> length (co_pages acc') \<le> length (co_pages acc) + n \<and>
    (0 < n \<longrightarrow> length (co_pages acc) < length (co_pages acc')) \<and>
    (truthy (co_cursor acc') \<longrightarrow> length (co_pages acc') = length (co_pages acc) + n)"
  using assms
proof (induction n arbitrary: acc db)
  case (Suc n)
  define req where "req = \<lparr>cr_query = query, cr_product = product,
    cr_cursor = (if truthy (co_cursor acc) then Some (py_str fr (co_cursor acc)) else None), cr_page_size = page_size\<rparr>"
  obtain r db1 where page: "collect_page ops primary recovery req w (envs (length (co_pages acc))) db = (r, db1)"
    by fastforce
  with Suc.prems(1) obtain batch where "r = Inr batch" by (cases r) (simp_all add: req_def)
  with Suc.prems(1) page have run: "if truthy (co_cursor (add_batch batch acc))
      then collect_pages fr ops primary recovery (query, product, page_size) w envs n (add_batch batch acc) db1 = (Inr acc', db')
      else acc' = add_batch batch acc"
    by (simp add: req_def Let_def split: if_splits)
  have more: "accounted (add_batch batch acc)" using accounted_add Suc.prems(2) .
  show ?case
  proof (cases "truthy (co_cursor (add_batch batch acc))")
    case True
    with run Suc.IH [OF _ more, of db1] show ?thesis by auto
  next
    case False
    with run more show ?thesis by auto
  qed
qed simp

section \<open>The executor's plans\<close>

lemma plan_task_Inr:
  "plan_task fr ex task = Inr plan \<Longrightarrow> rt_executor_kind (pl_route plan) = LEGACY_SOURCE_ADAPTER \<and>
     (\<exists>rq. plan_request fr (ex_planner ex) rq = Inr plan)"
  by (auto simp: plan_task_def Let_def and_then_Inr split: sum.splits if_splits)

lemma executor_plan_bounds:
  assumes "make_executor primary recovery ps mp = Inr ex" and "plan_task fr ex task = Inr plan"
  shows "1 \<le> pl_max_pages plan" and "pl_max_pages plan \<le> min mp 10"
    and "1 \<le> pl_page_size plan" and "pl_page_size plan \<le> min ps 20"
    and "\<exists>q. map_of (rq_params (pl_request plan)) ''query'' = Some (PStr q)"
    and "map_of (rq_params (pl_request plan)) ''product'' = Some (PStr ''Latest'')"
proof -
  obtain pn rq where "legacy_search_planner (min ps 20) mp = Inr pn" "plan_request fr pn rq = Inr plan"
    using assms plan_task_Inr [OF assms(2)] by (auto simp: make_executor_def and_then_Inr)
  from legacy_plan_bounds [OF this] show "1 \<le> pl_max_pages plan" "pl_max_pages plan \<le> min mp 10"
    "1 \<le> pl_page_size plan" "pl_page_size plan \<le> min ps 20"
    "\<exists>q. map_of (rq_params (pl_request plan)) ''query'' = Some (PStr q)"
    "map_of (rq_params (pl_request plan)) ''product'' = Some (PStr ''Latest'')"
    by (auto simp: dict_get_def split: option.splits)
qed

text \<open>A planned task is collected by the page loop; nothing else decides the outcome.\<close>

lemma collect_planned:
  assumes "make_executor primary recovery ps mp = Inr ex" and "plan_task fr ex task = Inr plan"
  obtains query where "collect fr ops ex task w envs db =
    (case collect_pages fr ops primary recovery (query, ''Latest'', pl_page_size plan) w envs (nat (pl_max_pages plan))
            \<lparr>co_items = [], co_pages = [], co_cursor = rq_cursor (pl_request plan)\<rparr> db of
       (Inl e, db1) \<Rightarrow> (Inl e, db1)
     | (Inr acc, db1) \<Rightarrow> (Inr (co_items acc, collection_metadata plan query ''Latest'' acc), db1))"
proof -
  have "ex_primary ex = primary" "ex_recovery ex = recovery"
    using assms(1) by (auto simp: make_executor_def and_then_Inr)
  with executor_plan_bounds(5,6) [OF assms] that show thesis
    by (auto simp: collect_def assms(2) required_param_def)
qed

text \<open>
  C33: A collection reports what it did and keeps to its budget: its result lists between one and
  \<open>min collector_max_pages 10\<close> pages, the counts of the pages add up to \<open>items_collected\<close>, which is the number of
  items returned, every item names the adapter and the version that delivered it, and a cursor is left over
  only if the whole budget of the plan was used. This holds for any session pool and any adapters.
\<close>

theorem collection_reports_its_pages:
  assumes ex: "make_executor primary recovery ps mp = Inr ex"
    and run: "collect fr ops ex task w envs db = (Inr (items, meta), db')"
  shows "\<exists>plan entries. plan_task fr ex task = Inr plan \<and> dict_get meta ''adapters'' = PList (map PDict entries) \<and>
    dict_get meta ''pages'' = PInt (int (length entries)) \<and> 1 \<le> length entries \<and>
    int (length entries) \<le> min mp 10 \<and> dict_get meta ''items_collected'' = PInt (int (length items)) \<and>
    sum_list (map page_count entries) = int (length items) \<and> list_all tagged items \<and>
    (truthy (dict_get meta ''next_cursor'') \<longrightarrow> int (length entries) = pl_max_pages plan)"
proof -
  obtain plan where plan: "plan_task fr ex task = Inr plan"
    using run by (auto simp: collect_def split: sum.splits)
  note bounds = executor_plan_bounds(1,2) [OF ex plan]
  obtain query where eq: "collect fr ops ex task w envs db =
    (case collect_pages fr ops primary recovery (query, ''Latest'', pl_page_size plan) w envs (nat (pl_max_pages plan))
            \<lparr>co_items = [], co_pages = [], co_cursor = rq_cursor (pl_request plan)\<rparr> db of
       (Inl e, db1) \<Rightarrow> (Inl e, db1)
     | (Inr acc, db1) \<Rightarrow> (Inr (co_items acc, collection_metadata plan query ''Latest'' acc), db1))"
    by (rule collect_planned [OF ex plan])
  with run obtain acc where pages: "collect_pages fr ops primary recovery (query, ''Latest'', pl_page_size plan) w envs
      (nat (pl_max_pages plan)) \<lparr>co_items = [], co_pages = [], co_cursor = rq_cursor (pl_request plan)\<rparr> db = (Inr acc, db')"
    and out: "items = co_items acc" "meta = collection_metadata plan query ''Latest'' acc"
    by (auto split: prod.splits sum.splits)
  from collect_pages_result [OF pages accounted_empty] bounds
  have "accounted acc" "1 \<le> length (co_pages acc)" "int (length (co_pages acc)) \<le> min mp 10"
    "truthy (co_cursor acc) \<longrightarrow> int (length (co_pages acc)) = pl_max_pages plan"
    by (auto simp: Suc_le_eq)
  moreover have "dict_get meta ''adapters'' = PList (map PDict (co_pages acc))"
    "dict_get meta ''pages'' = PInt (int (length (co_pages acc)))"
    "dict_get meta ''items_collected'' = PInt (int (length (co_items acc)))"
    "dict_get meta ''next_cursor'' = co_cursor acc"
    by (simp_all add: out(2) collection_metadata_def dict_get_def)
  ultimately show ?thesis using plan out(1) by (auto simp: accounted_def)
qed

section \<open>A sample collection\<close>

definition sample_adapter :: source_adapter where
  "sample_adapter = \<lparr>sa_name = ''twikit'', sa_version = ''2'', sa_requires_session = True\<rparr>"

definition sample_batch :: collection_batch where
  "sample_batch = \<lparr>cb_items = [[(''original_tweet_id'', PStr ''1'')]], cb_next_cursor = PNone,
     cb_adapter_name = ''twikit'', cb_adapter_version = ''2'', cb_metadata = []\<rparr>"

definition sample_attempt :: "(pool_env, tdb) attempt_env" where
  "sample_attempt =
     \<lparr>ae_checkout = \<lparr>pe_locked = [], pe_deleted = id, pe_selected = id, pe_start = 10, pe_end = 10\<rparr>, ae_others = id,
      ae_answer = (\<lambda>_ _ _. Inr sample_batch),
      ae_back = \<lparr>pe_locked = [], pe_deleted = id, pe_selected = id, pe_start = 20, pe_end = 20\<rparr>\<rparr>"

definition sample_page :: "nat \<Rightarrow> (pool_env, tdb) page_env" where
  "sample_page n = \<lparr>pg_first = sample_attempt, pg_failover = sample_attempt, pg_recovery = sample_attempt\<rparr>"

definition sample_search_task :: task_lease where
  "sample_search_task = \<lparr>l_id = 7, l_task_type = LEGACY_SEARCH_TASK_TYPE, l_payload = [(''search_keyword'', PStr ''bitcoin'')],
     l_attempts = 0, l_max_attempts = 5, l_generation = 0, l_owner = ''worker-1'', l_expires_at = 100\<rparr>"

lemma sample_quiet: "quiet_page good holds quiet_pool_env w (sample_page n)"
  by (simp add: quiet_pool_env_def quiet_page_def quiet_attempt_def sample_page_def sample_attempt_def)

lemma sample_first_page:
  "\<exists>db'. \<forall>req n. collect_page (token_repo 90 300) sample_adapter None req ''worker-1'' (sample_page n) sample_tdb
    = (Inr sample_batch, db')"
proof -
  obtain L db1 where co: "checkout_token ''worker-1'' 90 [] id id 10 sample_tdb = (Inr (Some L), db1)"
    using sample_checkout by blast
  have "collect_with_session (token_repo 90 300) sample_adapter req ''worker-1'' sample_attempt sample_tdb
    = (Inr sample_batch, record_success L 20 db1)" for req
    by (simp add: collect_with_session_def sample_adapter_def sample_attempt_def token_repo_def co Let_def give_back_def)
  then show ?thesis by (simp add: collect_page_def sample_page_def)
qed

text \<open>A keyword task is planned by every executor whose page limit the contract allows.\<close>

lemma keyword_plan:
  assumes ex: "make_executor primary recovery ps mp = Inr ex" "mp \<le> 10"
    and task: "l_task_type L = LEGACY_SEARCH_TASK_TYPE" "l_payload L = [(''search_keyword'', PStr kw)]" "strip kw \<noteq> []"
  shows "\<exists>plan. plan_task fr ex L = Inr plan \<and> pl_page_size plan = min ps 20 \<and>
    map_of (rq_params (pl_request plan)) ''query'' = Some (PStr (strip kw))"
proof -
  have pn: "legacy_search_planner (min ps 20) mp = Inr (ex_planner ex)" and mp: "ex_max_pages ex = mp"
    using ex by (auto simp: make_executor_def and_then_Inr)
  have "1 \<le> mp" using pn by (simp add: legacy_search_planner_Inr)
  then obtain plan where p: "and_then (request_from_task fr LEGACY_SEARCH_TASK_TYPE
      [(''search_keyword'', PStr kw), (''max_pages'', PInt mp)] (PStr (correlation_of L))) (plan_request fr (ex_planner ex)) = Inr plan"
    and size: "pl_page_size plan = min ps 20" "map_of (rq_params (pl_request plan)) ''query'' = Some (PStr (strip kw))"
    using legacy_task_plan [OF pn, where kw = kw and n = mp and fr = fr and corr = "PStr (correlation_of L)"
        and payload = "[(''search_keyword'', PStr kw), (''max_pages'', PInt mp)]"] task(3) ex(2) by auto
  then obtain rq where "plan_request fr (ex_planner ex) rq = Inr plan" by (auto simp: and_then_Inr)
  from legacy_plan_bounds [OF pn this] p have "plan_task fr ex L = Inr plan"
    by (simp add: plan_task_def task mp dict_setdefault_def)
  with size show ?thesis by blast
qed

lemma keyword_collection:
  assumes task: "l_task_type L = LEGACY_SEARCH_TASK_TYPE" "l_payload L = [(''search_keyword'', PStr ''bitcoin'')]"
  shows "\<exists>ex meta db'. make_executor sample_adapter None 20 2 = Inr ex \<and>
     collect fr (token_repo 90 300) ex L ''worker-1'' sample_page sample_tdb
       = (Inr (map (tag_item sample_batch) (cb_items sample_batch), meta), db')"
proof -
  obtain ex where ex: "make_executor sample_adapter None 20 2 = Inr ex"
    by (auto simp: make_executor_def and_then_Inr legacy_search_planner_Inr)
  have "strip ''bitcoin'' \<noteq> []" by code_simp
  from keyword_plan [OF ex _ task this] obtain plan where plan: "plan_task fr ex L = Inr plan" by auto
  obtain m where pages: "nat (pl_max_pages plan) = Suc m"
    using executor_plan_bounds(1) [OF ex plan] by (cases "nat (pl_max_pages plan)") auto
  obtain query where "collect fr (token_repo 90 300) ex L ''worker-1'' sample_page sample_tdb =
    (case collect_pages fr (token_repo 90 300) sample_adapter None (query, ''Latest'', pl_page_size plan) ''worker-1'' sample_page
            (nat (pl_max_pages plan)) \<lparr>co_items = [], co_pages = [], co_cursor = rq_cursor (pl_request plan)\<rparr> sample_tdb of
       (Inl e, db1) \<Rightarrow> (Inl e, db1)
     | (Inr acc, db1) \<Rightarrow> (Inr (co_items acc, collection_metadata plan query ''Latest'' acc), db1))"
    by (rule collect_planned [OF ex plan])
  moreover obtain db' where "\<forall>req n. collect_page (token_repo 90 300) sample_adapter None req ''worker-1'' (sample_page n)
      sample_tdb = (Inr sample_batch, db')"
    using sample_first_page by blast
  ultimately show ?thesis using ex by (simp add: pages sample_batch_def add_batch_def Let_def)
qed

lemma sample_collection:
  "\<exists>ex items meta db'. make_executor sample_adapter None 20 2 = Inr ex \<and>
     collect fr (token_repo 90 300) ex sample_search_task ''worker-1'' sample_page sample_tdb = (Inr (items, meta), db')"
  using keyword_collection [of sample_search_task fr] by (auto simp: sample_search_task_def)

lemma sample_not_held: "\<not> checked_out sample_tdb K"
  by (simp add: checked_out_def sample_tdb_def seed_tokens_def seed_rows_def upsert_token_def empty_tdb_def)

theorem collection_returns_sessions_witness:
  "\<exists>ex r db'. make_executor sample_adapter None 20 2 = Inr ex \<and>
     collect (\<lambda>_. []) (token_repo 90 300) ex sample_search_task ''worker-1'' sample_page sample_tdb = (r, db') \<and>
     (\<forall>K. own_lease ''worker-1'' K \<longrightarrow> \<not> checked_out db' K)"
proof -
  obtain ex items meta db' where ex: "make_executor sample_adapter None 20 2 = Inr ex"
    and run: "collect (\<lambda>_. []) (token_repo 90 300) ex sample_search_task ''worker-1'' sample_page sample_tdb = (Inr (items, meta), db')"
    using sample_collection by blast
  show ?thesis
    using collection_returns_sessions [OF sample_tdb sample_quiet run] sample_not_held ex run by blast
qed

theorem collection_reports_its_pages_witness:
  "\<exists>ex items meta db'. make_executor sample_adapter None 20 2 = Inr ex \<and>
     collect (\<lambda>_. []) (token_repo 90 300) ex sample_search_task ''worker-1'' sample_page sample_tdb = (Inr (items, meta), db') \<and>
     dict_get meta ''items_collected'' = PInt (int (length items))"
proof -
  obtain ex items meta db' where ex: "make_executor sample_adapter None 20 2 = Inr ex"
    and run: "collect (\<lambda>_. []) (token_repo 90 300) ex sample_search_task ''worker-1'' sample_page sample_tdb = (Inr (items, meta), db')"
    using sample_collection by blast
  show ?thesis using collection_reports_its_pages [OF ex run] ex run by blast
qed

end
