(* ===== verification/TextModel.thy ===== *)
theory TextModel
  imports PyScalar
begin

text \<open>
  The text functions of \<open>analytics_parser.py\<close>: the three normalisers of a document, the keywords of a
  text and the text that is hashed. Characters are Latin-1; the fold of the micro sign, whose image lies
  outside, is the sign itself. The two regular expressions are written as the scans that Python's
  backtracking matcher makes; SHA-256 is a parameter.
\<close>

section \<open>Character classes and case folding\<close>

definition is_alnum :: "char \<Rightarrow> bool" where
  "is_alnum c = (let n = (of_char c :: nat) in
     (48 \<le> n \<and> n \<le> 57) \<or> (65 \<le> n \<and> n \<le> 90) \<or> (97 \<le> n \<and> n \<le> 122) \<or>
     n \<in> {170, 178, 179, 181, 185, 186, 188, 189, 190} \<or> (192 \<le> n \<and> n \<noteq> 215 \<and> n \<noteq> 247))"

definition is_word :: "char \<Rightarrow> bool" where
  "is_word c \<longleftrightarrow> is_alnum c \<or> c = CHR ''_''"

definition fold_char :: "char \<Rightarrow> string" where
  "fold_char c = (let n = (of_char c :: nat) in
     if (65 \<le> n \<and> n \<le> 90) \<or> (192 \<le> n \<and> n \<le> 222 \<and> n \<noteq> 215) then [char_of (n + 32)]
     else if n = 223 then ''ss'' else [c])"

definition casefold :: "string \<Rightarrow> string" where
  "casefold s = concat (map fold_char s)"

section \<open>extract\_keywords\<close>

text \<open>
  \<open>re.findall\<close> of a boundary, 2 to 50 word characters other than the underscore, and a boundary. At a
  position the matcher first needs a boundary between the character before (\<open>prev\<close> says whether it is
  a word character) and the next one; it then takes as many characters as it can and gives them back one
  by one until there is a boundary behind them.
\<close>

definition starts_word :: "string \<Rightarrow> bool" where
  "starts_word s = (case s of [] \<Rightarrow> False | c # _ \<Rightarrow> is_word c)"

definition token_run :: "string \<Rightarrow> nat" where
  "token_run s = length (takeWhile is_alnum (take 50 s))"

definition ends_token :: "string \<Rightarrow> nat \<Rightarrow> bool" where
  "ends_token s k \<longleftrightarrow> \<not> starts_word (drop k s)"

definition token_match :: "bool \<Rightarrow> string \<Rightarrow> nat option" where
  "token_match prev s =
     (if prev = starts_word s then None
      else find (ends_token s) (rev [2..<Suc (token_run s)]))"

lemma find_SomeD: "find P xs = Some k \<Longrightarrow> k \<in> set xs \<and> P k"
  by (induction xs) (auto split: if_splits)

lemma token_run_le: "token_run s \<le> length s"
  unfolding token_run_def by (metis length_take length_takeWhile_le le_trans min.cobounded1)

lemma token_match_SomeD:
  "token_match prev s = Some k \<Longrightarrow> prev \<noteq> starts_word s \<and> 2 \<le> k \<and> k \<le> token_run s \<and> ends_token s k"
  by (auto simp: token_match_def dest!: find_SomeD split: if_splits)

lemma token_match_pos: "token_match prev s = Some k \<Longrightarrow> 2 \<le> k \<and> k \<le> length s"
  using token_match_SomeD [of prev s k] token_run_le [of s] by linarith

function find_tokens :: "bool \<Rightarrow> string \<Rightarrow> string list" where
  "find_tokens prev s = (case token_match prev s of
     Some k \<Rightarrow> take k s # find_tokens True (drop k s)
   | None \<Rightarrow> (case s of [] \<Rightarrow> [] | c # t \<Rightarrow> find_tokens (is_word c) t))"
  by pat_completeness auto
termination
  by (relation "measure (length \<circ> snd)") (use token_match_pos in \<open>fastforce+\<close>)

declare find_tokens.simps [simp del]

definition STOP_WORDS :: "string list" where
  "STOP_WORDS = [''this'', ''that'', ''with'', ''from'', ''they'', ''have'', ''your'', ''their'', ''about'']"

definition is_keyword :: "string \<Rightarrow> bool" where
  "is_keyword t \<longleftrightarrow> t \<notin> set STOP_WORDS \<and> \<not> list_all is_digit t"

text \<open>The set of keywords, as its sorted list.\<close>

definition extract_keywords :: "string \<Rightarrow> string list" where
  "extract_keywords text = sort (remdups (filter is_keyword (find_tokens False (casefold text))))"

section \<open>compute\_clean\_text\_hash\<close>

text \<open>What is left behind a match of \<open>https?://\S+|@\S+\<close> at the start of the text.\<close>

definition after_nonspace :: "string \<Rightarrow> string option" where
  "after_nonspace s = (case s of [] \<Rightarrow> None
     | c # t \<Rightarrow> if is_space c then None else Some (dropWhile (\<lambda>d. \<not> is_space d) t))"

definition match_behind :: "string \<Rightarrow> string \<Rightarrow> string option" where
  "match_behind p s = (if take (length p) s = p then after_nonspace (drop (length p) s) else None)"

definition link_rest :: "string \<Rightarrow> string option" where
  "link_rest s = (case match_behind ''https://'' s of Some r \<Rightarrow> Some r
     | None \<Rightarrow> (case match_behind ''http://'' s of Some r \<Rightarrow> Some r | None \<Rightarrow> match_behind ''@'' s))"

lemma after_nonspace_length: "after_nonspace s = Some r \<Longrightarrow> length r < length s"
  by (auto simp: after_nonspace_def length_dropWhile_le less_Suc_eq_le split: list.splits if_splits)

lemma match_behind_length: "match_behind p s = Some r \<Longrightarrow> length r < length s"
  by (fastforce simp: match_behind_def dest: after_nonspace_length split: if_splits)

lemma link_rest_length: "link_rest s = Some r \<Longrightarrow> length r < length s"
  by (auto simp: link_rest_def dest: match_behind_length split: option.splits)

function drop_links :: "string \<Rightarrow> string" where
  "drop_links s = (case link_rest s of
     Some r \<Rightarrow> drop_links r
   | None \<Rightarrow> (case s of [] \<Rightarrow> [] | c # t \<Rightarrow> c # drop_links t))"
  by pat_completeness auto
termination
  by (relation "measure length") (auto dest: link_rest_length)

declare drop_links.simps [simp del]

definition clean_text :: "string \<Rightarrow> string" where
  "clean_text text =
     (let clean = filter is_alnum (drop_links (casefold text))
      in if clean = [] then strip (casefold text) else clean)"

definition compute_clean_text_hash :: "(string \<Rightarrow> string) \<Rightarrow> string \<Rightarrow> string" where
  "compute_clean_text_hash sha256 text = sha256 (clean_text text)"

section \<open>The normalisers\<close>

text \<open>\<open>s.split()\<close>.\<close>

function split_words :: "string \<Rightarrow> string list" where
  "split_words s = (case dropWhile is_space s of [] \<Rightarrow> []
     | c # t \<Rightarrow> (c # takeWhile (\<lambda>d. \<not> is_space d) t) # split_words (dropWhile (\<lambda>d. \<not> is_space d) t))"
  by pat_completeness auto
termination
proof (relation "measure length")
  fix s t :: string and c
  assume "dropWhile is_space s = c # t"
  then have "length t < length s" by (metis length_Cons length_dropWhile_le Suc_le_eq)
  then show "(dropWhile (\<lambda>d. \<not> is_space d) t, s) \<in> measure length"
    using le_less_trans [OF length_dropWhile_le] by simp
qed simp

declare split_words.simps [simp del]

definition TEXT_PREFIXES :: "string list" where
  "TEXT_PREFIXES = [''RT @'', ''Source:'', ''Metadata:'', ''Tags:'', ''Posted via'']"

definition drop_prefix :: "string \<Rightarrow> string \<Rightarrow> string" where
  "drop_prefix p text = (if take (length p) text = p then strip (drop (length p) text) else text)"

definition none_or_str :: "(rat \<Rightarrow> string) \<Rightarrow> pyval \<Rightarrow> string" where
  "none_or_str fr v = (if v = PNone then [] else py_str fr v)"

definition normalize_text_content :: "(rat \<Rightarrow> string) \<Rightarrow> pyval \<Rightarrow> string" where
  "normalize_text_content fr v =
     (let text = map (\<lambda>c. if c = CHR 0xA0 then CHR '' '' else c) (none_or_str fr v)
      in fold drop_prefix TEXT_PREFIXES (join '' '' (split_words text)))"

definition normalize_author_handle :: "(rat \<Rightarrow> string) \<Rightarrow> pyval \<Rightarrow> string" where
  "normalize_author_handle fr v =
     (let handle = strip (none_or_str fr v) in if take 1 handle = ''@'' then tl handle else handle)"

text \<open>\<open>upper()\<close>, as far as it decides membership in the four labels.\<close>

definition upper_char :: "char \<Rightarrow> char" where
  "upper_char c = (let n = (of_char c :: nat) in if 97 \<le> n \<and> n \<le> 122 then char_of (n - 32) else c)"

definition SENTIMENT_LABELS :: "string list" where
  "SENTIMENT_LABELS = [''PENDING'', ''POSITIVE'', ''NEGATIVE'', ''NEUTRAL'']"

definition normalize_sentiment_label :: "(rat \<Rightarrow> string) \<Rightarrow> pyval \<Rightarrow> exc + string" where
  "normalize_sentiment_label fr v =
     (let label = (if v = PNone then ''PENDING'' else map upper_char (strip (py_str fr v)))
      in if label \<in> set SENTIMENT_LABELS then Inr label
         else Inl (ValueError ''sentiment_label must be one of PENDING, POSITIVE, NEGATIVE, NEUTRAL''))"

text \<open>Samples.\<close>

lemma text_samples:
  "find_tokens False ''a_b cd x y1 ab_ http://x.com'' = [''cd'', ''y1'', ''http'', ''com'']"
  "drop_links ''ahttps://x y http:// z @ w @q end'' = ''a y http:// z @ w  end''"
  "normalize_text_content (\<lambda>_. []) (PStr ''  RT @ Source:  hello   world '') = ''hello world''"
  by code_simp+

end
