(* ===== verification/TextProps.thy ===== *)
theory TextProps
  imports TextModel "HOL-Library.Sublist"
begin

text \<open>
  The keyword scan finds exactly the maximal runs of word characters that the expression describes, and the
  normalisers leave text without stray white space.
\<close>

section \<open>Keywords\<close>

text \<open>The reference: cut the text into its maximal runs of word characters, keep the ones that qualify.\<close>

function word_runs :: "string \<Rightarrow> string list" where
  "word_runs s = (case dropWhile (\<lambda>c. \<not> is_word c) s of [] \<Rightarrow> []
     | c # t \<Rightarrow> (c # takeWhile is_word t) # word_runs (dropWhile is_word t))"
  by pat_completeness auto
termination
proof (relation "measure length")
  fix s t :: string and c
  assume "dropWhile (\<lambda>c. \<not> is_word c) s = c # t"
  then have "length t < length s" by (metis length_Cons length_dropWhile_le Suc_le_eq)
  then show "(dropWhile is_word t, s) \<in> measure length"
    using le_less_trans [OF length_dropWhile_le] by simp
qed simp

declare word_runs.simps [simp del]

definition good_token :: "string \<Rightarrow> bool" where
  "good_token r \<longleftrightarrow> list_all is_alnum r \<and> 2 \<le> length r \<and> length r \<le> 50"

lemma alnum_word: "is_alnum c \<Longrightarrow> is_word c"
  by (simp add: is_word_def)

lemma find_tokens_Nil [simp]: "find_tokens prev [] = []"
  by (subst find_tokens.simps) (simp add: token_match_def token_run_def)

lemma find_tokens_same: "prev = starts_word (c # t) \<Longrightarrow> find_tokens prev (c # t) = find_tokens prev t"
  by (subst find_tokens.simps) (simp add: token_match_def starts_word_def)

lemma find_tokens_nonword: "\<not> is_word c \<Longrightarrow> find_tokens prev (c # t) = find_tokens False t"
proof -
  assume c: "\<not> is_word c"
  then have "token_run (c # t) = 0" using alnum_word by (auto simp: token_run_def)
  with c show ?thesis by (subst find_tokens.simps) (simp add: token_match_def)
qed

text \<open>Behind a word character the scan skips the rest of the run.\<close>

lemma find_tokens_inside: "find_tokens True s = find_tokens False (dropWhile is_word s)"
proof (induction s)
  case (Cons c t)
  then show ?case
    by (cases "is_word c") (simp_all add: find_tokens_same starts_word_def find_tokens_nonword)
qed simp

text \<open>At the start of a run the match is the whole run or nothing.\<close>

lemma ends_token_run:
  assumes "k \<le> length (takeWhile is_word s)"
  shows "ends_token s k \<longleftrightarrow> k = length (takeWhile is_word s)"
proof (cases "k = length (takeWhile is_word s)")
  case True
  have "drop k s = dropWhile is_word s" by (simp add: True dropWhile_eq_drop)
  then show ?thesis using True hd_dropWhile [of is_word s]
    by (cases "dropWhile is_word s") (auto simp: ends_token_def starts_word_def)
next
  case False
  with assms have k: "k < length (takeWhile is_word s)" by simp
  have len: "length (takeWhile is_word s) \<le> length s" by (rule length_takeWhile_le)
  have "is_word (s ! k)" using k by (metis nth_mem set_takeWhileD takeWhile_nth)
  moreover have "drop k s = s ! k # drop (Suc k) s" using k len by (simp add: Cons_nth_drop_Suc)
  ultimately show ?thesis using False by (simp add: ends_token_def starts_word_def)
qed

lemma token_run_bound: "token_run s \<le> length (takeWhile is_word s)"
proof -
  let ?p = "takeWhile is_alnum (take 50 s)"
  have "prefix ?p s" by (meson prefix_order.trans take_is_prefix takeWhile_is_prefix)
  then obtain z where s: "s = ?p @ z" by (auto simp: prefix_def)
  have "\<forall>c\<in>set ?p. is_word c" by (auto simp: alnum_word dest: set_takeWhileD)
  then have "takeWhile is_word (?p @ z) = ?p @ takeWhile is_word z" by simp
  then have "length ?p \<le> length (takeWhile is_word (?p @ z))" by simp
  then show ?thesis using s unfolding token_run_def by metis
qed

lemma token_run_full: "length (takeWhile is_word s) \<le> token_run s \<longleftrightarrow>
    list_all is_alnum (takeWhile is_word s) \<and> length (takeWhile is_word s) \<le> 50"
proof
  let ?r = "takeWhile is_word s"
  assume le: "length ?r \<le> token_run s"
  have run: "prefix (takeWhile is_alnum (take 50 s)) s"
    by (meson prefix_order.trans take_is_prefix takeWhile_is_prefix)
  have "prefix ?r (takeWhile is_alnum (take 50 s))"
    by (rule prefix_length_prefix [OF takeWhile_is_prefix run]) (use le in \<open>simp add: token_run_def\<close>)
  then have "list_all is_alnum ?r"
    by (auto simp: list_all_iff dest: set_mono_prefix set_takeWhileD)
  moreover have "token_run s \<le> 50"
    using length_takeWhile_le [of is_alnum "take 50 s"] by (simp add: token_run_def)
  ultimately show "list_all is_alnum ?r \<and> length ?r \<le> 50" using le by simp
next
  let ?r = "takeWhile is_word s"
  assume r: "list_all is_alnum ?r \<and> length ?r \<le> 50"
  have "prefix ?r (take 50 s)"
    by (rule prefix_length_prefix [OF takeWhile_is_prefix take_is_prefix])
      (use r length_takeWhile_le [of is_word s] in simp)
  then obtain z where "take 50 s = ?r @ z" by (auto simp: prefix_def)
  then have "takeWhile is_alnum (take 50 s) = ?r @ takeWhile is_alnum z"
    using r by (simp add: list_all_iff)
  then show "length ?r \<le> token_run s" by (simp add: token_run_def)
qed

lemma token_match_start:
  assumes "starts_word s"
  shows "token_match False s = (if good_token (takeWhile is_word s) then Some (length (takeWhile is_word s)) else None)"
proof -
  let ?r = "takeWhile is_word s"
  have ends: "k \<in> set (rev [2..<Suc (token_run s)]) \<Longrightarrow> ends_token s k \<longleftrightarrow> k = length ?r" for k
    using ends_token_run token_run_bound [of s] by auto
  have only: "length ?r \<in> set (rev [2..<Suc (token_run s)]) \<longleftrightarrow> good_token ?r"
    using token_run_full [of s] token_run_bound [of s] by (auto simp: good_token_def)
  show ?thesis
  proof (cases "token_match False s")
    case None
    then have "\<forall>k\<in>set (rev [2..<Suc (token_run s)]). \<not> ends_token s k"
      using assms by (auto simp: token_match_def find_None_iff simp del: upt_Suc)
    with None only ends show ?thesis by auto
  next
    case (Some k)
    then have "k \<in> set (rev [2..<Suc (token_run s)])" "ends_token s k"
      using token_match_SomeD [of False s k] by auto
    with Some only ends show ?thesis by auto
  qed
qed

theorem find_tokens_word_runs: "find_tokens False s = filter good_token (word_runs s)"
proof (induction s rule: length_induct)
  case (1 s)
  show ?case
  proof (cases s)
    case Nil
    then show ?thesis by (simp add: word_runs.simps)
  next
    case (Cons c t)
    show ?thesis
    proof (cases "is_word c")
      case False
      then have "word_runs s = word_runs t"
        using Cons by (subst word_runs.simps [of s], subst word_runs.simps [of t]) simp
      then show ?thesis using 1 Cons False by (simp add: find_tokens_nonword)
    next
      case True
      let ?r = "takeWhile is_word s" and ?rest = "dropWhile is_word s"
      have runs: "word_runs s = ?r # word_runs ?rest" using True Cons by (subst word_runs.simps) simp
      have "length ?rest < length s" using True Cons by (simp add: length_dropWhile_le less_Suc_eq_le)
      with 1 have IH: "find_tokens False ?rest = filter good_token (word_runs ?rest)" by blast
      have start: "starts_word s" using True Cons by (simp add: starts_word_def)
      show ?thesis
      proof (cases "good_token ?r")
        case good: True
        have "take (length ?r) s = ?r" by (metis takeWhile_eq_take)
        moreover have "drop (length ?r) s = ?rest" by (simp add: dropWhile_eq_drop)
        moreover have "dropWhile is_word ?rest = ?rest" by (induction s) auto
        ultimately show ?thesis
          using token_match_start [OF start] good IH
          by (subst find_tokens.simps) (simp add: runs find_tokens_inside)
      next
        case bad: False
        have "find_tokens False s = find_tokens True t"
          using token_match_start [OF start] bad True Cons by (subst find_tokens.simps) simp
        with IH bad True Cons show ?thesis unfolding runs by (simp add: find_tokens_inside)
      qed
    qed
  qed
qed

text \<open>
  C20: The keyword scan is right: what \<open>extract_keywords\<close> finds by trying matches of its regular expression position
  by position, with the matcher's backtracking, is the sorted list, without duplicates, of the maximal runs of
  word characters of the folded text that have 2 to 50 characters, none of them an underscore, and are neither
  stop words nor numbers.
\<close>

theorem keywords_are_word_runs:
  "extract_keywords text = sort (remdups (filter is_keyword (filter good_token (word_runs (casefold text)))))"
  by (simp add: extract_keywords_def find_tokens_word_runs)

lemma extract_keywords_sorted [simp]: "sorted (extract_keywords text)" "distinct (extract_keywords text)"
  by (simp_all add: extract_keywords_def)

lemma extract_keywords_length: "w \<in> set (extract_keywords text) \<Longrightarrow> 2 \<le> length w \<and> length w \<le> 50"
  by (auto simp: extract_keywords_def find_tokens_word_runs good_token_def)

section \<open>White space\<close>

definition apart :: "char \<Rightarrow> char \<Rightarrow> bool" where
  "apart a b \<longleftrightarrow> \<not> (is_space a \<and> is_space b)"

definition single_spaced :: "string \<Rightarrow> bool" where
  "single_spaced t \<longleftrightarrow> list_all (\<lambda>c. is_space c \<longrightarrow> c = CHR '' '') t \<and>
     successively apart t \<and> strip t = t"

lemma strip_sublist: "\<exists>a b. s = a @ strip s @ b"
proof -
  let ?m = "dropWhile is_space s"
  have "s = takeWhile is_space s @ ?m" by simp
  moreover have "rev (rev ?m) = rev (dropWhile is_space (rev ?m)) @ rev (takeWhile is_space (rev ?m))"
    by (metis rev_append takeWhile_dropWhile_id)
  ultimately show ?thesis unfolding strip_def by (metis rev_rev_ident)
qed

lemma strip_drop_spaced:
  assumes "single_spaced t"
  shows "single_spaced (strip (drop n t))"
proof -
  obtain a b where "drop n t = a @ strip (drop n t) @ b" using strip_sublist by blast
  then obtain p z where z: "z = strip (drop n t)" and t: "t = p @ z @ b"
    by (metis append.assoc append_take_drop_id)
  have "list_all (\<lambda>c. is_space c \<longrightarrow> c = CHR '' '') t" "successively apart t"
    using assms by (simp_all add: single_spaced_def)
  then have "list_all (\<lambda>c. is_space c \<longrightarrow> c = CHR '' '') (p @ z @ b)" "successively apart (p @ z @ b)"
    by (simp_all only: t [symmetric])
  then have "list_all (\<lambda>c. is_space c \<longrightarrow> c = CHR '' '') z" "successively apart z"
    by (simp_all add: successively_append_iff)
  moreover have "strip z = z" by (simp add: z)
  ultimately have "single_spaced z" by (simp add: single_spaced_def)
  then show ?thesis by (simp only: z)
qed

lemma drop_prefixes_spaced: "single_spaced t \<Longrightarrow> single_spaced (fold drop_prefix ps t)"
  by (induction ps arbitrary: t) (simp_all add: drop_prefix_def strip_drop_spaced)

lemma split_words_words:
  "w \<in> set (split_words s) \<Longrightarrow> w \<noteq> [] \<and> (\<forall>c\<in>set w. \<not> is_space c)"
proof (induction s rule: split_words.induct)
  case (1 s)
  show ?case
  proof (cases "dropWhile is_space s")
    case Nil
    with 1 show ?thesis by (simp add: split_words.simps [of s])
  next
    case (Cons c t)
    then have "\<not> is_space c" using hd_dropWhile [of is_space s] by simp
    have "split_words s = (c # takeWhile (\<lambda>d. \<not> is_space d) t) # split_words (dropWhile (\<lambda>d. \<not> is_space d) t)"
      by (subst split_words.simps) (simp add: Cons)
    then consider "w = c # takeWhile (\<lambda>d. \<not> is_space d) t" | "w \<in> set (split_words (dropWhile (\<lambda>d. \<not> is_space d) t))"
      using "1.prems" by auto
    then show ?thesis
    proof cases
      case 1
      with \<open>\<not> is_space c\<close> show ?thesis by (metis list.distinct(1) set_ConsD set_takeWhileD)
    next
      case 2
      then show ?thesis by (rule "1.IH" [OF Cons])
    qed
  qed
qed

lemma strip_id:
  assumes "t \<noteq> []" and "\<not> is_space (hd t)" and "\<not> is_space (last t)"
  shows "strip t = t"
proof -
  have "dropWhile is_space t = t" using assms by (cases t) auto
  moreover have "dropWhile is_space (rev t) = rev t" using assms by (cases t rule: rev_cases) auto
  ultimately show ?thesis by (simp add: strip_def)
qed

lemma join_words_spaced:
  assumes "\<forall>w\<in>set ws. w \<noteq> [] \<and> (\<forall>c\<in>set w. \<not> is_space c)"
  shows "single_spaced (join '' '' ws)"
proof -
  have word: "successively apart w" if "\<forall>c\<in>set w. \<not> is_space c" for w
    using that by (induction w rule: induct_list012) (auto simp: apart_def)
  have blank: "is_space (CHR '' '')" by code_simp
  have "successively apart (join '' '' ws) \<and> list_all (\<lambda>c. is_space c \<longrightarrow> c = CHR '' '') (join '' '' ws) \<and>
    (ws \<noteq> [] \<longrightarrow> join '' '' ws \<noteq> [] \<and> \<not> is_space (hd (join '' '' ws)) \<and> \<not> is_space (last (join '' '' ws)))"
    using assms
  proof (induction ws rule: induct_list012)
    case (2 w)
    then have w: "w \<noteq> []" "\<forall>c\<in>set w. \<not> is_space c" by simp_all
    then show ?case using word [OF w(2)] by (simp add: list_all_iff)
  next
    case (3 w v ws)
    then have w: "w \<noteq> []" "\<forall>c\<in>set w. \<not> is_space c" by simp_all
    let ?j = "join '' '' (v # ws)"
    have j: "successively apart ?j" "list_all (\<lambda>c. is_space c \<longrightarrow> c = CHR '' '') ?j" "?j \<noteq> []"
      "\<not> is_space (hd ?j)" "\<not> is_space (last ?j)"
      using 3 by simp_all
    have "join '' '' (w # v # ws) = w @ CHR '' '' # ?j" by simp
    moreover have "successively apart (w @ CHR '' '' # ?j)"
      using word [OF w(2)] w j by (simp add: successively_append_iff successively_Cons apart_def)
    ultimately show ?case using w j by (auto simp add: list_all_iff simp del: join.simps)
  qed simp
  then show ?thesis using strip_id by (cases ws) (auto simp: single_spaced_def strip_def)
qed

text \<open>
  The text a document stores has no stray white space, whatever value the collector delivered: every white
  space character in it is a single blank between two others, and a handle has no white space around it.
\<close>

theorem normalized_text_single_spaced:
  "single_spaced (normalize_text_content fr v) \<and>
   (\<exists>h. strip h = h \<and> (normalize_author_handle fr v = h \<or> h = CHR ''@'' # normalize_author_handle fr v))"
proof -
  have "single_spaced (normalize_text_content fr v)"
    unfolding normalize_text_content_def Let_def
    by (intro drop_prefixes_spaced join_words_spaced ballI split_words_words)
  moreover have "strip (strip (none_or_str fr v)) = strip (none_or_str fr v)" by simp
  ultimately show ?thesis
    by (cases "strip (none_or_str fr v)") (auto simp: normalize_author_handle_def Let_def)
qed

end
