(* ===== verification/Feed.thy ===== *)
theory Feed
  imports TextModel Schema "HOL-Library.Product_Lexorder"
begin

text \<open>
  \<open>analytics_parser.py\<close> and its users: the validation of a collected item, the canonical row per source
  object with its observations and keyword contributions, the hourly rollups rebuilt from them, and the
  loop of \<open>worker.py\<close> that stores a batch. Readers and writers of the same tables follow: the alert scan
  of \<open>analytics_alerts.py\<close> and the retention of \<open>db_cleanup.py\<close>.
\<close>

section \<open>Documents\<close>

record document =
  d_platform :: string
  d_tweet_id :: string
  d_author_id :: string
  d_author_handle :: string
  d_text :: string
  d_likes :: int
  d_retweets :: int
  d_label :: string
  d_conversation_id :: "string option"
  d_source_created_at :: "time option"
  d_captured_at :: "time option"

text \<open>
  pydantic's conversions of a value to the type of a field (None is a validation error) are parameters; the
  field table, its defaults, constraints and validators are the program's. A validator in mode \<open>before\<close> sees
  the value first and does not run on a default; unknown fields are ignored.
\<close>

record pydantic =
  to_string :: "pyval \<Rightarrow> string option"
  to_integer :: "pyval \<Rightarrow> int option"
  to_datetime :: "pyval \<Rightarrow> time option"

definition sized :: "nat \<Rightarrow> nat option \<Rightarrow> string \<Rightarrow> string option" where
  "sized lo hi s = (if lo \<le> length s \<and> (case hi of None \<Rightarrow> True | Some h \<Rightarrow> length s \<le> h) then Some s else None)"

definition string_field :: "pydantic \<Rightarrow> pydict \<Rightarrow> string \<Rightarrow> nat \<Rightarrow> nat \<Rightarrow> string option \<Rightarrow> string option" where
  "string_field py item name lo hi dflt = (case map_of item name of
     None \<Rightarrow> dflt
   | Some v \<Rightarrow> Option.bind (to_string py v) (sized lo (Some hi)))"

definition count_field :: "pydantic \<Rightarrow> pydict \<Rightarrow> string \<Rightarrow> int option" where
  "count_field py item name = (case map_of item name of
     None \<Rightarrow> Some 0
   | Some v \<Rightarrow> Option.bind (to_integer py v) (\<lambda>i. if 0 \<le> i then Some i else None))"

text \<open>An optional field: missing or null is None, otherwise the value must convert.\<close>

definition optional_field :: "pydict \<Rightarrow> string \<Rightarrow> (pyval \<Rightarrow> 'a option) \<Rightarrow> 'a option option" where
  "optional_field item name conv = (case map_of item name of
     None \<Rightarrow> Some None
   | Some PNone \<Rightarrow> Some None
   | Some v \<Rightarrow> map_option Some (conv v))"

definition text_field :: "(rat \<Rightarrow> string) \<Rightarrow> pydict \<Rightarrow> string option" where
  "text_field fr item = Option.bind (map_of item ''text_content'') (\<lambda>v. sized 1 None (normalize_text_content fr v))"

definition handle_field :: "(rat \<Rightarrow> string) \<Rightarrow> pydict \<Rightarrow> string option" where
  "handle_field fr item = Option.bind (map_of item ''author_handle'') (\<lambda>v. sized 1 (Some 100) (normalize_author_handle fr v))"

definition label_field :: "(rat \<Rightarrow> string) \<Rightarrow> pydict \<Rightarrow> string option" where
  "label_field fr item = (case map_of item ''sentiment_label'' of
     None \<Rightarrow> Some ''PENDING''
   | Some v \<Rightarrow> (case normalize_sentiment_label fr v of Inl _ \<Rightarrow> None | Inr l \<Rightarrow> Some l))"

text \<open>\<open>SocialMediaDocument(**item)\<close>; None is a \<open>ValidationError\<close>.\<close>

definition make_document :: "pydantic \<Rightarrow> (rat \<Rightarrow> string) \<Rightarrow> pydict \<Rightarrow> document option" where
  "make_document py fr item =
     (case (string_field py item ''platform'' 1 32 (Some ''x''), string_field py item ''original_tweet_id'' 1 64 None,
            string_field py item ''author_id'' 1 128 None, handle_field fr item, text_field fr item) of
        (Some platform, Some tweet_id, Some author_id, Some handle, Some text) \<Rightarrow>
          (case (count_field py item ''engagement_likes'', count_field py item ''engagement_retweets'', label_field fr item,
                 optional_field item ''conversation_id'' (\<lambda>v. Option.bind (to_string py v) (sized 0 (Some 128)))) of
             (Some likes, Some retweets, Some label, Some conversation) \<Rightarrow>
               (case (optional_field item ''source_created_at'' (to_datetime py), optional_field item ''captured_at'' (to_datetime py),
                      optional_field item ''insight_id'' (to_integer py), optional_field item ''ingested_at'' (to_datetime py),
                      optional_field item ''content_text_hash'' (to_string py)) of
                  (Some created, Some captured, Some _, Some _, Some _) \<Rightarrow>
                    Some \<lparr>d_platform = platform, d_tweet_id = tweet_id, d_author_id = author_id,
                          d_author_handle = handle, d_text = text, d_likes = likes, d_retweets = retweets,
                          d_label = label, d_conversation_id = conversation, d_source_created_at = created,
                          d_captured_at = captured\<rparr>
                | _ \<Rightarrow> None)
           | _ \<Rightarrow> None)
      | _ \<Rightarrow> None)"

section \<open>Tables\<close>

record feed_row =
  f_insight_id :: int
  f_platform :: string
  f_tweet_id :: string
  f_author_id :: string
  f_author_handle :: string
  f_text :: string
  f_likes :: int
  f_retweets :: int
  f_conversation_id :: "string option"
  f_label :: string
  f_text_hash :: string
  f_source_created_at :: "time option"
  f_ingested_at :: time
  f_first_seen_at :: time
  f_last_seen_at :: time
  f_updated_at :: time

record observation_row =
  o_id :: int
  o_key :: string
  o_insight_id :: int
  o_captured_at :: time
  o_likes :: int
  o_retweets :: int
  o_task_id :: "int option"
  o_task_generation :: "int option"
  o_adapter_name :: "string option"
  o_adapter_version :: "string option"

record contribution_row =
  kc_insight_id :: int
  kc_keyword :: string
  kc_window :: time
  kc_likes :: int
  kc_updated_at :: time

record rollup_row =
  kr_keyword :: string
  kr_window :: time
  kr_tweet_count :: int
  kr_likes_sum :: int

record alert_row =
  al_keyword :: string
  al_volume :: int
  al_threshold :: int
  al_triggered_at :: time

record fdb =
  feed :: "feed_row list"
  observations :: "observation_row list"
  contributions :: "contribution_row list"
  rollups :: "rollup_row list"
  feed_alerts :: "alert_row list"
  insight_seq :: int
  observation_seq :: int

definition empty_fdb :: fdb where
  "empty_fdb = \<lparr>feed = [], observations = [], contributions = [], rollups = [], feed_alerts = [],
     insight_seq = 1, observation_seq = 1\<rparr>"

abbreviation feed_by_tweet :: "fdb \<Rightarrow> string \<Rightarrow> feed_row option" where
  "feed_by_tweet db t \<equiv> fetch_key f_tweet_id t (feed db)"

abbreviation rollup_key :: "rollup_row \<Rightarrow> string \<times> time" where
  "rollup_key r \<equiv> (kr_keyword r, kr_window r)"

abbreviation rollup_at :: "fdb \<Rightarrow> string \<Rightarrow> time \<Rightarrow> rollup_row option" where
  "rollup_at db w t \<equiv> fetch_key rollup_key (w, t) (rollups db)"

section \<open>The canonical row\<close>

text \<open>\<open>GREATEST\<close> and \<open>COALESCE\<close> of the update.\<close>

definition coalesce :: "'a option \<Rightarrow> 'a option \<Rightarrow> 'a option" where
  "coalesce a b = (case a of None \<Rightarrow> b | Some _ \<Rightarrow> a)"

definition new_feed_row :: "int \<Rightarrow> document \<Rightarrow> string \<Rightarrow> time \<Rightarrow> feed_row" where
  "new_feed_row i doc text_hash captured =
     \<lparr>f_insight_id = i, f_platform = d_platform doc, f_tweet_id = d_tweet_id doc, f_author_id = d_author_id doc,
      f_author_handle = d_author_handle doc, f_text = d_text doc, f_likes = d_likes doc, f_retweets = d_retweets doc,
      f_conversation_id = d_conversation_id doc, f_label = d_label doc, f_text_hash = text_hash,
      f_source_created_at = d_source_created_at doc, f_ingested_at = captured, f_first_seen_at = captured,
      f_last_seen_at = captured, f_updated_at = captured\<rparr>"

definition merge_feed_row :: "document \<Rightarrow> string \<Rightarrow> time \<Rightarrow> time \<Rightarrow> feed_row \<Rightarrow> feed_row" where
  "merge_feed_row doc text_hash captured now f =
     f\<lparr>f_platform := d_platform doc, f_author_id := d_author_id doc, f_author_handle := d_author_handle doc,
       f_text := d_text doc, f_likes := max (f_likes f) (d_likes doc), f_retweets := max (f_retweets f) (d_retweets doc),
       f_conversation_id := coalesce (d_conversation_id doc) (f_conversation_id f), f_label := d_label doc,
       f_text_hash := text_hash, f_source_created_at := coalesce (f_source_created_at f) (d_source_created_at doc),
       f_last_seen_at := max (f_last_seen_at f) captured, f_updated_at := now\<rparr>"

definition upsert_feed :: "document \<Rightarrow> string \<Rightarrow> time \<Rightarrow> time \<Rightarrow> fdb \<Rightarrow> feed_row \<times> fdb" where
  "upsert_feed doc text_hash captured now db =
     (case feed_by_tweet db (d_tweet_id doc) of
        Some f \<Rightarrow>
          (merge_feed_row doc text_hash captured now f,
           db\<lparr>insight_seq := insight_seq db + 1,
              feed := update_where (\<lambda>r. f_tweet_id r = d_tweet_id doc) (merge_feed_row doc text_hash captured now) (feed db)\<rparr>)
      | None \<Rightarrow>
          (let f = new_feed_row (insight_seq db) doc text_hash captured
           in (f, db\<lparr>insight_seq := insight_seq db + 1, feed := feed db @ [f]\<rparr>)))"

section \<open>Observations\<close>

record observation_meta =
  om_task_id :: "int option"
  om_task_generation :: "int option"
  om_adapter_name :: "string option"
  om_adapter_version :: "string option"

definition add_observation :: "string \<Rightarrow> int \<Rightarrow> time \<Rightarrow> document \<Rightarrow> observation_meta \<Rightarrow> fdb \<Rightarrow> fdb" where
  "add_observation key insight captured doc om db =
     (case fetch_key o_key key (observations db) of
        Some _ \<Rightarrow> db\<lparr>observation_seq := observation_seq db + 1\<rparr>
      | None \<Rightarrow> db\<lparr>observation_seq := observation_seq db + 1,
          observations := observations db @ [\<lparr>o_id = observation_seq db, o_key = key, o_insight_id = insight,
            o_captured_at = captured, o_likes = d_likes doc, o_retweets = d_retweets doc, o_task_id = om_task_id om,
            o_task_generation = om_task_generation om, o_adapter_name = om_adapter_name om,
            o_adapter_version = om_adapter_version om\<rparr>]\<rparr>)"

section \<open>Contributions\<close>

definition hour_of :: "time \<Rightarrow> time" where
  "hour_of t = t div 3600000000 * 3600000000"

definition contribute :: "int \<Rightarrow> time \<Rightarrow> int \<Rightarrow> time \<Rightarrow> string \<Rightarrow> contribution_row list \<Rightarrow> contribution_row list" where
  "contribute insight bucket likes now keyword rows =
     (if \<exists>c\<in>set rows. kc_insight_id c = insight \<and> kc_keyword c = keyword
      then update_where (\<lambda>c. kc_insight_id c = insight \<and> kc_keyword c = keyword)
             (\<lambda>c. c\<lparr>kc_likes := max (kc_likes c) likes, kc_updated_at := now\<rparr>) rows
      else rows @ [\<lparr>kc_insight_id = insight, kc_keyword = keyword, kc_window = bucket, kc_likes = likes,
                    kc_updated_at = now\<rparr>])"

definition replace_contributions ::
  "int \<Rightarrow> time \<Rightarrow> int \<Rightarrow> time \<Rightarrow> string list \<Rightarrow> contribution_row list \<Rightarrow> contribution_row list" where
  "replace_contributions insight bucket likes now keywords rows =
     delete_where (\<lambda>c. kc_insight_id c = insight \<and> kc_keyword c \<notin> set keywords)
       (fold (contribute insight bucket likes now) keywords rows)"

section \<open>Rollups\<close>

definition in_bucket :: "string \<Rightarrow> time \<Rightarrow> contribution_row \<Rightarrow> bool" where
  "in_bucket keyword window c \<longleftrightarrow> kc_keyword c = keyword \<and> kc_window c = window"

definition bucket_likes :: "string \<Rightarrow> time \<Rightarrow> contribution_row list \<Rightarrow> int" where
  "bucket_likes keyword window rows = sum_list (map kc_likes (filter (in_bucket keyword window) rows))"

definition max_int4 :: int where
  "max_int4 = 2147483647"

text \<open>
  \<open>_rebuild_rollup_bucket\<close>: the aggregate over the contributions its query \<open>seen\<close>, and the row it writes. The sum is a bigint, the
  column it goes to is an INT, so a sum that does not fit raises.
\<close>

definition write_rollup :: "contribution_row list \<Rightarrow> string \<Rightarrow> time \<Rightarrow> fdb \<Rightarrow> exc + fdb" where
  "write_rollup seen keyword window db =
     (let n = count_where (in_bucket keyword window) seen;
          likes = bucket_likes keyword window seen
      in if n = 0 then Inr (db\<lparr>rollups := delete_where (\<lambda>r. rollup_key r = (keyword, window)) (rollups db)\<rparr>)
         else if max_int4 < likes then Inl (DbError ''integer out of range: keyword_hourly_rollups.engagement_likes_sum'')
         else case rollup_at db keyword window of
                Some _ \<Rightarrow> Inr (db\<lparr>rollups := update_where (\<lambda>r. rollup_key r = (keyword, window))
                  (\<lambda>r. r\<lparr>kr_tweet_count := int n, kr_likes_sum := likes\<rparr>) (rollups db)\<rparr>)
              | None \<Rightarrow> Inr (db\<lparr>rollups := rollups db @ [\<lparr>kr_keyword = keyword, kr_window = window,
                  kr_tweet_count = int n, kr_likes_sum = likes\<rparr>]\<rparr>))"

definition rebuild_rollup_bucket :: "string \<Rightarrow> time \<Rightarrow> fdb \<Rightarrow> exc + fdb" where
  "rebuild_rollup_bucket keyword window db = write_rollup (contributions db) keyword window db"

fun rebuild_rollups :: "(string \<times> time) list \<Rightarrow> fdb \<Rightarrow> exc + fdb" where
  "rebuild_rollups [] db = Inr db"
| "rebuild_rollups ((keyword, window) # rest) db =
     and_then (rebuild_rollup_bucket keyword window db) (rebuild_rollups rest)"

text \<open>The buckets an upsert touches: of the contributions the object had and of those it has now.\<close>

definition affected_buckets :: "int \<Rightarrow> contribution_row list \<Rightarrow> string list \<Rightarrow> time \<Rightarrow> (string \<times> time) list" where
  "affected_buckets insight old keywords bucket =
     sort_key (\<lambda>(keyword, window). (window, keyword))
       (remdups (map (\<lambda>c. (kc_keyword c, kc_window c)) (filter (\<lambda>c. kc_insight_id c = insight) old) @
                 map (\<lambda>keyword. (keyword, bucket)) keywords))"

section \<open>upsert\_insight\_record\<close>

text \<open>
  Columns narrower than the document's fields: \<open>author_id\<close> and \<open>conversation_id\<close> are VARCHAR(64) where the
  model allows 128 characters, the counters are INT, and the adapter's names are VARCHAR(100).
\<close>

definition storable :: "document \<Rightarrow> observation_meta \<Rightarrow> bool" where
  "storable doc om \<longleftrightarrow> length (d_author_id doc) \<le> 64 \<and>
     (case d_conversation_id doc of None \<Rightarrow> True | Some c \<Rightarrow> length c \<le> 64) \<and>
     d_likes doc \<le> max_int4 \<and> d_retweets doc \<le> max_int4 \<and>
     (case om_adapter_name om of None \<Rightarrow> True | Some a \<Rightarrow> length a \<le> 100) \<and>
     (case om_adapter_version om of None \<Rightarrow> True | Some a \<Rightarrow> length a \<le> 100)"

text \<open>
  One transaction. \<open>clock\<close> is the worker's UTC time, used when the document has no capture time; \<open>isoformat\<close>
  renders a time in the default key; \<open>now\<close> is the database's. What raises rolls everything back but the two
  sequences. The transaction is taken to run alone: what two that overlap do to a rollup is told by
  \<open>overlapping_rebuilds_undercount\<close> (\<open>FeedProps\<close>). A task that \<open>ingestion_task_id\<close> names and that has been deleted, and a text with
  a NUL character, which PostgreSQL both refuses, are left aside.
\<close>

definition upsert_insight_record ::
  "(string \<Rightarrow> string) \<Rightarrow> (time \<Rightarrow> string) \<Rightarrow> document \<Rightarrow> string option \<Rightarrow> observation_meta \<Rightarrow> time \<Rightarrow> time \<Rightarrow> fdb \<Rightarrow>
     (exc + unit) \<times> fdb" where
  "upsert_insight_record sha256 isoformat doc key om clock now db =
     (let captured = (case d_captured_at doc of Some t \<Rightarrow> t | None \<Rightarrow> clock);
          keywords = extract_keywords (d_text doc);
          observation_key = (case key of Some (c # k) \<Rightarrow> c # k
            | _ \<Rightarrow> d_platform doc @ '':'' @ d_tweet_id doc @ '':'' @ isoformat captured);
          (f, db1) = upsert_feed doc (compute_clean_text_hash sha256 (d_text doc)) captured now db;
          db2 = add_observation observation_key (f_insight_id f) captured doc om db1;
          bucket = hour_of (f_first_seen_at f);
          db3 = db2\<lparr>contributions := replace_contributions (f_insight_id f) bucket (f_likes f) now keywords (contributions db2)\<rparr>;
          rolled_back = db\<lparr>insight_seq := insight_seq db1, observation_seq := observation_seq db2\<rparr>
      in if \<not> storable doc om then (Inl (DbError ''value out of range for its column''), rolled_back)
         else case rebuild_rollups (affected_buckets (f_insight_id f) (contributions db) keywords bucket) db3 of
                Inl e \<Rightarrow> (Inl e, rolled_back)
              | Inr db4 \<Rightarrow> (Inr (), db4))"

section \<open>persist\_documents\<close>

definition observation_key_of :: "task_lease \<Rightarrow> document \<Rightarrow> string" where
  "observation_key_of task doc =
     ''task:'' @ int_str (l_id task) @ '':generation:'' @ int_str (l_generation task) @ '':'' @
     d_platform doc @ '':'' @ d_tweet_id doc"

text \<open>\<open>str(name) if name else None\<close>.\<close>

definition truthy_str :: "(rat \<Rightarrow> string) \<Rightarrow> pyval \<Rightarrow> string option" where
  "truthy_str fr v = (if truthy v then Some (py_str fr v) else None)"

definition task_meta :: "(rat \<Rightarrow> string) \<Rightarrow> task_lease \<Rightarrow> pydict \<Rightarrow> observation_meta" where
  "task_meta fr task item =
     \<lparr>om_task_id = Some (l_id task), om_task_generation = Some (l_generation task),
      om_adapter_name = truthy_str fr (dict_get item ''_collector_adapter''),
      om_adapter_version = truthy_str fr (dict_get item ''_collector_adapter_version'')\<rparr>"

record store_env =
  se_pydantic :: pydantic
  se_float :: "rat \<Rightarrow> string"
  se_sha256 :: "string \<Rightarrow> string"
  se_isoformat :: "time \<Rightarrow> string"

text \<open>Each item is stored in a transaction of its own, at times of its own.\<close>

fun persist_documents ::
  "store_env \<Rightarrow> task_lease \<Rightarrow> (pydict \<times> time \<times> time) list \<Rightarrow> nat \<times> nat \<Rightarrow> fdb \<Rightarrow> (exc + nat \<times> nat) \<times> fdb" where
  "persist_documents se task [] counts db = (Inr counts, db)"
| "persist_documents se task ((item, clock, now) # items) (stored, rejected) db =
     (case make_document (se_pydantic se) (se_float se) item of
        None \<Rightarrow> persist_documents se task items (stored, rejected + 1) db
      | Some doc \<Rightarrow>
          (case upsert_insight_record (se_sha256 se) (se_isoformat se) doc (Some (observation_key_of task doc))
                  (task_meta (se_float se) task item) clock now db of
             (Inl e, db1) \<Rightarrow> (Inl e, db1)
           | (Inr _, db1) \<Rightarrow> persist_documents se task items (stored + 1, rejected) db1))"

section \<open>Retention and alerts\<close>

text \<open>Deleting a feed row cascades to its observations and contributions; the rollups are left as they are.\<close>

definition purge_feed :: "int \<Rightarrow> time \<Rightarrow> fdb \<Rightarrow> fdb" where
  "purge_feed retention_days now db =
     (let old = (\<lambda>f. f_ingested_at f < now - retention_days * seconds 86400);
          gone = map f_insight_id (filter old (feed db))
      in db\<lparr>feed := delete_where old (feed db),
            observations := delete_where (\<lambda>r. o_insight_id r \<in> set gone) (observations db),
            contributions := delete_where (\<lambda>c. kc_insight_id c \<in> set gone) (contributions db)\<rparr>)"

definition recent_volume :: "time \<Rightarrow> rollup_row list \<Rightarrow> string \<Rightarrow> int" where
  "recent_volume now rows keyword =
     sum_list (map kr_tweet_count (filter (\<lambda>r. kr_keyword r = keyword \<and> now - seconds 3600 \<le> kr_window r) rows))"

definition spiking_keywords :: "int \<Rightarrow> time \<Rightarrow> rollup_row list \<Rightarrow> string list" where
  "spiking_keywords threshold now rows =
     filter (\<lambda>w. threshold < recent_volume now rows w)
       (remdups (map kr_keyword (filter (\<lambda>r. now - seconds 3600 \<le> kr_window r) rows)))"

text \<open>
  One scan, at the one database time of its statement; \<open>ORDER BY total_volume DESC\<close>, ties in table order. Each
  insert has a \<open>NOW()\<close> of its own.
\<close>

definition process_velocity_spike_detection :: "int \<Rightarrow> time \<Rightarrow> (string \<Rightarrow> time) \<Rightarrow> fdb \<Rightarrow> fdb" where
  "process_velocity_spike_detection threshold now insert_time db =
     (let volume = recent_volume now (rollups db)
      in db\<lparr>feed_alerts := feed_alerts db @ map (\<lambda>w. \<lparr>al_keyword = w, al_volume = volume w, al_threshold = threshold,
            al_triggered_at = insert_time w\<rparr>)
          (sort_key (\<lambda>w. - volume w) (spiking_keywords threshold now (rollups db)))\<rparr>)"

end
