(* ===== verification/FeedProps.thy ===== *)
theory FeedProps
  imports Feed "HOL-Library.Multiset"
begin

text \<open>
  The rollups are exactly a recount of the canonical feed: this is proved in two steps, from the feed to the
  contributions and from the contributions to the rollups, as an invariant of every sequence of upserts.
\<close>

section \<open>The invariant\<close>

definition feed_ok :: "fdb \<Rightarrow> bool" where
  "feed_ok db \<longleftrightarrow> distinct (map f_insight_id (feed db)) \<and> distinct (map f_tweet_id (feed db)) \<and>
     (\<forall>f\<in>set (feed db). f_insight_id f < insight_seq db)"

abbreviation feed_keywords :: "feed_row \<Rightarrow> string set" where
  "feed_keywords f \<equiv> set (extract_keywords (f_text f))"

definition contribution_of :: "feed_row \<Rightarrow> contribution_row \<Rightarrow> bool" where
  "contribution_of f c \<longleftrightarrow> kc_insight_id c = f_insight_id f \<and> kc_keyword c \<in> feed_keywords f \<and>
     kc_window c = hour_of (f_first_seen_at f) \<and> kc_likes c = f_likes f"

abbreviation contribution_key :: "contribution_row \<Rightarrow> int \<times> string" where
  "contribution_key c \<equiv> (kc_insight_id c, kc_keyword c)"

definition contributions_ok :: "feed_row list \<Rightarrow> contribution_row list \<Rightarrow> bool" where
  "contributions_ok fs cs \<longleftrightarrow> distinct (map contribution_key cs) \<and>
     (\<forall>c\<in>set cs. \<exists>f\<in>set fs. contribution_of f c) \<and>
     (\<forall>f\<in>set fs. \<forall>w\<in>feed_keywords f. \<exists>c\<in>set cs. contribution_key c = (f_insight_id f, w))"

text \<open>The rollup row a set of contributions calls for.\<close>

definition rollup_of :: "contribution_row list \<Rightarrow> string \<Rightarrow> time \<Rightarrow> rollup_row option" where
  "rollup_of cs w t = (let n = count_where (in_bucket w t) cs
     in if n = 0 then None
        else Some \<lparr>kr_keyword = w, kr_window = t, kr_tweet_count = int n, kr_likes_sum = bucket_likes w t cs\<rparr>)"

definition rollups_ok :: "fdb \<Rightarrow> bool" where
  "rollups_ok db \<longleftrightarrow> distinct (map rollup_key (rollups db)) \<and> (\<forall>w t. rollup_at db w t = rollup_of (contributions db) w t)"

definition fdb_inv :: "fdb \<Rightarrow> bool" where
  "fdb_inv db \<longleftrightarrow> feed_ok db \<and> contributions_ok (feed db) (contributions db) \<and> rollups_ok db \<and>
     distinct (map o_key (observations db))"

lemma fdb_inv_empty: "fdb_inv empty_fdb"
  by (simp add: fdb_inv_def feed_ok_def contributions_ok_def rollups_ok_def rollup_of_def empty_fdb_def)

section \<open>Rebuilding rollups\<close>

lemma rebuild_bucket:
  assumes run: "rebuild_rollup_bucket w t db = Inr db'" and keys: "distinct (map rollup_key (rollups db))"
  shows "\<exists>rs. db' = db\<lparr>rollups := rs\<rparr> \<and> distinct (map rollup_key rs) \<and>
    (\<forall>w' t'. fetch_key rollup_key (w', t') rs = (if (w', t') = (w, t) then rollup_of (contributions db) w t else rollup_at db w' t'))"
proof -
  let ?n = "count_where (in_bucket w t) (contributions db)"
  let ?l = "bucket_likes w t (contributions db)"
  show ?thesis
  proof (cases "?n = 0")
    case True
    let ?rs = "delete_where (\<lambda>r. rollup_key r = (w, t)) (rollups db)"
    have "db' = db\<lparr>rollups := ?rs\<rparr>" using run True by (simp add: rebuild_rollup_bucket_def write_rollup_def)
    moreover have "fetch_key rollup_key (w', t') ?rs = (if (w', t') = (w, t) then rollup_of (contributions db) w t else rollup_at db w' t')" for w' t'
      using True keys by (auto simp: fetch_key_delete_where rollup_of_def dest: fetch_key_SomeD split: option.split)
    ultimately show ?thesis using distinct_map_delete_where [OF keys] by blast
  next
    case False
    have target: "rollup_of (contributions db) w t = Some \<lparr>kr_keyword = w, kr_window = t, kr_tweet_count = int ?n, kr_likes_sum = ?l\<rparr>"
      using False by (simp add: rollup_of_def)
    show ?thesis
    proof (cases "rollup_at db w t")
      case None
      let ?rs = "rollups db @ [\<lparr>kr_keyword = w, kr_window = t, kr_tweet_count = int ?n, kr_likes_sum = ?l\<rparr>]"
      have "db' = db\<lparr>rollups := ?rs\<rparr>" using run False None by (simp add: rebuild_rollup_bucket_def write_rollup_def Let_def)
      moreover have "distinct (map rollup_key ?rs)" using keys None by (auto simp: fetch_key_None_iff)
      moreover have "fetch_key rollup_key (w', t') ?rs = (if (w', t') = (w, t) then rollup_of (contributions db) w t else rollup_at db w' t')" for w' t'
        using None target by (auto simp: fetch_key_append split: option.split)
      ultimately show ?thesis by blast
    next
      case (Some r)
      let ?f = "\<lambda>r. r\<lparr>kr_tweet_count := int ?n, kr_likes_sum := ?l\<rparr>"
      let ?rs = "update_where (\<lambda>r. rollup_key r = (w, t)) ?f (rollups db)"
      have "db' = db\<lparr>rollups := ?rs\<rparr>" using run False Some by (simp add: rebuild_rollup_bucket_def write_rollup_def Let_def)
      moreover have "distinct (map rollup_key ?rs)" using keys by (simp add: map_update_where)
      moreover have "fetch_key rollup_key (w', t') ?rs = (if (w', t') = (w, t) then rollup_of (contributions db) w t else rollup_at db w' t')" for w' t'
      proof -
        have "fetch_key rollup_key (w', t') ?rs = map_option (\<lambda>r. if rollup_key r = (w, t) then ?f r else r) (rollup_at db w' t')"
          by (rule fetch_key_update_where) simp
        moreover have "rollup_key r = (w, t)" using Some by (auto dest: fetch_key_SomeD)
        moreover have "map_option (\<lambda>r. if rollup_key r = (w, t) then ?f r else r) (rollup_at db w' t') = rollup_at db w' t'"
          if "(w', t') \<noteq> (w, t)"
          using that by (cases "rollup_at db w' t'") (auto dest!: fetch_key_SomeD)
        ultimately show ?thesis using Some target by auto
      qed
      ultimately show ?thesis by blast
    qed
  qed
qed

lemma rebuild_all:
  assumes "rebuild_rollups bs db = Inr db'" and "distinct (map rollup_key (rollups db))"
  shows "\<exists>rs. db' = db\<lparr>rollups := rs\<rparr> \<and> distinct (map rollup_key rs) \<and>
    (\<forall>w t. fetch_key rollup_key (w, t) rs = (if (w, t) \<in> set bs then rollup_of (contributions db) w t else rollup_at db w t))"
  using assms
proof (induction bs arbitrary: db)
  case Nil
  then show ?case by (intro exI [of _ "rollups db"]) simp
next
  case (Cons b bs)
  obtain w t where b: "b = (w, t)" by (cases b)
  from Cons.prems(1) obtain db1 where one: "rebuild_rollup_bucket w t db = Inr db1" and rest: "rebuild_rollups bs db1 = Inr db'"
    by (auto simp: b and_then_Inr)
  obtain rs where rs: "db1 = db\<lparr>rollups := rs\<rparr>" "distinct (map rollup_key rs)"
    "\<And>w' t'. fetch_key rollup_key (w', t') rs = (if (w', t') = (w, t) then rollup_of (contributions db) w t else rollup_at db w' t')"
    using rebuild_bucket [OF one Cons.prems(2)] by blast
  have "distinct (map rollup_key (rollups db1))" using rs(1,2) by simp
  from Cons.IH [OF rest this] obtain rs' where "db' = db1\<lparr>rollups := rs'\<rparr>" "distinct (map rollup_key rs')"
    "\<And>w' t'. fetch_key rollup_key (w', t') rs' = (if (w', t') \<in> set bs then rollup_of (contributions db1) w' t' else rollup_at db1 w' t')"
    by blast
  then show ?case using rs by (intro exI [of _ rs']) (auto simp: b)
qed

section \<open>The contributions of one object\<close>

lemma contribute_other: "filter (\<lambda>c. kc_insight_id c \<noteq> i) (contribute i b l now w rows) = filter (\<lambda>c. kc_insight_id c \<noteq> i) rows"
proof -
  have "filter (\<lambda>c. kc_insight_id c \<noteq> i) (update_where (\<lambda>c. kc_insight_id c = i \<and> kc_keyword c = w) f rows)
      = filter (\<lambda>c. kc_insight_id c \<noteq> i) rows" if "\<And>c. kc_insight_id (f c) = kc_insight_id c" for f
    using that by (induction rows) auto
  then show ?thesis by (simp add: contribute_def)
qed

lemma contribute_distinct: "distinct (map contribution_key rows) \<Longrightarrow> distinct (map contribution_key (contribute i b l now w rows))"
  by (auto simp: contribute_def map_update_where)

definition own_rows :: "int \<Rightarrow> contribution_row list \<Rightarrow> contribution_row set" where
  "own_rows i rows = {c \<in> set rows. kc_insight_id c = i}"

lemma contribute_own:
  assumes "\<forall>c\<in>own_rows i rows. kc_window c = b \<and> kc_likes c \<le> l"
  shows "\<forall>c\<in>own_rows i (contribute i b l now w rows). kc_window c = b \<and> kc_likes c \<le> l \<and>
      (kc_keyword c = w \<longrightarrow> kc_likes c = l) \<and> (kc_keyword c \<noteq> w \<longrightarrow> c \<in> own_rows i rows)"
    and "\<exists>c\<in>own_rows i (contribute i b l now w rows). kc_keyword c = w"
    and "kc_keyword ` own_rows i (contribute i b l now w rows) = insert w (kc_keyword ` own_rows i rows)"
proof -
  let ?new = "own_rows i (contribute i b l now w rows)"
  define good where "good = (\<lambda>c. kc_window c = b \<and> kc_likes c \<le> l \<and> (kc_keyword c = w \<longrightarrow> kc_likes c = l) \<and>
    (kc_keyword c \<noteq> w \<longrightarrow> c \<in> own_rows i rows))"
  have both: "(\<forall>c\<in>?new. good c) \<and> kc_keyword ` ?new = insert w (kc_keyword ` own_rows i rows)"
  proof (cases "\<exists>c\<in>set rows. kc_insight_id c = i \<and> kc_keyword c = w")
    case True
    define u where "u = (\<lambda>c::contribution_row. if kc_insight_id c = i \<and> kc_keyword c = w then c\<lparr>kc_likes := max (kc_likes c) l, kc_updated_at := now\<rparr> else c)"
    have u: "kc_keyword (u c) = kc_keyword c" "kc_insight_id (u c) = kc_insight_id c" "kc_window (u c) = kc_window c" for c
      by (simp_all add: u_def)
    have "set (contribute i b l now w rows) = u ` set rows"
      using True by (auto simp: contribute_def set_update_where u_def)
    then have new: "?new = u ` own_rows i rows" by (auto simp: own_rows_def u(2))
    then have "kc_keyword ` ?new = kc_keyword ` own_rows i rows" by (simp add: image_image u(1))
    moreover have "w \<in> kc_keyword ` own_rows i rows" using True by (force simp: own_rows_def)
    moreover have "good (u c)" if "c \<in> own_rows i rows" for c
      using that assms by (cases "kc_keyword c = w") (auto simp: u_def own_rows_def good_def)
    ultimately show ?thesis unfolding new by blast
  next
    case False
    define r where "r = \<lparr>kc_insight_id = i, kc_keyword = w, kc_window = b, kc_likes = l, kc_updated_at = now\<rparr>"
    have new: "?new = insert r (own_rows i rows)" using False by (auto simp: own_rows_def contribute_def r_def)
    have "good r" by (simp add: good_def r_def)
    moreover have "good c" if "c \<in> own_rows i rows" for c
      using that assms False unfolding own_rows_def good_def by blast
    moreover have "kc_keyword r = w" by (simp add: r_def)
    ultimately show ?thesis unfolding new by blast
  qed
  show "\<forall>c\<in>?new. kc_window c = b \<and> kc_likes c \<le> l \<and> (kc_keyword c = w \<longrightarrow> kc_likes c = l) \<and>
    (kc_keyword c \<noteq> w \<longrightarrow> c \<in> own_rows i rows)"
    using conjunct1 [OF both] unfolding good_def .
  show img: "kc_keyword ` ?new = insert w (kc_keyword ` own_rows i rows)" using both by (rule conjunct2)
  have "w \<in> kc_keyword ` ?new" unfolding img by (rule insertI1)
  then show "\<exists>c\<in>?new. kc_keyword c = w" by (metis imageE)
qed

lemma contribute_fold:
  assumes "\<forall>c\<in>own_rows i rows. kc_window c = b \<and> kc_likes c \<le> l" and "distinct (map contribution_key rows)"
  shows "(\<forall>c\<in>own_rows i (fold (contribute i b l now) ws rows). kc_window c = b \<and> kc_likes c \<le> l \<and> (kc_keyword c \<in> set ws \<longrightarrow> kc_likes c = l)) \<and>
    set ws \<subseteq> kc_keyword ` own_rows i (fold (contribute i b l now) ws rows) \<and>
    distinct (map contribution_key (fold (contribute i b l now) ws rows)) \<and>
    filter (\<lambda>c. kc_insight_id c \<noteq> i) (fold (contribute i b l now) ws rows) = filter (\<lambda>c. kc_insight_id c \<noteq> i) rows"
proof (induction ws rule: rev_induct)
  case Nil
  then show ?case using assms by auto
next
  case (snoc w ws)
  let ?r = "fold (contribute i b l now) ws rows"
  have own: "\<forall>c\<in>own_rows i ?r. kc_window c = b \<and> kc_likes c \<le> l" using snoc by blast
  note step = contribute_own [OF own, of now w]
  show ?case using snoc step contribute_distinct [of ?r i b l now w] contribute_other [of i b l now w ?r]
    by (auto simp: subset_iff)
qed

lemma replace_contributions_rows:
  fixes now :: time and ws :: "string list"
  assumes "\<forall>c\<in>own_rows i rows. kc_window c = b \<and> kc_likes c \<le> l" and "distinct (map contribution_key rows)"
  defines "new \<equiv> replace_contributions i b l now ws rows"
  shows "\<forall>c\<in>own_rows i new. kc_window c = b \<and> kc_likes c = l \<and> kc_keyword c \<in> set ws"
    and "set ws \<subseteq> kc_keyword ` own_rows i new" and "distinct (map contribution_key new)"
    and "filter (\<lambda>c. kc_insight_id c \<noteq> i) new = filter (\<lambda>c. kc_insight_id c \<noteq> i) rows"
proof -
  let ?r = "fold (contribute i b l now) ws rows"
  have new: "new = filter (\<lambda>c. \<not> (kc_insight_id c = i \<and> kc_keyword c \<notin> set ws)) ?r"
    by (simp add: new_def replace_contributions_def delete_where_def)
  have own: "own_rows i new = {c \<in> own_rows i ?r. kc_keyword c \<in> set ws}" by (auto simp: new own_rows_def)
  note f = contribute_fold [OF assms(1,2), of now ws]
  from f show "\<forall>c\<in>own_rows i new. kc_window c = b \<and> kc_likes c = l \<and> kc_keyword c \<in> set ws" by (simp add: own)
  from f show "set ws \<subseteq> kc_keyword ` own_rows i new" by (auto simp: own)
  from f show "distinct (map contribution_key new)" by (simp add: new distinct_map_filter)
  have "filter (\<lambda>c. kc_insight_id c \<noteq> i) new = filter (\<lambda>c. kc_insight_id c \<noteq> i) ?r"
    by (auto simp: new intro: filter_cong)
  with f show "filter (\<lambda>c. kc_insight_id c \<noteq> i) new = filter (\<lambda>c. kc_insight_id c \<noteq> i) rows" by simp
qed

section \<open>The canonical row\<close>

lemma merge_feed_row_fields [row_simps, simp]:
  "f_insight_id (merge_feed_row doc h c n f) = f_insight_id f" "f_tweet_id (merge_feed_row doc h c n f) = f_tweet_id f"
  "f_first_seen_at (merge_feed_row doc h c n f) = f_first_seen_at f" "f_text (merge_feed_row doc h c n f) = d_text doc"
  "f_likes (merge_feed_row doc h c n f) = max (f_likes f) (d_likes doc)"
  "f_retweets (merge_feed_row doc h c n f) = max (f_retweets f) (d_retweets doc)"
  "f_last_seen_at (merge_feed_row doc h c n f) = max (f_last_seen_at f) c"
  "f_ingested_at (merge_feed_row doc h c n f) = f_ingested_at f"
  by (simp_all add: merge_feed_row_def)

lemma new_feed_row_fields [simp]:
  "f_insight_id (new_feed_row i doc h c) = i" "f_tweet_id (new_feed_row i doc h c) = d_tweet_id doc"
  "f_text (new_feed_row i doc h c) = d_text doc" "f_likes (new_feed_row i doc h c) = d_likes doc"
  "f_retweets (new_feed_row i doc h c) = d_retweets doc" "f_first_seen_at (new_feed_row i doc h c) = c"
  by (simp_all add: new_feed_row_def)

lemma upsert_feed_frame [simp]:
  assumes "upsert_feed doc h c n db = (f, db1)"
  shows "contributions db1 = contributions db" and "rollups db1 = rollups db" and "observations db1 = observations db"
    and "observation_seq db1 = observation_seq db" and "insight_seq db1 = insight_seq db + 1" and "feed_alerts db1 = feed_alerts db"
  using assms by (auto simp: upsert_feed_def Let_def split: option.splits)

lemma upsert_feed_rows:
  assumes ok: "feed_ok db" and run: "upsert_feed doc h c n db = (f, db1)"
  shows "feed_ok db1" and "f \<in> set (feed db1)" and "f_text f = d_text doc" and "f_tweet_id f = d_tweet_id doc"
    and "g \<in> set (feed db1) \<Longrightarrow> f_insight_id g \<noteq> f_insight_id f \<Longrightarrow> g \<in> set (feed db)"
    and "g \<in> set (feed db) \<Longrightarrow> f_insight_id g \<noteq> f_insight_id f \<Longrightarrow> g \<in> set (feed db1)"
    and "g \<in> set (feed db) \<Longrightarrow> f_insight_id g = f_insight_id f \<Longrightarrow>
      f_first_seen_at g = f_first_seen_at f \<and> f_likes g \<le> f_likes f"
proof -
  have ids: "distinct (map f_insight_id (feed db))" and tweets: "distinct (map f_tweet_id (feed db))"
    and seq: "\<forall>f\<in>set (feed db). f_insight_id f < insight_seq db"
    using ok by (simp_all add: feed_ok_def)
  have "f_text f = d_text doc \<and> f_tweet_id f = d_tweet_id doc \<and> feed_ok db1 \<and> f \<in> set (feed db1) \<and>
    (\<forall>g. g \<in> set (feed db1) \<and> f_insight_id g \<noteq> f_insight_id f \<longrightarrow> g \<in> set (feed db)) \<and>
    (\<forall>g. g \<in> set (feed db) \<and> f_insight_id g \<noteq> f_insight_id f \<longrightarrow> g \<in> set (feed db1)) \<and>
    (\<forall>g. g \<in> set (feed db) \<and> f_insight_id g = f_insight_id f \<longrightarrow> f_first_seen_at g = f_first_seen_at f \<and> f_likes g \<le> f_likes f)"
  proof (cases "feed_by_tweet db (d_tweet_id doc)")
    case None
    then have f: "f = new_feed_row (insight_seq db) doc h c" and db1: "feed db1 = feed db @ [f]" "insight_seq db1 = insight_seq db + 1"
      using run by (auto simp: upsert_feed_def Let_def)
    have "feed_ok db1" using ids tweets seq None by (auto simp: feed_ok_def db1 f fetch_key_None_iff)
    then show ?thesis using seq by (auto simp: db1 f)
  next
    case (Some g0)
    then have g0: "g0 \<in> set (feed db)" "f_tweet_id g0 = d_tweet_id doc" by (auto dest: fetch_key_SomeD)
    have f: "f = merge_feed_row doc h c n g0"
      and db1: "feed db1 = update_where (\<lambda>r. f_tweet_id r = d_tweet_id doc) (merge_feed_row doc h c n) (feed db)"
        "insight_seq db1 = insight_seq db + 1"
      using run Some by (auto simp: upsert_feed_def)
    have "feed_ok db1" using ids tweets seq by (fastforce simp: feed_ok_def db1 map_update_where set_update_where)
    moreover have same: "g \<in> set (feed db) \<Longrightarrow> f_tweet_id g = d_tweet_id doc \<longleftrightarrow> g = g0" for g
      using g0 same_key_eq [OF tweets] by auto
    moreover have "g \<in> set (feed db) \<Longrightarrow> f_insight_id g = f_insight_id g0 \<longleftrightarrow> g = g0" for g
      using g0 same_key_eq [OF ids] by auto
    ultimately show ?thesis using g0 by (auto simp: db1 f set_update_where image_iff)
  qed
  then show "f_text f = d_text doc" "f_tweet_id f = d_tweet_id doc" "feed_ok db1" "f \<in> set (feed db1)"
    "g \<in> set (feed db1) \<Longrightarrow> f_insight_id g \<noteq> f_insight_id f \<Longrightarrow> g \<in> set (feed db)"
    "g \<in> set (feed db) \<Longrightarrow> f_insight_id g \<noteq> f_insight_id f \<Longrightarrow> g \<in> set (feed db1)"
    "g \<in> set (feed db) \<Longrightarrow> f_insight_id g = f_insight_id f \<Longrightarrow> f_first_seen_at g = f_first_seen_at f \<and> f_likes g \<le> f_likes f"
    by blast+
qed

section \<open>An upsert keeps the invariant\<close>

text \<open>The contributions after an upsert reflect the feed after it.\<close>

lemma contributions_replaced:
  assumes fs: "distinct (map f_insight_id (feed db1))" and f: "f \<in> set (feed db1)"
    and old: "contributions_ok (feed db) cs"
    and kept: "\<And>g. g \<in> set (feed db1) \<Longrightarrow> f_insight_id g \<noteq> f_insight_id f \<Longrightarrow> g \<in> set (feed db)"
    and same: "\<And>g. g \<in> set (feed db) \<Longrightarrow> f_insight_id g \<noteq> f_insight_id f \<Longrightarrow> g \<in> set (feed db1)"
    and new: "\<forall>c\<in>own_rows (f_insight_id f) cs'. kc_window c = hour_of (f_first_seen_at f) \<and> kc_likes c = f_likes f \<and> kc_keyword c \<in> feed_keywords f"
      "feed_keywords f \<subseteq> kc_keyword ` own_rows (f_insight_id f) cs'" "distinct (map contribution_key cs')"
      "filter (\<lambda>c. kc_insight_id c \<noteq> f_insight_id f) cs' = filter (\<lambda>c. kc_insight_id c \<noteq> f_insight_id f) cs"
  shows "contributions_ok (feed db1) cs'"
proof -
  let ?i = "f_insight_id f"
  have other: "c \<in> set cs' \<longleftrightarrow> c \<in> set cs" if "kc_insight_id c \<noteq> ?i" for c
  proof -
    have "c \<in> set (filter (\<lambda>c. kc_insight_id c \<noteq> ?i) cs') \<longleftrightarrow> c \<in> set (filter (\<lambda>c. kc_insight_id c \<noteq> ?i) cs)"
      by (simp only: new(4))
    then show ?thesis using that by simp
  qed
  have "\<exists>g\<in>set (feed db1). contribution_of g c" if c: "c \<in> set cs'" for c
  proof (cases "kc_insight_id c = ?i")
    case True
    with new(1) c f show ?thesis by (auto simp: own_rows_def contribution_of_def)
  next
    case False
    then obtain g where "g \<in> set (feed db)" "contribution_of g c"
      using other [OF False] c old by (auto simp: contributions_ok_def)
    then show ?thesis using same False by (auto simp: contribution_of_def)
  qed
  moreover have "\<exists>c\<in>set cs'. contribution_key c = (f_insight_id g, w)" if g: "g \<in> set (feed db1)" "w \<in> feed_keywords g" for g w
  proof (cases "f_insight_id g = ?i")
    case True
    then have "g = f" using same_key_eq [OF fs] g(1) f by blast
    with new(2) g(2) show ?thesis by (fastforce simp: own_rows_def)
  next
    case False
    then obtain c where "c \<in> set cs" "contribution_key c = (f_insight_id g, w)"
      using kept [OF g(1)] old g(2) unfolding contributions_ok_def by blast
    then show ?thesis using other [of c] False by auto
  qed
  ultimately show ?thesis using new(3) by (simp add: contributions_ok_def)
qed

text \<open>A bucket that no contribution of the object is in, before or after, keeps its contributions.\<close>

lemma rollup_of_unaffected:
  assumes "filter (\<lambda>c. kc_insight_id c \<noteq> i) cs' = filter (\<lambda>c. kc_insight_id c \<noteq> i) cs"
    and "\<And>c. c \<in> own_rows i cs \<union> own_rows i cs' \<Longrightarrow> \<not> in_bucket w t c"
  shows "rollup_of cs' w t = rollup_of cs w t"
proof -
  have "filter (in_bucket w t) xs = filter (in_bucket w t) (filter (\<lambda>c. kc_insight_id c \<noteq> i) xs)"
    if "\<And>c. c \<in> own_rows i xs \<Longrightarrow> \<not> in_bucket w t c" for xs
    using that by (auto simp: own_rows_def intro!: filter_cong)
  then have "filter (in_bucket w t) cs' = filter (in_bucket w t) cs" using assms by (metis UnI1 UnI2)
  then show ?thesis by (simp add: rollup_of_def count_where_def bucket_likes_def)
qed

text \<open>An upsert up to its rollups: the rows it has prepared when it starts to rebuild the buckets.\<close>

lemma upsert_prepared:
  assumes inv: "fdb_inv db"
  obtains f db1 db3 bs undone where
    "upsert_feed doc (compute_clean_text_hash sha (d_text doc)) (case d_captured_at doc of Some t \<Rightarrow> t | None \<Rightarrow> clock) now db = (f, db1)"
    and "upsert_insight_record sha isof doc key om clock now db =
      (if \<not> storable doc om then (Inl (DbError ''value out of range for its column''), undone)
       else case rebuild_rollups bs db3 of Inl e \<Rightarrow> (Inl e, undone) | Inr db4 \<Rightarrow> (Inr (), db4))"
    and "fdb_inv undone" and "feed db3 = feed db1" and "feed_ok db3" and "contributions_ok (feed db3) (contributions db3)"
    and "rollups db3 = rollups db" and "distinct (map o_key (observations db3))"
    and "\<And>w t. (w, t) \<notin> set bs \<Longrightarrow> rollup_of (contributions db3) w t = rollup_of (contributions db) w t"
proof -
  define captured where "captured = (case d_captured_at doc of Some t \<Rightarrow> t | None \<Rightarrow> clock)"
  define okey where "okey = (case key of Some (c # k) \<Rightarrow> c # k | _ \<Rightarrow> d_platform doc @ '':'' @ d_tweet_id doc @ '':'' @ isof captured)"
  define ws where "ws = extract_keywords (d_text doc)"
  obtain f db1 where up: "upsert_feed doc (compute_clean_text_hash sha (d_text doc)) captured now db = (f, db1)" by fastforce
  define db2 where "db2 = add_observation okey (f_insight_id f) captured doc om db1"
  define bucket where "bucket = hour_of (f_first_seen_at f)"
  define cs where "cs = replace_contributions (f_insight_id f) bucket (f_likes f) now ws (contributions db2)"
  let ?bs = "affected_buckets (f_insight_id f) (contributions db) ws bucket"
  let ?undone = "db\<lparr>insight_seq := insight_seq db1, observation_seq := observation_seq db2\<rparr>"
  have result: "upsert_insight_record sha isof doc key om clock now db =
      (if \<not> storable doc om then (Inl (DbError ''value out of range for its column''), ?undone)
       else case rebuild_rollups ?bs (db2\<lparr>contributions := cs\<rparr>) of Inl e \<Rightarrow> (Inl e, ?undone) | Inr db4 \<Rightarrow> (Inr (), db4))"
    unfolding upsert_insight_record_def Let_def captured_def [symmetric] okey_def [symmetric] ws_def [symmetric]
    by (simp add: up db2_def [symmetric] bucket_def [symmetric] cs_def [symmetric] split: sum.split)
  note frame = upsert_feed_frame [OF up]
  have ok: "feed_ok db" and cok: "contributions_ok (feed db) (contributions db)"
    and okeys: "distinct (map o_key (observations db))" using inv by (simp_all add: fdb_inv_def)
  note rows = upsert_feed_rows [OF ok up]
  have undone: "fdb_inv ?undone" using inv frame(5) by (fastforce simp: fdb_inv_def feed_ok_def rollups_ok_def)
  have db2: "feed db2 = feed db1" "contributions db2 = contributions db" "rollups db2 = rollups db" "insight_seq db2 = insight_seq db1"
    "distinct (map o_key (observations db2))"
    using okeys by (auto simp: db2_def add_observation_def frame fetch_key_None_iff split: option.splits)
  have "kc_window c = bucket \<and> kc_likes c \<le> f_likes f" if c: "c \<in> own_rows (f_insight_id f) (contributions db)" for c
  proof -
    obtain g where "g \<in> set (feed db)" "contribution_of g c" using c cok by (auto simp: own_rows_def contributions_ok_def)
    with c rows(7) [of g] show ?thesis by (auto simp: own_rows_def contribution_of_def bucket_def)
  qed
  then have old: "\<forall>c\<in>own_rows (f_insight_id f) (contributions db). kc_window c = bucket \<and> kc_likes c \<le> f_likes f" by blast
  have "distinct (map contribution_key (contributions db))" using cok by (simp add: contributions_ok_def)
  note new = replace_contributions_rows [OF old this, where ws = ws and now = now,
      folded cs_def [unfolded db2(2)]]
  have ws: "set ws = feed_keywords f" by (simp add: ws_def rows(3))
  have "contributions_ok (feed db1) cs"
  proof (rule contributions_replaced [where f = f and db = db and cs = "contributions db"])
    show "distinct (map f_insight_id (feed db1))" using rows(1) by (simp add: feed_ok_def)
  qed (use rows(2,5,6) cok new in \<open>simp_all add: ws bucket_def\<close>)
  moreover have "rollup_of cs w t = rollup_of (contributions db) w t" if "(w, t) \<notin> set ?bs" for w t
  proof (rule rollup_of_unaffected [OF new(4)])
    fix c assume "c \<in> own_rows (f_insight_id f) (contributions db) \<union> own_rows (f_insight_id f) cs"
    with that new(1) show "\<not> in_bucket w t c"
      by (auto simp: affected_buckets_def own_rows_def in_bucket_def)
  qed
  moreover have "feed_ok (db2\<lparr>contributions := cs\<rparr>)" using rows(1) db2 by (simp add: feed_ok_def)
  ultimately show thesis using that [OF up [unfolded captured_def] result undone] db2 by simp
qed

lemma upsert_insight_inv:
  assumes inv: "fdb_inv db" and run: "upsert_insight_record sha isof doc key om clock now db = (r, db')"
  shows "fdb_inv db'"
proof -
  obtain f db1 db3 bs undone where
    "upsert_feed doc (compute_clean_text_hash sha (d_text doc)) (case d_captured_at doc of Some t \<Rightarrow> t | None \<Rightarrow> clock) now db = (f, db1)"
    and result: "upsert_insight_record sha isof doc key om clock now db =
      (if \<not> storable doc om then (Inl (DbError ''value out of range for its column''), undone)
       else case rebuild_rollups bs db3 of Inl e \<Rightarrow> (Inl e, undone) | Inr db4 \<Rightarrow> (Inr (), db4))"
    and undone: "fdb_inv undone" and "feed db3 = feed db1" and db3: "feed_ok db3" "contributions_ok (feed db3) (contributions db3)"
      "rollups db3 = rollups db" "distinct (map o_key (observations db3))"
    and others: "\<And>w t. (w, t) \<notin> set bs \<Longrightarrow> rollup_of (contributions db3) w t = rollup_of (contributions db) w t"
    by (rule upsert_prepared [OF inv, where sha = sha and doc = doc and clock = clock and now = now and isof = isof and key = key and om = om])
      (rule that; assumption)
  have rok: "rollups_ok db" using inv by (simp add: fdb_inv_def)
  show ?thesis
  proof (cases "\<exists>db4. rebuild_rollups bs db3 = Inr db4 \<and> storable doc om")
    case False
    then have "db' = undone" using result run by (auto split: if_splits sum.splits)
    with undone show ?thesis by simp
  next
    case True
    then have rebuilt: "rebuild_rollups bs db3 = Inr db'" using result run by (auto split: if_splits)
    obtain rs where rs: "db' = db3\<lparr>rollups := rs\<rparr>" "distinct (map rollup_key rs)"
      "\<And>w t. fetch_key rollup_key (w, t) rs = (if (w, t) \<in> set bs then rollup_of (contributions db3) w t else rollup_at db w t)"
      using rebuild_all [OF rebuilt] rok by (auto simp: db3 rollups_ok_def)
    then have "rollups_ok db'" using rok others by (auto simp: rollups_ok_def)
    then show ?thesis using db3 rs(1) by (auto simp: fdb_inv_def feed_ok_def)
  qed
qed

section \<open>The rollups are a recount of the feed\<close>

text \<open>
  The abstract view: for a keyword and an hour, the objects first seen in that hour whose text has the keyword,
  each counted once, with its likes.
\<close>

definition recount :: "feed_row list \<Rightarrow> string \<Rightarrow> time \<Rightarrow> rollup_row option" where
  "recount fs w t = (let hits = filter (\<lambda>f. w \<in> feed_keywords f \<and> hour_of (f_first_seen_at f) = t) fs
     in if hits = [] then None
        else Some \<lparr>kr_keyword = w, kr_window = t, kr_tweet_count = int (length hits), kr_likes_sum = sum_list (map f_likes hits)\<rparr>)"

lemma rollup_of_recount:
  assumes cok: "contributions_ok fs cs" and ids: "distinct (map f_insight_id fs)"
  shows "rollup_of cs w t = recount fs w t"
proof -
  let ?A = "filter (in_bucket w t) cs"
  let ?H = "filter (\<lambda>f. w \<in> feed_keywords f \<and> hour_of (f_first_seen_at f) = t) fs"
  let ?L = "\<lambda>i. f_likes (the (fetch_key f_insight_id i fs))"
  have L: "?L (f_insight_id f) = f_likes f" if "f \<in> set fs" for f
    using fetch_key_unique [OF ids that] by simp
  have "distinct (map contribution_key cs)" using cok by (simp add: contributions_ok_def)
  then have dA: "distinct (map kc_insight_id ?A)"
    by (auto simp: distinct_map in_bucket_def inj_on_def)
  have dH: "distinct (map f_insight_id ?H)" using ids by (rule distinct_map_filter)
  have hit: "\<exists>f\<in>set ?H. contribution_of f c" if "c \<in> set ?A" for c
    using that cok by (fastforce simp: contributions_ok_def contribution_of_def in_bucket_def)
  have "f_insight_id f \<in> kc_insight_id ` set ?A" if f: "f \<in> set ?H" for f
  proof -
    from f have "f \<in> set fs" "w \<in> feed_keywords f" "hour_of (f_first_seen_at f) = t" by auto
    then obtain c where c: "c \<in> set cs" "contribution_key c = (f_insight_id f, w)" using cok unfolding contributions_ok_def by blast
    then obtain g where g: "g \<in> set fs" "contribution_of g c" using cok unfolding contributions_ok_def by blast
    then have "g = f" using same_key_eq [OF ids] \<open>f \<in> set fs\<close> c by (auto simp: contribution_of_def)
    then have "c \<in> set ?A" using c g \<open>hour_of (f_first_seen_at f) = t\<close> by (auto simp: in_bucket_def contribution_of_def)
    then show ?thesis using c by (auto simp: image_iff)
  qed
  moreover have "kc_insight_id c \<in> f_insight_id ` set ?H" if "c \<in> set ?A" for c
    using hit [OF that] by (auto simp: contribution_of_def)
  ultimately have "set (map kc_insight_id ?A) = set (map f_insight_id ?H)" by auto
  then have perm: "mset (map kc_insight_id ?A) = mset (map f_insight_id ?H)"
    using dA dH by (simp only: set_eq_iff_mset_eq_distinct)
  have "length ?A = length ?H" using mset_eq_length [OF perm] by (simp only: length_map)
  moreover have "sum_list (map kc_likes ?A) = sum_list (map f_likes ?H)"
  proof -
    have A: "kc_likes c = ?L (kc_insight_id c)" if "c \<in> set ?A" for c
      using hit [OF that] L by (auto simp: contribution_of_def)
    have "map kc_likes ?A = map ?L (map kc_insight_id ?A)"
      unfolding map_map by (rule map_cong [OF refl]) (simp only: A o_apply)
    then have "sum_list (map kc_likes ?A) = sum_list (map ?L (map kc_insight_id ?A))" by (simp only:)
    also have "\<dots> = sum_list (map ?L (map f_insight_id ?H))"
      by (simp only: sum_mset_sum_list [symmetric] mset_map perm [unfolded mset_map])
    also have "map ?L (map f_insight_id ?H) = map f_likes ?H"
      unfolding map_map by (rule map_cong [OF refl]) (use L in simp)
    finally show ?thesis .
  qed
  ultimately show ?thesis
    by (simp add: rollup_of_def recount_def count_where_def bucket_likes_def Let_def)
qed

inductive feed_step :: "fdb \<Rightarrow> fdb \<Rightarrow> bool" where
  upsert: "feed_step db (snd (upsert_insight_record sha isof doc key om clock now db))"
| scan: "feed_step db (process_velocity_spike_detection threshold now insert_time db)"

interpretation feed_store: safe_system empty_fdb feed_step fdb_inv
proof unfold_locales
  fix db db' assume inv: "fdb_inv db" and step: "feed_step db db'"
  from step show "fdb_inv db'"
  proof (cases rule: feed_step.cases)
    case (upsert sha isof doc key om clock now)
    with inv show ?thesis
      using upsert_insight_inv [OF inv, of sha isof doc key om clock now "fst (upsert_insight_record sha isof doc key om clock now db)"] by simp
  next
    case (scan threshold now insert_time)
    with inv show ?thesis
      by (simp add: process_velocity_spike_detection_def fdb_inv_def feed_ok_def rollups_ok_def Let_def)
  qed
qed (rule fdb_inv_empty)

text \<open>
  C6: The incremental rollups refine a full recount: after any sequence of upserts, one transaction after the other, repeated or out
  of order, some of them failing, the rollup row of a keyword and an hour is the one a recount of the whole feed gives, and there
  is none where the recount finds no object. So no object is counted twice, a changed text moves it between
  keywords, and grown likes are followed.
\<close>

theorem rollups_match_feed:
  assumes "reachable_from feed_step empty_fdb db"
  shows "rollup_at db w t = recount (feed db) w t"
proof -
  have "fdb_inv db" by (rule feed_store.inv_reachable [OF assms])
  then show ?thesis using rollup_of_recount by (auto simp: fdb_inv_def rollups_ok_def feed_ok_def)
qed

text \<open>
  Two upserts that overlap: each puts its object's contribution into the same bucket, and its aggregate sees that one but not the
  other's, which is not committed. The second waits for the row the first writes and then writes its own count, so that the bucket
  with two contributions has a rollup of one.
\<close>

lemma overlapping_rebuilds_undercount:
  assumes c: "in_bucket w t c" "in_bucket w t d" and fit: "kc_likes c \<le> max_int4" "kc_likes d \<le> max_int4"
    and db: "contributions db = [c, d]" "rollups db = []"
  shows "\<exists>db'. and_then (write_rollup [c] w t db) (write_rollup [d] w t) = Inr db' \<and>
    (\<exists>r. rollup_at db' w t = Some r \<and> kr_tweet_count r = 1) \<and> count_where (in_bucket w t) (contributions db') = 2"
  using assms by (simp add: write_rollup_def bucket_likes_def)

definition sample_document :: document where
  "sample_document = \<lparr>d_platform = ''x'', d_tweet_id = ''1'', d_author_id = ''7'', d_author_handle = ''bob'',
     d_text = ''AI is news'', d_likes = 5, d_retweets = 0, d_label = ''NEUTRAL'', d_conversation_id = None,
     d_source_created_at = None, d_captured_at = Some 10\<rparr>"

definition sample_meta :: observation_meta where
  "sample_meta = \<lparr>om_task_id = Some 1, om_task_generation = Some 0, om_adapter_name = None, om_adapter_version = None\<rparr>"

definition sample_fdb :: fdb where
  "sample_fdb = snd (upsert_insight_record id (\<lambda>_. []) sample_document (Some ''k'') sample_meta 0 0 empty_fdb)"

lemma sample_fdb_reachable: "reachable_from feed_step empty_fdb sample_fdb"
  unfolding sample_fdb_def by (rule reachable_from_one) (rule feed_step.upsert)

lemma sample_keywords: "extract_keywords ''AI is news'' = [''ai'', ''is'', ''news'']"
  by code_simp

lemma sample_feed: "map (\<lambda>f. (f_text f, f_likes f, f_first_seen_at f)) (feed sample_fdb) = [(''AI is news'', 5, 10)]"
  by code_simp

theorem rollups_match_feed_witness:
  "rollup_at sample_fdb ''news'' 0 = Some \<lparr>kr_keyword = ''news'', kr_window = 0, kr_tweet_count = 1, kr_likes_sum = 5\<rparr>"
proof -
  obtain f where f: "feed sample_fdb = [f]" "f_text f = ''AI is news''" "f_likes f = 5" "f_first_seen_at f = 10"
    using sample_feed by auto
  show ?thesis
    unfolding rollups_match_feed [OF sample_fdb_reachable]
    by (simp add: recount_def f sample_keywords hour_of_def)
qed

end
