(* ===== verification/StoreProps.thy ===== *)
theory StoreProps
  imports FeedProps
begin

text \<open>
  What one upsert changes, what storing a batch counts, and that a batch delivered again adds no observation.
  The last section shows the one writer that leaves the rollups behind the feed.
\<close>

section \<open>One upsert\<close>

lemma rebuild_bucket_frame:
  "rebuild_rollup_bucket w t db = Inr db' \<Longrightarrow> feed db' = feed db \<and> observations db' = observations db \<and> contributions db' = contributions db"
  by (auto simp: rebuild_rollup_bucket_def write_rollup_def Let_def split: if_splits option.splits)

lemma rebuild_frame:
  "rebuild_rollups bs db = Inr db' \<Longrightarrow> feed db' = feed db \<and> observations db' = observations db \<and> contributions db' = contributions db"
proof (induction bs db rule: rebuild_rollups.induct)
  case (2 w t rest db)
  then show ?case by (auto simp: and_then_Inr dest!: rebuild_bucket_frame)
qed simp

abbreviation captured_at :: "document \<Rightarrow> time \<Rightarrow> time" where
  "captured_at doc clock \<equiv> (case d_captured_at doc of Some t \<Rightarrow> t | None \<Rightarrow> clock)"

lemma upsert_shape:
  assumes "key \<noteq> []" and "upsert_insight_record sha isof doc (Some key) om clock now db = (r, db')"
  obtains (upserted) f db1 where "r = Inr ()" and "storable doc om"
      and "upsert_feed doc (compute_clean_text_hash sha (d_text doc)) (captured_at doc clock) now db = (f, db1)"
      and "feed db' = feed db1" and "observations db' = observations (add_observation key (f_insight_id f) (captured_at doc clock) doc om db1)"
  | (failed) e where "r = Inl e" and "feed db' = feed db" and "observations db' = observations db"
      and "contributions db' = contributions db" and "rollups db' = rollups db"
proof -
  let ?t = "captured_at doc clock"
  obtain f db1 where up: "upsert_feed doc (compute_clean_text_hash sha (d_text doc)) ?t now db = (f, db1)"
    by fastforce
  obtain c k where key: "key = c # k" using assms(1) by (cases key) auto
  define ws where "ws = extract_keywords (d_text doc)"
  define db2 where "db2 = add_observation key (f_insight_id f) ?t doc om db1"
  define bucket where "bucket = hour_of (f_first_seen_at f)"
  define cs where "cs = replace_contributions (f_insight_id f) bucket (f_likes f) now ws (contributions db2)"
  define bs where "bs = affected_buckets (f_insight_id f) (contributions db) ws bucket"
  define old where "old = db\<lparr>insight_seq := insight_seq db1, observation_seq := observation_seq db2\<rparr>"
  have "upsert_insight_record sha isof doc (Some key) om clock now db =
      (if \<not> storable doc om then (Inl (DbError ''value out of range for its column''), old)
       else case rebuild_rollups bs (db2\<lparr>contributions := cs\<rparr>) of Inl e \<Rightarrow> (Inl e, old) | Inr db4 \<Rightarrow> (Inr (), db4))"
    unfolding upsert_insight_record_def Let_def ws_def [symmetric]
    by (simp add: up key db2_def [unfolded key, symmetric] bucket_def [symmetric] cs_def [symmetric] bs_def [symmetric] old_def [symmetric]
        split: sum.split)
  note run = this [unfolded assms(2)]
  have old: "feed old = feed db" "observations old = observations db" "contributions old = contributions db" "rollups old = rollups db"
    by (simp_all add: old_def)
  consider (raises) e where "r = Inl e" "db' = old"
    | (stores) "r = Inr ()" "storable doc om" "rebuild_rollups bs (db2\<lparr>contributions := cs\<rparr>) = Inr db'"
    using run by (cases "rebuild_rollups bs (db2\<lparr>contributions := cs\<rparr>)") (auto split: if_splits)
  then show thesis
  proof cases
    case raises
    then show ?thesis using failed old by simp
  next
    case stores
    have "feed db2 = feed db1" by (simp add: db2_def add_observation_def split: option.split)
    then show ?thesis using upserted [OF stores(1,2) up] rebuild_frame [OF stores(3)] by (simp add: db2_def)
  qed
qed

lemma observation_added:
  "fetch_key o_key k (observations (add_observation key i captured doc om db)) =
     (case fetch_key o_key k (observations db) of Some ob \<Rightarrow> Some ob
      | None \<Rightarrow> if k = key then Some \<lparr>o_id = observation_seq db, o_key = key, o_insight_id = i, o_captured_at = captured,
          o_likes = d_likes doc, o_retweets = d_retweets doc, o_task_id = om_task_id om,
          o_task_generation = om_task_generation om, o_adapter_name = om_adapter_name om,
          o_adapter_version = om_adapter_version om\<rparr> else None)"
  by (auto simp: add_observation_def fetch_key_append split: option.split)

lemma upsert_feed_lookup:
  assumes "upsert_feed doc h c n db = (f, db1)"
  shows "feed_by_tweet db1 t = (if t = d_tweet_id doc then Some f else feed_by_tweet db t)"
    and "f = (case feed_by_tweet db (d_tweet_id doc) of None \<Rightarrow> new_feed_row (insight_seq db) doc h c | Some g \<Rightarrow> merge_feed_row doc h c n g)"
proof -
  have lookup: "fetch_key f_tweet_id t (update_where P (merge_feed_row doc h c n) rows)
    = map_option (\<lambda>r. if P r then merge_feed_row doc h c n r else r) (fetch_key f_tweet_id t rows)" for P rows
    by (rule fetch_key_update_where) simp
  show "feed_by_tweet db1 t = (if t = d_tweet_id doc then Some f else feed_by_tweet db t)"
  proof (cases "feed_by_tweet db (d_tweet_id doc)")
    case None
    then have f: "f = new_feed_row (insight_seq db) doc h c" and db1: "feed db1 = feed db @ [f]"
      using assms by (auto simp: upsert_feed_def Let_def)
    have "f_tweet_id f = d_tweet_id doc" by (simp add: f)
    then show ?thesis using None unfolding db1 fetch_key_append by (cases "feed_by_tweet db t") (auto simp: fetch_key_def)
  next
    case (Some g)
    then have f: "f = merge_feed_row doc h c n g"
      and db1: "feed db1 = update_where (\<lambda>r. f_tweet_id r = d_tweet_id doc) (merge_feed_row doc h c n) (feed db)"
      using assms by (auto simp: upsert_feed_def)
    show ?thesis
    proof (cases "t = d_tweet_id doc")
      case True
      then show ?thesis unfolding db1 lookup using Some f fetch_key_SomeD [OF Some] by simp
    next
      case False
      have "f_tweet_id r = t" if "feed_by_tweet db t = Some r" for r using fetch_key_SomeD [OF that] by simp
      with False show ?thesis unfolding db1 lookup by (cases "feed_by_tweet db t") simp_all
    qed
  qed
  show "f = (case feed_by_tweet db (d_tweet_id doc) of None \<Rightarrow> new_feed_row (insight_seq db) doc h c | Some g \<Rightarrow> merge_feed_row doc h c n g)"
    using assms by (cases "feed_by_tweet db (d_tweet_id doc)") (simp_all add: upsert_feed_def Let_def)
qed

text \<open>
  C19: One upsert keeps one canonical row per source object: after it the object has the document's text and
  label, counters that never fall below what was seen before, and the time it was first seen; no other object
  changes; the observation stands under its key, as the first delivery wrote it. An upsert that raises changes
  no row at all.
\<close>

theorem upsert_outcome:
  assumes key: "key \<noteq> []" and run: "upsert_insight_record sha isof doc (Some key) om clock now db = (r, db')"
  shows "case r of
      Inr _ \<Rightarrow> (\<exists>f. feed_by_tweet db' (d_tweet_id doc) = Some f \<and> f_text f = d_text doc \<and> d_likes doc \<le> f_likes f \<and>
          d_retweets doc \<le> f_retweets f \<and>
          (\<forall>g. feed_by_tweet db (d_tweet_id doc) = Some g \<longrightarrow> f_likes f = max (f_likes g) (d_likes doc) \<and>
             f_retweets f = max (f_retweets g) (d_retweets doc) \<and> f_first_seen_at f = f_first_seen_at g \<and>
             f_last_seen_at g \<le> f_last_seen_at f)) \<and>
        (\<forall>t. t \<noteq> d_tweet_id doc \<longrightarrow> feed_by_tweet db' t = feed_by_tweet db t) \<and>
        (\<exists>ob. fetch_key o_key key (observations db') = Some ob) \<and>
        (\<forall>k ob. fetch_key o_key k (observations db) = Some ob \<longrightarrow> fetch_key o_key k (observations db') = Some ob)
    | Inl _ \<Rightarrow> feed db' = feed db \<and> observations db' = observations db \<and> contributions db' = contributions db \<and> rollups db' = rollups db"
  using key run
proof (cases rule: upsert_shape)
  case (upserted f db1)
  note lookup = upsert_feed_lookup [OF upserted(3)]
  have obs1: "observations db1 = observations db" by (rule upsert_feed_frame(3) [OF upserted(3)])
  have "feed_by_tweet db' (d_tweet_id doc) = Some f" using lookup(1) by (simp add: upserted(4))
  moreover have "f_text f = d_text doc \<and> d_likes doc \<le> f_likes f \<and> d_retweets doc \<le> f_retweets f \<and>
    (\<forall>g. feed_by_tweet db (d_tweet_id doc) = Some g \<longrightarrow> f_likes f = max (f_likes g) (d_likes doc) \<and>
             f_retweets f = max (f_retweets g) (d_retweets doc) \<and> f_first_seen_at f = f_first_seen_at g \<and>
             f_last_seen_at g \<le> f_last_seen_at f)"
    using lookup(2) by (auto split: option.splits)
  moreover have "t \<noteq> d_tweet_id doc \<Longrightarrow> feed_by_tweet db' t = feed_by_tweet db t" for t
    using lookup(1) [of t] by (simp add: upserted(4))
  moreover have "\<exists>ob. fetch_key o_key key (observations db') = Some ob"
    by (simp add: upserted(5) observation_added split: option.split)
  moreover have "fetch_key o_key k (observations db) = Some ob \<Longrightarrow> fetch_key o_key k (observations db') = Some ob" for k ob
    by (simp add: upserted(5) observation_added obs1)
  ultimately show ?thesis using upserted(1) by auto
qed simp

theorem upsert_outcome_witness:
  "\<exists>r db'. upsert_insight_record id (\<lambda>_. []) (sample_document\<lparr>d_likes := 3\<rparr>) (Some ''k'') sample_meta 0 0 sample_fdb = (r, db') \<and>
     (r = Inr () \<longrightarrow> (\<exists>f. feed_by_tweet db' ''1'' = Some f \<and> 3 \<le> f_likes f))"
proof -
  obtain r db' where run: "upsert_insight_record id (\<lambda>_. []) (sample_document\<lparr>d_likes := 3\<rparr>) (Some ''k'') sample_meta 0 0 sample_fdb = (r, db')"
    by fastforce
  have "''k'' \<noteq> []" by simp
  from upsert_outcome [OF this run] show ?thesis using run by (auto simp: sample_document_def)
qed

section \<open>A batch\<close>

abbreviation known_key :: "fdb \<Rightarrow> string \<Rightarrow> bool" where
  "known_key db k \<equiv> fetch_key o_key k (observations db) \<noteq> None"

lemma observation_key_nonempty: "observation_key_of task doc \<noteq> []"
  by (simp add: observation_key_of_def)

lemma upsert_keys:
  assumes "key \<noteq> []" and "upsert_insight_record sha isof doc (Some key) om clock now db = (r, db')"
  shows "known_key db k \<Longrightarrow> known_key db' k" and "r = Inr u \<Longrightarrow> known_key db' key"
    and "known_key db key \<Longrightarrow> observations db' = observations db"
proof -
  have "(known_key db k \<longrightarrow> known_key db' k) \<and> (r = Inr u \<longrightarrow> known_key db' key) \<and>
    (known_key db key \<longrightarrow> observations db' = observations db)"
    using assms
  proof (cases rule: upsert_shape)
    case (upserted f db1)
    have obs1: "observations db1 = observations db" by (rule upsert_feed_frame(3) [OF upserted(3)])
    then have "known_key db key \<longrightarrow> observations db' = observations db"
      by (auto simp: upserted(5) add_observation_def)
    then show ?thesis by (auto simp: upserted(5) observation_added obs1 split: option.splits)
  qed simp
  then show "known_key db k \<Longrightarrow> known_key db' k" "r = Inr u \<Longrightarrow> known_key db' key"
    "known_key db key \<Longrightarrow> observations db' = observations db"
    by blast+
qed

abbreviation valid_item :: "store_env \<Rightarrow> pydict \<Rightarrow> document option" where
  "valid_item se item \<equiv> make_document (se_pydantic se) (se_float se) item"

text \<open>Every valid item of a stored batch is observed, and a batch that is known already is not observed again.\<close>

lemma persist_counts:
  "persist_documents se task items (s, r) db = (Inr (s', r'), db') \<Longrightarrow>
     s' = s + length (filter (\<lambda>(i, _). valid_item se i \<noteq> None) items) \<and>
     r' = r + length (filter (\<lambda>(i, _). valid_item se i = None) items)"
proof (induction se task items "(s, r)" db arbitrary: s r rule: persist_documents.induct)
  case (2 se task item clock now items s r db)
  then show ?case by (fastforce split: option.splits sum.splits prod.splits)
qed simp

lemma persist_total:
  assumes "persist_documents se task items (0, 0) db = (Inr (stored, rejected), db')"
  shows "stored + rejected = length items"
proof -
  have "length (filter (\<lambda>(i, _). valid_item se i \<noteq> None) items) + length (filter (\<lambda>(i, _). valid_item se i = None) items) = length items"
    by (induction items) auto
  with persist_counts [OF assms] show ?thesis by simp
qed

lemma persist_observes:
  "persist_documents se task items cs db = (Inr cs', db') \<Longrightarrow>
     (\<forall>k. known_key db k \<longrightarrow> known_key db' k) \<and>
     (\<forall>x\<in>set items. \<forall>doc. valid_item se (fst x) = Some doc \<longrightarrow> known_key db' (observation_key_of task doc))"
proof (induction se task items cs db rule: persist_documents.induct)
  case (2 se task item clock now items s r db)
  show ?case
  proof (cases "valid_item se item")
    case None
    then show ?thesis using "2.IH"(1) [OF None] "2.prems" by auto
  next
    case (Some doc)
    obtain res db1 where up: "upsert_insight_record (se_sha256 se) (se_isoformat se) doc (Some (observation_key_of task doc))
        (task_meta (se_float se) task item) clock now db = (res, db1)" by fastforce
    then obtain u where res: "res = Inr u" using "2.prems" Some by (cases res) auto
    note keys = upsert_keys [OF observation_key_nonempty up]
    have run: "persist_documents se task items (s + 1, r) db1 = (Inr cs', db')" using "2.prems" Some up res by simp
    have ih: "(\<forall>k. known_key db1 k \<longrightarrow> known_key db' k) \<and>
      (\<forall>x\<in>set items. \<forall>doc. valid_item se (fst x) = Some doc \<longrightarrow> known_key db' (observation_key_of task doc))"
      using "2.IH"(2) [OF Some up [symmetric] res run] .
    moreover have "known_key db' (observation_key_of task doc)" using ih keys(2) [OF res] by blast
    ultimately show ?thesis using keys(1) Some by auto
  qed
qed simp

lemma persist_known:
  assumes "\<forall>x\<in>set items. \<forall>doc. valid_item se (fst x) = Some doc \<longrightarrow> known_key db (observation_key_of task doc)"
    and "persist_documents se task items cs db = (res, db')"
  shows "observations db' = observations db"
  using assms
proof (induction se task items cs db rule: persist_documents.induct)
  case (2 se task item clock now items s r db)
  show ?case
  proof (cases "valid_item se item")
    case None
    then show ?thesis using "2.IH"(1) [OF None] "2.prems" by auto
  next
    case (Some doc)
    obtain r1 db1 where up: "upsert_insight_record (se_sha256 se) (se_isoformat se) doc (Some (observation_key_of task doc))
        (task_meta (se_float se) task item) clock now db = (r1, db1)" by fastforce
    have "known_key db (observation_key_of task doc)" using "2.prems"(1) Some by simp
    then have same: "observations db1 = observations db" by (rule upsert_keys(3) [OF observation_key_nonempty up])
    show ?thesis
    proof (cases r1)
      case (Inl e)
      then show ?thesis using "2.prems"(2) Some up same by simp
    next
      case (Inr u)
      have "observations db' = observations db1"
        by (rule "2.IH"(2) [OF Some up [symmetric] Inr]) (use "2.prems" Some up Inr same in auto)
      with same show ?thesis by simp
    qed
  qed
qed simp

text \<open>
  C7: Storing a batch is complete and idempotent: when it ends without an exception, every item was either stored
  or rejected, the rejected ones being exactly those that fail validation, every stored document has its
  observation, and storing the same items again for the same delivery, at whatever times and with whatever
  outcome, adds no observation.
\<close>

theorem batch_stored_once:
  assumes run: "persist_documents se task items (0, 0) db = (Inr (stored, rejected), db')"
    and again: "map fst items' = map fst items" "persist_documents se task items' (0, 0) db' = (r, db'')"
  shows "stored + rejected = length items \<and> rejected = length (filter (\<lambda>(i, _). valid_item se i = None) items) \<and>
    (\<forall>x\<in>set items. \<forall>doc. valid_item se (fst x) = Some doc \<longrightarrow> known_key db' (observation_key_of task doc)) \<and>
    observations db'' = observations db'"
proof -
  note counts = persist_counts [OF run] and seen = persist_observes [OF run]
  have "\<forall>x\<in>set items'. \<forall>doc. valid_item se (fst x) = Some doc \<longrightarrow> known_key db' (observation_key_of task doc)"
  proof
    fix x assume "x \<in> set items'"
    then have "fst x \<in> set (map fst items)" unfolding again(1) [symmetric] by simp
    then obtain y where "y \<in> set items" "fst y = fst x" by auto
    then show "\<forall>doc. valid_item se (fst x) = Some doc \<longrightarrow> known_key db' (observation_key_of task doc)"
      using seen by (metis (no_types))
  qed
  then have "observations db'' = observations db'" by (rule persist_known [OF _ again(2)])
  then show ?thesis using counts conjunct2 [OF seen] persist_total [OF run] by simp
qed

definition sample_store :: store_env where
  "sample_store = \<lparr>se_pydantic = \<lparr>to_string = (\<lambda>v. case v of PStr s \<Rightarrow> Some s | _ \<Rightarrow> None),
      to_integer = (\<lambda>v. case v of PInt i \<Rightarrow> Some i | _ \<Rightarrow> None), to_datetime = (\<lambda>_. None)\<rparr>,
     se_float = (\<lambda>_. []), se_sha256 = id, se_isoformat = (\<lambda>_. [])\<rparr>"

definition sample_delivered :: task_lease where
  "sample_delivered = \<lparr>l_id = 1, l_task_type = ''CAPABILITY_REQUEST'', l_payload = [], l_attempts = 1,
     l_max_attempts = 5, l_generation = 0, l_owner = ''worker-1'', l_expires_at = 100\<rparr>"

definition sample_item :: pydict where
  "sample_item = [(''original_tweet_id'', PStr ''1''), (''author_id'', PStr ''7''), (''author_handle'', PStr ''@bob''),
     (''text_content'', PStr '' AI is  news''), (''engagement_likes'', PInt 5)]"

lemma sample_batch:
  "fst (persist_documents sample_store sample_delivered [(sample_item, 10, 10), ([], 11, 11)] (0, 0) empty_fdb) = Inr (1, 1)"
  by code_simp

theorem batch_stored_once_witness:
  "\<exists>db'. persist_documents sample_store sample_delivered [(sample_item, 10, 10), ([], 11, 11)] (0, 0) empty_fdb = (Inr (1, 1), db') \<and>
     observations (snd (persist_documents sample_store sample_delivered [(sample_item, 20, 20), ([], 21, 21)] (0, 0) db')) = observations db'"
proof -
  obtain db' where run: "persist_documents sample_store sample_delivered [(sample_item, 10, 10), ([], 11, 11)] (0, 0) empty_fdb = (Inr (1, 1), db')"
    using sample_batch by (metis prod.collapse)
  have "map fst [(sample_item, 20 :: time, 20 :: time), ([], 21, 21)] = map fst [(sample_item, 10 :: time, 10 :: time), ([], 11, 11)]" by simp
  from batch_stored_once [OF run this prod.collapse [symmetric]] run show ?thesis by blast
qed

section \<open>A batch that fits is stored\<close>

text \<open>
  Besides columns that are too narrow only the sum of a bucket can raise. It is at most the sum of all likes of the
  feed, so a feed whose likes fit an INT together with those of a batch takes the batch.
\<close>

abbreviation total_likes :: "fdb \<Rightarrow> int" where
  "total_likes db \<equiv> sum_list (map f_likes (feed db))"

definition likes_ok :: "fdb \<Rightarrow> bool" where
  "likes_ok db \<longleftrightarrow> list_all (\<lambda>f. 0 \<le> f_likes f) (feed db)"

lemma sum_list_filter_le: "list_all (\<lambda>x. (0 :: int) \<le> g x) xs \<Longrightarrow> sum_list (map g (filter P xs)) \<le> sum_list (map g xs)"
  by (induction xs) auto

lemma bucket_bound:
  assumes cok: "contributions_ok (feed db) cs" and ok: "feed_ok db" and likes: "likes_ok db"
  shows "bucket_likes w t cs \<le> total_likes db"
proof -
  have ids: "distinct (map f_insight_id (feed db))" using ok by (simp add: feed_ok_def)
  have pos: "0 \<le> total_likes db" using likes by (auto simp: likes_ok_def list_all_iff intro!: sum_list_nonneg)
  have eq: "rollup_of cs w t = recount (feed db) w t" by (rule rollup_of_recount [OF cok ids])
  show ?thesis
  proof (cases "count_where (in_bucket w t) cs = 0")
    case True
    then have "filter (in_bucket w t) cs = []" by (simp add: count_where_def)
    then show ?thesis using pos by (simp add: bucket_likes_def)
  next
    case False
    then have "bucket_likes w t cs = sum_list (map f_likes (filter (\<lambda>f. w \<in> feed_keywords f \<and> hour_of (f_first_seen_at f) = t) (feed db)))"
      using eq by (auto simp: rollup_of_def recount_def Let_def split: if_splits)
    then show ?thesis using sum_list_filter_le [OF likes [unfolded likes_ok_def]] by simp
  qed
qed

lemma rebuild_succeeds:
  "(\<And>w t. bucket_likes w t (contributions db) \<le> max_int4) \<Longrightarrow> \<exists>db'. rebuild_rollups bs db = Inr db'"
proof (induction bs db rule: rebuild_rollups.induct)
  case (2 w t rest db)
  have "\<not> max_int4 < bucket_likes w t (contributions db)" using "2.prems" [of w t] by simp
  then have "\<exists>db1. rebuild_rollup_bucket w t db = Inr db1"
    by (cases "rollup_at db w t") (simp_all add: rebuild_rollup_bucket_def write_rollup_def Let_def)
  then obtain db1 where one: "rebuild_rollup_bucket w t db = Inr db1" by blast
  then have "contributions db1 = contributions db" by (simp add: rebuild_bucket_frame)
  then show ?case using "2.IH" [of db1] "2.prems" one by simp
qed simp

lemma merged_total:
  assumes "distinct (map f_tweet_id rows)" and "list_all (\<lambda>f. 0 \<le> f_likes f) rows" and "0 \<le> d_likes doc"
  shows "sum_list (map f_likes (update_where (\<lambda>r. f_tweet_id r = t) (merge_feed_row doc h c n) rows))
    \<le> sum_list (map f_likes rows) + d_likes doc"
  using assms
proof (induction rows)
  case (Cons f rows)
  show ?case
  proof (cases "f_tweet_id f = t")
    case True
    then have "update_where (\<lambda>r. f_tweet_id r = t) (merge_feed_row doc h c n) rows = rows"
      using Cons.prems(1) by (fastforce simp: update_where_def True [symmetric] image_iff intro!: map_idI)
    then show ?thesis using True Cons.prems by simp
  next
    case False
    then show ?thesis using Cons by simp
  qed
qed simp

lemma upsert_feed_total:
  assumes ok: "feed_ok db" and likes: "likes_ok db" "0 \<le> d_likes doc" and run: "upsert_feed doc h c n db = (f, db1)"
  shows "likes_ok db1" and "total_likes db1 \<le> total_likes db + d_likes doc"
proof -
  have tweets: "distinct (map f_tweet_id (feed db))" using ok by (simp add: feed_ok_def)
  have "likes_ok db1 \<and> total_likes db1 \<le> total_likes db + d_likes doc"
  proof (cases "feed_by_tweet db (d_tweet_id doc)")
    case None
    then show ?thesis using run likes by (auto simp: upsert_feed_def Let_def likes_ok_def)
  next
    case (Some g)
    then have db1: "feed db1 = update_where (\<lambda>r. f_tweet_id r = d_tweet_id doc) (merge_feed_row doc h c n) (feed db)"
      using run by (auto simp: upsert_feed_def)
    have "likes_ok db1" using likes by (auto simp: likes_ok_def db1 list_all_iff set_update_where)
    then show ?thesis using merged_total [OF tweets likes(1) [unfolded likes_ok_def] likes(2)] by (simp add: db1)
  qed
  then show "likes_ok db1" and "total_likes db1 \<le> total_likes db + d_likes doc" by simp_all
qed

lemma upsert_succeeds:
  assumes inv: "fdb_inv db" and likes: "likes_ok db" "0 \<le> d_likes doc" and fits: "storable doc om" "total_likes db + d_likes doc \<le> max_int4"
  shows "\<exists>db'. upsert_insight_record sha isof doc key om clock now db = (Inr (), db') \<and> fdb_inv db' \<and> likes_ok db' \<and>
    total_likes db' \<le> total_likes db + d_likes doc"
proof -
  obtain f db1 db3 bs undone where
    up: "upsert_feed doc (compute_clean_text_hash sha (d_text doc)) (case d_captured_at doc of Some t \<Rightarrow> t | None \<Rightarrow> clock) now db = (f, db1)"
    and run: "upsert_insight_record sha isof doc key om clock now db =
      (if \<not> storable doc om then (Inl (DbError ''value out of range for its column''), undone)
       else case rebuild_rollups bs db3 of Inl e \<Rightarrow> (Inl e, undone) | Inr db4 \<Rightarrow> (Inr (), db4))"
    and "fdb_inv undone" and db3: "feed db3 = feed db1" "feed_ok db3" "contributions_ok (feed db3) (contributions db3)"
    and "rollups db3 = rollups db" and "distinct (map o_key (observations db3))"
    and "\<And>w t. (w, t) \<notin> set bs \<Longrightarrow> rollup_of (contributions db3) w t = rollup_of (contributions db) w t"
    by (rule upsert_prepared [OF inv, where sha = sha and doc = doc and clock = clock and now = now and isof = isof and key = key and om = om])
      (rule that; assumption)
  have "feed_ok db" using inv by (simp add: fdb_inv_def)
  from upsert_feed_total [OF this likes up] have total: "likes_ok db3" "total_likes db3 \<le> total_likes db + d_likes doc"
    by (simp_all add: likes_ok_def db3(1))
  have "bucket_likes w t (contributions db3) \<le> max_int4" for w t
    using bucket_bound [OF db3(3,2) total(1), of w t] total(2) fits(2) by linarith
  then obtain db4 where re: "rebuild_rollups bs db3 = Inr db4" using rebuild_succeeds by blast
  then have go: "upsert_insight_record sha isof doc key om clock now db = (Inr (), db4)" using run fits(1) by simp
  have "feed db4 = feed db3" using rebuild_frame [OF re] by simp
  then show ?thesis using go total upsert_insight_inv [OF inv go] by (auto simp: likes_ok_def)
qed

text \<open>What later upserts leave of an object that was stored.\<close>

abbreviation stored_doc :: "fdb \<Rightarrow> document \<Rightarrow> bool" where
  "stored_doc db doc \<equiv> (\<exists>f. feed_by_tweet db (d_tweet_id doc) = Some f \<and> d_likes doc \<le> f_likes f \<and> d_retweets doc \<le> f_retweets f)"

lemma upsert_stores:
  assumes key: "key \<noteq> []" and run: "upsert_insight_record sha isof doc (Some key) om clock now db = (Inr u, db')"
  shows "stored_doc db' doc" and "stored_doc db d \<Longrightarrow> stored_doc db' d"
proof -
  have "stored_doc db' doc \<and> (stored_doc db d \<longrightarrow> stored_doc db' d)" for d
    using key run
  proof (cases rule: upsert_shape)
    case (upserted f db1)
    note lookup = upsert_feed_lookup [OF upserted(3)]
    have "d_likes doc \<le> f_likes f \<and> d_retweets doc \<le> f_retweets f" using lookup(2) by (auto split: option.splits)
    moreover have "g_likes \<le> f_likes f \<and> g_retweets \<le> f_retweets f"
      if "feed_by_tweet db (d_tweet_id doc) = Some g" "g_likes \<le> f_likes g" "g_retweets \<le> f_retweets g" for g g_likes g_retweets
      using lookup(2) that by auto
    ultimately show ?thesis using lookup(1) by (auto simp: upserted(4))
  qed simp
  then show "stored_doc db' doc" and "stored_doc db d \<Longrightarrow> stored_doc db' d" by blast+
qed

lemma persist_succeeds:
  assumes "fdb_inv db" and "likes_ok db"
    and "list_all2 (\<lambda>(item, _) doc. valid_item se item = Some doc \<and> 0 \<le> d_likes doc \<and> storable doc (task_meta (se_float se) task item)) items docs"
    and "total_likes db + sum_list (map d_likes docs) \<le> max_int4"
  shows "\<exists>db'. persist_documents se task items (s, r) db = (Inr (s + length items, r), db') \<and> fdb_inv db' \<and>
    (\<forall>doc. doc \<in> set docs \<or> stored_doc db doc \<longrightarrow> stored_doc db' doc)"
  using assms
proof (induction items arbitrary: docs s db)
  case (Cons x items)
  obtain item clock now where x: "x = (item, clock, now)" by (cases x)
  obtain doc ds where docs: "docs = doc # ds" using Cons.prems(3) by (cases docs) auto
  have doc: "valid_item se item = Some doc" "0 \<le> d_likes doc" "storable doc (task_meta (se_float se) task item)"
    and ds: "list_all2 (\<lambda>(item, _) doc. valid_item se item = Some doc \<and> 0 \<le> d_likes doc \<and> storable doc (task_meta (se_float se) task item)) items ds"
    using Cons.prems(3) by (auto simp: docs x)
  have pos: "0 \<le> sum_list (map d_likes ds)" using ds
    by (induction items ds rule: list_all2_induct) auto
  obtain db1 where up: "upsert_insight_record (se_sha256 se) (se_isoformat se) doc (Some (observation_key_of task doc))
      (task_meta (se_float se) task item) clock now db = (Inr (), db1)" and inv1: "fdb_inv db1" "likes_ok db1"
    and total: "total_likes db1 \<le> total_likes db + d_likes doc"
    using upsert_succeeds [OF Cons.prems(1,2) doc(2,3)] Cons.prems(4) pos by (fastforce simp: docs)
  note keeps = upsert_stores [OF observation_key_nonempty up]
  have "total_likes db1 + sum_list (map d_likes ds) \<le> max_int4" using total Cons.prems(4) by (simp add: docs)
  from Cons.IH [OF inv1 ds this, of "s + 1"] obtain db' where
    rest: "persist_documents se task items (s + 1, r) db1 = (Inr (s + 1 + length items, r), db')" "fdb_inv db'"
      "\<forall>doc. doc \<in> set ds \<or> stored_doc db1 doc \<longrightarrow> stored_doc db' doc" by blast
  have "persist_documents se task (x # items) (s, r) db = (Inr (s + length (x # items), r), db')"
    using rest(1) by (simp add: x doc(1) up)
  moreover have "\<forall>d. d \<in> set docs \<or> stored_doc db d \<longrightarrow> stored_doc db' d"
    using rest(3) keeps by (simp only: docs list.set) blast
  ultimately show ?case using rest(2) by blast
qed auto

section \<open>Retention\<close>

text \<open>Deleting an old row takes its contributions with it and leaves the rollup that counted them.\<close>

lemma purge_leaves_rollups:
  "rollups (purge_feed days now db) = rollups db" and "feed_alerts (purge_feed days now db) = feed_alerts db"
  by (simp_all add: purge_feed_def Let_def)

end
