(* ===== verification/PyFloat.thy ===== *)
theory PyFloat
  imports PyScalar
begin

text \<open>
  Binary64 arithmetic as the configuration code uses it: rounding of an exact value to the nearest double
  (ties to even, overflow to infinity), true division of integers, multiplication, and \<open>float\<close> of a text.
  A negative zero is not kept apart from zero.
\<close>

section \<open>Rounding\<close>

function bits :: "int \<Rightarrow> int" where
  "bits n = (if n \<le> 0 then 0 else 1 + bits (n div 2))"
  by pat_completeness auto
termination by (relation "measure nat") auto

declare bits.simps [simp del]

definition rpow :: "int \<Rightarrow> int \<Rightarrow> rat" where
  "rpow b e = (if 0 \<le> e then of_int b ^ nat e else 1 / of_int b ^ nat (- e))"

text \<open>The exponent of the leading bit of a positive value.\<close>

definition exponent_of :: "rat \<Rightarrow> int" where
  "exponent_of r = (case quotient_of r of (p, q) \<Rightarrow>
     let e = bits p - bits q in if r < rpow 2 e then e - 1 else e)"

definition round_pos :: "rat \<Rightarrow> pyfloat" where
  "round_pos r = (let u = rpow 2 (max (exponent_of r - 52) (- 1074)); v = of_int (round_half_even (r / u)) * u
     in if 1024 \<le> exponent_of v then PosInf else Fin v)"

fun fl_neg :: "pyfloat \<Rightarrow> pyfloat" where
  "fl_neg (Fin r) = Fin (- r)"
| "fl_neg PosInf = NegInf"
| "fl_neg NegInf = PosInf"
| "fl_neg NaN = NaN"

definition to_double :: "rat \<Rightarrow> pyfloat" where
  "to_double r = (if r = 0 then Fin 0 else if 0 < r then round_pos r else fl_neg (round_pos (- r)))"

section \<open>Arithmetic\<close>

text \<open>\<open>a / b\<close> of two integers is rounded once, and raises when the result is too large.\<close>

definition true_div :: "int \<Rightarrow> int \<Rightarrow> exc + pyfloat" where
  "true_div a b = (if b = 0 then Inl (Other ''ZeroDivisionError'' ''division by zero'')
     else case to_double (of_int a / of_int b) of
       Fin v \<Rightarrow> Inr (Fin v)
     | _ \<Rightarrow> Inl (OverflowError ''integer division result too large for a float''))"

text \<open>A product with a positive finite factor.\<close>

fun fl_scale :: "rat \<Rightarrow> pyfloat \<Rightarrow> pyfloat" where
  "fl_scale k (Fin v) = to_double (k * v)"
| "fl_scale k f = f"

section \<open>float\<close>

text \<open>
  White space around is ignored and an underscore stands between two digits. The rest is a sign and either one of
  the three names, in any case, or digits with at most one point and an optional exponent.
\<close>

fun underscores_ok :: "bool \<Rightarrow> string \<Rightarrow> bool" where
  "underscores_ok prev [] = True"
| "underscores_ok prev (c # s) =
     (if c = CHR ''_'' then prev \<and> (case s of [] \<Rightarrow> False | d # _ \<Rightarrow> is_digit d) \<and> underscores_ok False s
      else underscores_ok (is_digit c) s)"

definition lower_char :: "char \<Rightarrow> char" where
  "lower_char c = (let n = (of_char c :: nat) in
     if (65 \<le> n \<and> n \<le> 90) \<or> (192 \<le> n \<and> n \<le> 222 \<and> n \<noteq> 215) then char_of (n + 32) else c)"

definition lower_str :: "string \<Rightarrow> string" where
  "lower_str s = map lower_char s"

definition all_digits :: "string \<Rightarrow> bool" where
  "all_digits s \<longleftrightarrow> s \<noteq> [] \<and> list_all is_digit s"

definition exponent_part :: "string \<Rightarrow> int option" where
  "exponent_part s = (case s of [] \<Rightarrow> Some 0
     | c # t \<Rightarrow>
         if lower_char c \<noteq> CHR ''e'' then None
         else if take 1 t = ''-'' then (if all_digits (tl t) then Some (- dec_val (tl t)) else None)
         else let ds = (if take 1 t = ''+'' then tl t else t) in if all_digits ds then Some (dec_val ds) else None)"

definition unsigned_float :: "string \<Rightarrow> pyfloat option" where
  "unsigned_float s =
     (if lower_str s \<in> {''inf'', ''infinity''} then Some PosInf
      else if lower_str s = ''nan'' then Some NaN
      else let whole = takeWhile is_digit s; r = dropWhile is_digit s;
               frac = (if take 1 r = ''.'' then takeWhile is_digit (tl r) else []);
               r' = (if take 1 r = ''.'' then dropWhile is_digit (tl r) else r)
           in if whole @ frac = [] then None
              else map_option (\<lambda>e. to_double (of_int (dec_val (whole @ frac)) * rpow 10 (e - int (length frac))))
                     (exponent_part r'))"

definition parse_float :: "string \<Rightarrow> exc + pyfloat" where
  "parse_float s =
     (let t = trim_int s; body = filter (\<lambda>c. c \<noteq> CHR ''_'') t;
          value = (if \<not> underscores_ok False t then None
                   else if take 1 body = ''-'' then map_option fl_neg (unsigned_float (tl body))
                   else if take 1 body = ''+'' then unsigned_float (tl body)
                   else unsigned_float body)
      in case value of None \<Rightarrow> Inl (ValueError ''could not convert string to float'') | Some f \<Rightarrow> Inr f)"

text \<open>Samples: values, the special names, what is refused.\<close>

lemma float_samples:
  "map parse_float ['' 1_0.5 '', ''-2.5e1'', ''.5'', ''5.'', ''-Infinity'', ''nan'']
     = [Inr (Fin (21 / 2)), Inr (Fin (- 25)), Inr (Fin (1 / 2)), Inr (Fin 5), Inr NegInf, Inr NaN]"
  "list_all (\<lambda>s. case parse_float s of Inl _ \<Rightarrow> True | Inr _ \<Rightarrow> False) ['''', ''.'', ''1e'', ''1_'', ''_1'', ''1._5'', ''1 5'', ''0x1'', ''--1'', ''e5'']"
  by code_simp+

end
