(* ===== verification/Streams.thy ===== *)
theory Streams
  imports Config Worker
begin

text \<open>
  The Redis side of the task queue: \<open>RedisStreamQueue\<close> of \<open>xingestion/control_plane.py\<close>, the fields that
  \<open>xingestion/outbox.py\<close> and the older dispatcher add to the stream, and how the worker loop gets its next delivery.
  Redis is a parameter: every command's reply is an argument. A reply holds texts or, from a client that does not
  decode, bytes.
\<close>

section \<open>Replies\<close>

datatype redis_val = RText string | RBytes "nat list"

text \<open>
  UTF-8, as far as its texts are Latin-1: one byte up to 127, two bytes from 128 to 255. Any other sequence is
  malformed or outside the texts of this model.
\<close>

fun utf8_encode :: "string \<Rightarrow> nat list" where
  "utf8_encode [] = []"
| "utf8_encode (c # s) = (let n = (of_char c :: nat) in
     if n < 128 then n # utf8_encode s else (192 + n div 64) # (128 + n mod 64) # utf8_encode s)"

definition decode_error :: exc where
  "decode_error = Other ''UnicodeDecodeError'' ''codec cannot decode the byte sequence''"

fun utf8_decode :: "nat list \<Rightarrow> exc + string" where
  "utf8_decode [] = Inr []"
| "utf8_decode (b # bs) =
     (if b < 128 then and_then (utf8_decode bs) (\<lambda>s. Inr (char_of b # s))
      else case bs of [] \<Rightarrow> Inl decode_error
        | b' # bs' \<Rightarrow>
            if (b = 194 \<or> b = 195) \<and> 128 \<le> b' \<and> b' < 192
            then and_then (utf8_decode bs') (\<lambda>s. Inr (char_of ((b - 192) * 64 + (b' - 128)) # s))
            else Inl decode_error)"

definition redis_text :: "redis_val \<Rightarrow> exc + string" where
  "redis_text v = (case v of RText s \<Rightarrow> Inr s | RBytes bs \<Rightarrow> utf8_decode bs)"

type_synonym redis_fields = "(redis_val \<times> redis_val) list"

text \<open>The comprehension: keys and values are decoded in order, a later key replaces an equal earlier one.\<close>

fun normalize_fields :: "redis_fields \<Rightarrow> exc + (string \<times> string) list" where
  "normalize_fields [] = Inr []"
| "normalize_fields ((k, v) # flds) =
     and_then (redis_text k) (\<lambda>key.
     and_then (redis_text v) (\<lambda>value.
     and_then (normalize_fields flds) (\<lambda>rest.
       Inr (if map_of rest key = None then (key, value) # rest else rest))))"

definition field_int :: "(string \<times> string) list \<Rightarrow> string \<Rightarrow> exc + int" where
  "field_int flds name = (case map_of flds name of None \<Rightarrow> Inl (KeyError name) | Some v \<Rightarrow> parse_int v)"

text \<open>An entry that was deleted while it was pending has no fields.\<close>

definition decode_delivery :: "redis_val \<times> redis_fields option \<Rightarrow> exc + delivery" where
  "decode_delivery entry = (case entry of (message_id, flds) \<Rightarrow>
     (case flds of
        None \<Rightarrow> Inl (Other ''AttributeError'' ''NoneType object has no attribute items'')
      | Some fs \<Rightarrow>
          and_then (normalize_fields fs) (\<lambda>normalized.
          and_then (redis_text message_id) (\<lambda>mid.
          and_then (field_int normalized ''task_id'') (\<lambda>task_id.
          and_then (field_int normalized ''generation'') (\<lambda>generation.
            Inr \<lparr>m_message_id = mid, m_task_id = task_id, m_generation = generation\<rparr>))))))"

fun decode_all :: "(redis_val \<times> redis_fields option) list \<Rightarrow> exc + delivery list" where
  "decode_all [] = Inr []"
| "decode_all (e # es) = and_then (decode_delivery e) (\<lambda>d. and_then (decode_all es) (\<lambda>ds. Inr (d # ds)))"

section \<open>RedisStreamQueue\<close>

fun contains :: "string \<Rightarrow> string \<Rightarrow> bool" where
  "contains p [] = (p = [])"
| "contains p (c # s) = (take (length p) (c # s) = p \<or> contains p s)"

definition ensure_group :: "exc + unit \<Rightarrow> exc + unit" where
  "ensure_group reply = (case reply of
     Inr _ \<Rightarrow> Inr ()
   | Inl (Other cls m) \<Rightarrow> if cls = ''ResponseError'' \<and> contains ''BUSYGROUP'' m then Inr () else Inl (Other cls m)
   | Inl e \<Rightarrow> Inl e)"

text \<open>\<open>XREADGROUP\<close> replies with the entries of each stream, or with nothing when the block time is over.\<close>

type_synonym read_reply = "exc + (string \<times> (redis_val \<times> redis_fields option) list) list option"

definition read_new :: "read_reply \<Rightarrow> exc + delivery list" where
  "read_new reply = and_then reply (\<lambda>response.
     decode_all (concat (map snd (case response of None \<Rightarrow> [] | Some streams \<Rightarrow> streams))))"

text \<open>
  \<open>XAUTOCLAIM\<close> replies with the next start id, the claimed entries and, since Redis 7, the ids it dropped: the
  number of parts and, from two parts on, the entries.
\<close>

record claim_reply =
  xa_parts :: nat
  xa_entries :: "(redis_val \<times> redis_fields option) list"

definition reclaim :: "exc + claim_reply \<Rightarrow> exc + delivery list" where
  "reclaim reply = and_then reply (\<lambda>response.
     if xa_parts response = 0 then Inr []
     else if 2 \<le> xa_parts response then decode_all (xa_entries response) else Inr [])"

text \<open>
  One turn of the worker loop: new entries first, then idle ones. None means that there is nothing to do.
\<close>

definition poll_delivery :: "read_reply \<Rightarrow> exc + claim_reply \<Rightarrow> exc + delivery option" where
  "poll_delivery new_reply claimed_reply =
     and_then (read_new new_reply) (\<lambda>new.
     and_then (if new = [] then reclaim claimed_reply else Inr []) (\<lambda>idle.
       Inr (next_delivery new idle)))"

section \<open>What the dispatchers publish\<close>

definition published_fields :: "claimed_event \<Rightarrow> (string \<times> string) list" where
  "published_fields ev =
     [(''task_id'', int_str (c_task_id ev)), (''generation'', int_str (c_generation ev)), (''event_type'', c_event_type ev)]"

definition legacy_fields :: "int \<Rightarrow> int \<Rightarrow> (string \<times> string) list" where
  "legacy_fields task_id generation = [(''task_id'', int_str task_id), (''generation'', int_str generation)]"

text \<open>How a stored field comes back: a client decodes the replies or leaves the bytes.\<close>

definition stored_as :: "bool \<Rightarrow> string \<Rightarrow> redis_val" where
  "stored_as decoding s = (if decoding then RText s else RBytes (utf8_encode s))"

definition stored_fields :: "bool \<Rightarrow> (string \<times> string) list \<Rightarrow> redis_fields" where
  "stored_fields decoding flds = map (\<lambda>(k, v). (stored_as decoding k, stored_as decoding v)) flds"

section \<open>Round trip\<close>

lemma utf8_char:
  assumes "n < 256" and "\<not> n < (128::nat)"
  shows "192 + n div 64 = 194 \<or> 192 + n div 64 = 195" and "(n div 64) * 64 + n mod 64 = n"
proof -
  have "2 \<le> n div 64" "n div 64 < 4" using assms by (auto simp: div_less_iff_less_mult)
  then show "192 + n div 64 = 194 \<or> 192 + n div 64 = 195" by linarith
qed simp

lemma utf8_decode_encode [simp]: "utf8_decode (utf8_encode s) = Inr s"
proof (induction s)
  case (Cons c s)
  show ?case
  proof (cases "(of_char c :: nat) < 128")
    case False
    have "(of_char c :: nat) < 256" by (metis of_char_mod_256 mod_less_divisor zero_less_numeral)
    from utf8_char [OF this False] show ?thesis using Cons False by (auto simp: Let_def)
  qed (use Cons in \<open>simp add: Let_def\<close>)
qed simp

lemma redis_text_stored [simp]: "redis_text (stored_as decoding s) = Inr s"
  by (simp add: redis_text_def stored_as_def)

lemma normalize_stored: "distinct (map fst flds) \<Longrightarrow> normalize_fields (stored_fields decoding flds) = Inr flds"
proof (induction flds)
  case (Cons kv flds)
  obtain k v where "kv = (k, v)" by fastforce
  with Cons show ?case by (auto simp: stored_fields_def map_of_eq_None_iff)
qed (simp add: stored_fields_def)

definition sql_bigint :: "int \<Rightarrow> bool" where
  "sql_bigint i \<longleftrightarrow> - 9223372036854775808 \<le> i \<and> i \<le> 9223372036854775807"

lemma parse_bigint: "sql_bigint i \<Longrightarrow> parse_int (int_str i) = Inr i"
proof -
  assume "sql_bigint i"
  then have "\<bar>i\<bar> < 10 ^ 19" by (simp add: sql_bigint_def abs_less_iff)
  from length_int_str [OF this] show ?thesis by (intro parse_int_str) simp
qed

lemma entry_decoded:
  assumes "sql_bigint (c_task_id ev)" and "sql_bigint (c_generation ev)"
    and "d = \<lparr>m_message_id = mid, m_task_id = c_task_id ev, m_generation = c_generation ev\<rparr>"
  shows "decode_delivery (stored_as decoding mid, Some (stored_fields decoding (published_fields ev))) = Inr d \<and>
    decode_delivery (stored_as decoding mid, Some (stored_fields decoding (legacy_fields (c_task_id ev) (c_generation ev)))) = Inr d \<and>
    poll_delivery (Inr (Some [(stream, [(stored_as decoding mid, Some (stored_fields decoding (published_fields ev)))])])) idle
      = Inr (Some d)"
proof -
  have new: "decode_delivery (stored_as decoding mid, Some (stored_fields decoding (published_fields ev))) = Inr d"
    unfolding decode_delivery_def prod.case option.case
    by (subst normalize_stored) (simp_all add: published_fields_def field_int_def parse_bigint assms)
  moreover have "decode_delivery (stored_as decoding mid, Some (stored_fields decoding (legacy_fields (c_task_id ev) (c_generation ev)))) = Inr d"
    unfolding decode_delivery_def prod.case option.case
    by (subst normalize_stored) (simp_all add: legacy_fields_def field_int_def parse_bigint assms)
  ultimately show ?thesis by (simp add: poll_delivery_def next_delivery_def read_new_def)
qed

text \<open>
  C26: A delivery names the event it was published for: what \<open>publish_claimed\<close> adds to the stream is decoded, by a client
  that decodes replies as by one that does not, to the same task and generation under the same message id, and
  so is what the older dispatcher adds. A worker that finds the entry new takes it.
\<close>

theorem delivery_roundtrip:
  assumes "sql_bigint (c_task_id ev)" and "sql_bigint (c_generation ev)"
    and "d = \<lparr>m_message_id = mid, m_task_id = c_task_id ev, m_generation = c_generation ev\<rparr>"
  shows "decode_delivery (stored_as decoding mid, Some (stored_fields decoding (published_fields ev))) = Inr d \<and>
    decode_delivery (stored_as decoding mid, Some (stored_fields decoding (legacy_fields (c_task_id ev) (c_generation ev)))) = Inr d \<and>
    poll_delivery (Inr (Some [(stream, [(stored_as decoding mid, Some (stored_fields decoding (published_fields ev)))])])) idle
      = Inr (Some d)"
  by (rule entry_decoded [OF assms])

theorem delivery_roundtrip_witness:
  "decode_delivery (RBytes [49, 45, 48], Some (stored_fields False
      [(''task_id'', int_str 42), (''generation'', int_str 3), (''event_type'', ''TASK_READY'')]))
     = Inr \<lparr>m_message_id = ''1-0'', m_task_id = 42, m_generation = 3\<rparr>"
proof -
  define ev where "ev = \<lparr>c_outbox_id = 1, c_task_id = 42, c_generation = 3, c_event_type = ''TASK_READY'', c_payload = [], c_claim_token = []\<rparr>"
  have "sql_bigint (c_task_id ev)" "sql_bigint (c_generation ev)" by (simp_all add: ev_def sql_bigint_def)
  from delivery_roundtrip [OF this refl, of False "''1-0''"] show ?thesis
    by (simp add: published_fields_def ev_def stored_as_def Let_def)
qed

end
