(* ===== verification/Adapters.thy ===== *)
theory Adapters
  imports Collector Streams Feed
begin

text \<open>
  The three source adapters of \<open>xingestion/collectors/\<close> and how \<open>main\<close> of \<open>worker.py\<close> chooses among
  them. twikit, playwright, the network and SHA-256 are parameters: what their calls return or raise is an argument.
\<close>

section \<open>The fixture\<close>

definition mock_adapter :: source_adapter where
  "mock_adapter = \<lparr>sa_name = ''mock'', sa_version = ''1'', sa_requires_session = False\<rparr>"

definition mock_item :: "string \<Rightarrow> string \<Rightarrow> int \<Rightarrow> pydict" where
  "mock_item query_hash query idx =
     [(''original_tweet_id'', PStr (''mock_'' @ query_hash @ ''_'' @ int_str idx)),
      (''author_id'', PStr (''mock_author_'' @ int_str idx)),
      (''author_handle'', PStr (''mock_handle_'' @ int_str idx)),
      (''text_content'', PStr (''Synthetic fixture record for collection query: '' @ query)),
      (''engagement_likes'', PInt (idx * 100)),
      (''engagement_retweets'', PInt (idx * 25)),
      (''conversation_id'', PStr (''mock_conversation_'' @ query_hash)),
      (''sentiment_label'', PStr ''NEUTRAL'')]"

definition mock_collect :: "(string \<Rightarrow> string) \<Rightarrow> collection_request \<Rightarrow> collection_batch" where
  "mock_collect sha256 req =
     (let query_hash = take 16 (sha256 (cr_query req))
      in \<lparr>cb_items = map (mock_item query_hash (cr_query req)) [1..min (cr_page_size req) 3],
          cb_next_cursor = PNone, cb_adapter_name = ''mock'', cb_adapter_version = ''1'',
          cb_metadata = [(''fixture'', PBool True), (''product'', PStr (cr_product req))]\<rparr>)"

section \<open>twikit\<close>

record twikit_user =
  tu_id :: pyval
  tu_screen_name :: pyval

text \<open>A result item; an attribute that is absent has the default of its \<open>getattr\<close>.\<close>

record tweet =
  tw_id :: pyval
  tw_user :: "twikit_user option"
  tw_text :: pyval
  tw_favorite_count :: pyval
  tw_retweet_count :: pyval
  tw_conversation_id :: pyval

record tweet_page =
  tp_tweets :: "tweet list"
  tp_next_cursor :: pyval

text \<open>
  What a call of the library raises, by the clauses of the handler: the four session errors, the rate limit with its
  reset time (an integer or nothing), the two server errors, any other \<open>TwitterException\<close>, an \<open>OSError\<close> or
  \<open>TimeoutError\<close>, and anything else.
\<close>

datatype twikit_error =
    SessionRefused string
  | TooManyRequests string "int option"
  | ServerTrouble string
  | OtherTwitter string
  | OsTrouble string
  | Foreign exc

record twikit_env =
  te_version :: string
  te_client :: "exc option"
  te_loads :: "string \<Rightarrow> exc + pyval"
  te_set_cookies :: "pydict \<Rightarrow> exc option"
  te_search :: "string \<Rightarrow> string \<Rightarrow> int \<Rightarrow> string option \<Rightarrow> twikit_error + tweet_page"
  te_now :: rat
  te_close :: "exc option"

definition twikit_adapter :: "string \<Rightarrow> source_adapter" where
  "twikit_adapter v = \<lparr>sa_name = ''twikit'', sa_version = v, sa_requires_session = True\<rparr>"

text \<open>\<open>int(value or 0)\<close>.\<close>

definition count_or_zero :: "pyval \<Rightarrow> exc + int" where
  "count_or_zero v = py_int (if truthy v then v else PInt 0)"

fun tweet_items :: "(rat \<Rightarrow> string) \<Rightarrow> tweet list \<Rightarrow> exc + pydict list" where
  "tweet_items fr [] = Inr []"
| "tweet_items fr (t # ts) = (case tw_user t of
     None \<Rightarrow> tweet_items fr ts
   | Some user \<Rightarrow>
       and_then (count_or_zero (tw_favorite_count t)) (\<lambda>likes.
       and_then (count_or_zero (tw_retweet_count t)) (\<lambda>retweets.
       and_then (tweet_items fr ts) (\<lambda>items. Inr (
         [(''original_tweet_id'', PStr (py_str fr (tw_id t))),
          (''author_id'', PStr (py_str fr (tu_id user))),
          (''author_handle'', PStr (py_str fr (tu_screen_name user))),
          (''text_content'', PStr (py_str fr (tw_text t))),
          (''engagement_likes'', PInt likes),
          (''engagement_retweets'', PInt retweets),
          (''conversation_id'', PStr (py_str fr (if truthy (tw_conversation_id t) then tw_conversation_id t else tw_id t))),
          (''sentiment_label'', PStr ''NEUTRAL'')] # items)))))"

text \<open>
  \<open>max(float(reset_at) - time.time(), 1.0)\<close>. A difference of \<open>-inf\<close> gives 1.0. It is never \<open>inf\<close>: for that the clock would
  have to read less than minus \<open>2^969\<close> seconds.
\<close>

definition retry_after_of :: "int option \<Rightarrow> rat \<Rightarrow> exc + rat option" where
  "retry_after_of reset_at now = (case reset_at of
     None \<Rightarrow> Inr None
   | Some r \<Rightarrow>
       if r = 0 then Inr None
       else case to_double (of_int r) of
         Fin a \<Rightarrow> (case to_double (a - now) of
             Fin d \<Rightarrow> Inr (Some (if d < 1 then 1 else d))
           | NegInf \<Rightarrow> Inr (Some 1)
           | _ \<Rightarrow> Inl (OverflowError ''cannot convert float infinity to integer''))
       | _ \<Rightarrow> Inl (OverflowError ''int too large to convert to float''))"

fun twikit_failure :: "rat \<Rightarrow> twikit_error \<Rightarrow> exc" where
  "twikit_failure now (SessionRefused m) = Collection AuthenticationFailure m None"
| "twikit_failure now (TooManyRequests m reset_at) =
     (case retry_after_of reset_at now of Inl e \<Rightarrow> e | Inr retry_after \<Rightarrow> Collection RateLimited m retry_after)"
| "twikit_failure now (ServerTrouble m) = Collection TransientNetworkFailure m None"
| "twikit_failure now (OtherTwitter m) = Collection CollectorChanged m None"
| "twikit_failure now (OsTrouble m) = Collection TransientNetworkFailure m None"
| "twikit_failure now (Foreign e) = e"

definition invalid_cookies :: "int \<Rightarrow> exc" where
  "invalid_cookies token_id = Collection AuthenticationFailure
     (''session '' @ int_str token_id @ '' contains invalid cookie data'') None"

text \<open>Every \<open>Exception\<close> of the cookie block is an authentication failure; a cancellation goes through.\<close>

definition install_cookies :: "twikit_env \<Rightarrow> token_lease \<Rightarrow> exc + unit" where
  "install_cookies te session = (case te_loads te (tk_value session) of
     Inr (PDict cookies) \<Rightarrow>
       (case te_set_cookies te cookies of
          None \<Rightarrow> Inr ()
        | Some CancelledError \<Rightarrow> Inl CancelledError
        | Some _ \<Rightarrow> Inl (invalid_cookies (tk_token_id session)))
   | _ \<Rightarrow> Inl (invalid_cookies (tk_token_id session)))"

definition twikit_page :: "(rat \<Rightarrow> string) \<Rightarrow> twikit_env \<Rightarrow> collection_request \<Rightarrow> token_lease \<Rightarrow> exc + collection_batch" where
  "twikit_page fr te req session =
     and_then (install_cookies te session) (\<lambda>_.
       case te_search te (cr_query req) (cr_product req) (max 1 (min (cr_page_size req) 20)) (cr_cursor req) of
         Inl e \<Rightarrow> Inl (twikit_failure (te_now te) e)
       | Inr page \<Rightarrow> and_then (tweet_items fr (tp_tweets page)) (\<lambda>items.
           Inr \<lparr>cb_items = items, cb_next_cursor = tp_next_cursor page, cb_adapter_name = ''twikit'',
                cb_adapter_version = te_version te,
                cb_metadata = [(''session_id'', PInt (tk_token_id session)), (''query'', PStr (cr_query req))]\<rparr>))"

text \<open>What the \<open>finally\<close> clause raises replaces the outcome.\<close>

definition twikit_collect ::
  "(rat \<Rightarrow> string) \<Rightarrow> twikit_env \<Rightarrow> collection_request \<Rightarrow> token_lease option \<Rightarrow> exc + collection_batch" where
  "twikit_collect fr te req session = (case session of
     None \<Rightarrow> Inl (Collection AuthenticationFailure ''twikit adapter requires a session'' None)
   | Some s \<Rightarrow>
       (case te_client te of
          Some e \<Rightarrow> Inl e
        | None \<Rightarrow> (case te_close te of Some e \<Rightarrow> Inl e | None \<Rightarrow> twikit_page fr te req s)))"

section \<open>playwright\<close>

text \<open>The search of \<open>/([^/]+)/status/(\d+)\<close>.\<close>

fun status_path :: "string \<Rightarrow> (string \<times> string) option" where
  "status_path [] = None"
| "status_path (c # s) =
     (let handle = takeWhile (\<lambda>d. d \<noteq> CHR ''/'') s; r = dropWhile (\<lambda>d. d \<noteq> CHR ''/'') s;
          digits = takeWhile is_digit (drop 8 r)
      in if c = CHR ''/'' \<and> handle \<noteq> [] \<and> take 8 r = ''/status/'' \<and> digits \<noteq> []
         then Some (handle, digits) else status_path s)"

text \<open>\<open>quote_plus\<close>.\<close>

definition upper_hex :: "nat \<Rightarrow> char" where
  "upper_hex d = char_of (if d < 10 then 48 + d else 55 + d)"

definition quote_byte :: "nat \<Rightarrow> string" where
  "quote_byte b =
     (if (48 \<le> b \<and> b \<le> 57) \<or> (65 \<le> b \<and> b \<le> 90) \<or> (97 \<le> b \<and> b \<le> 122) \<or> b \<in> {45, 46, 95, 126} then [char_of b]
      else if b = 32 then ''+''
      else [CHR ''%'', upper_hex (b div 16), upper_hex (b mod 16)])"

definition quote_plus :: "string \<Rightarrow> string" where
  "quote_plus s = concat (map quote_byte (utf8_encode s))"

definition search_url :: "string \<Rightarrow> string" where
  "search_url query = ''https://x.com/search?q='' @ quote_plus query @ ''&src=typed_query&f=live''"

text \<open>An article of the page: its text, and the link to the status or nothing; each may raise.\<close>

record article =
  ar_text :: "exc + string"
  ar_href :: "exc + string option"

record browser_env =
  be_installed :: bool
  be_launch :: "exc option"
  be_close :: "exc option"
  be_loads :: "string \<Rightarrow> exc + pyval"
  be_articles :: "string \<Rightarrow> (string \<times> string) list \<Rightarrow> exc + article list"
  be_sha256 :: "string \<Rightarrow> string"

definition playwright_adapter :: source_adapter where
  "playwright_adapter = \<lparr>sa_name = ''playwright_search_recovery'', sa_version = ''1'', sa_requires_session = False\<rparr>"

definition browser_cookies :: "(rat \<Rightarrow> string) \<Rightarrow> browser_env \<Rightarrow> token_lease option \<Rightarrow> (string \<times> string) list" where
  "browser_cookies fr be session = (case session of
     None \<Rightarrow> []
   | Some s \<Rightarrow> (case be_loads be (tk_value s) of
       Inr (PDict cookies) \<Rightarrow> map (\<lambda>(name, v). (name, py_str fr v)) cookies
     | _ \<Rightarrow> []))"

text \<open>The handle and the id of an article; every \<open>Exception\<close> on the way leaves what was there before.\<close>

definition article_ids :: "browser_env \<Rightarrow> string \<Rightarrow> exc + string option \<Rightarrow> exc + string \<times> string" where
  "article_ids be text href = (case href of
     Inl CancelledError \<Rightarrow> Inl CancelledError
   | _ \<Rightarrow>
     (let link = (case href of Inr (Some l) \<Rightarrow> l | _ \<Rightarrow> [])
      in Inr (case status_path link of
          Some (handle, tweet_id) \<Rightarrow> (handle, tweet_id)
        | None \<Rightarrow> (''unknown'', ''browser_'' @ take 24 (be_sha256 be text)))))"

definition browser_item :: "string \<Rightarrow> string \<Rightarrow> string \<Rightarrow> pydict" where
  "browser_item handle tweet_id text =
     [(''original_tweet_id'', PStr tweet_id),
      (''author_id'', PStr (''handle:'' @ handle)),
      (''author_handle'', PStr handle),
      (''text_content'', PStr text),
      (''engagement_likes'', PInt 0),
      (''engagement_retweets'', PInt 0),
      (''conversation_id'', PStr tweet_id),
      (''sentiment_label'', PStr ''NEUTRAL'')]"

fun browser_items :: "browser_env \<Rightarrow> article list \<Rightarrow> exc + pydict list" where
  "browser_items be [] = Inr []"
| "browser_items be (a # as) = (case ar_text a of
     Inl CancelledError \<Rightarrow> Inl CancelledError
   | Inl _ \<Rightarrow> browser_items be as
   | Inr text \<Rightarrow>
       and_then (article_ids be text (ar_href a)) (\<lambda>(handle, tweet_id).
       and_then (browser_items be as) (\<lambda>items. Inr (browser_item handle tweet_id text # items))))"

text \<open>
  One browser run: the launch, the page and its articles, the close, whose exception replaces the outcome. Every
  \<open>Exception\<close> of it becomes \<open>CollectorChanged\<close>.
\<close>

definition browser_run :: "(rat \<Rightarrow> string) \<Rightarrow> browser_env \<Rightarrow> collection_request \<Rightarrow> token_lease option \<Rightarrow> exc + pydict list" where
  "browser_run fr be req session = (case be_launch be of
     Some e \<Rightarrow> Inl e
   | None \<Rightarrow>
       (case be_close be of
          Some e \<Rightarrow> Inl e
        | None \<Rightarrow>
            and_then (be_articles be (search_url (cr_query req)) (browser_cookies fr be session)) (\<lambda>articles.
              browser_items be (take (nat (max 1 (cr_page_size req))) articles))))"

definition browser_collect ::
  "(rat \<Rightarrow> string) \<Rightarrow> browser_env \<Rightarrow> collection_request \<Rightarrow> token_lease option \<Rightarrow> exc + collection_batch" where
  "browser_collect fr be req session =
     (if \<not> be_installed be
      then Inl (Collection CollectorChanged ''playwright recovery adapter is not installed'' None)
      else case browser_run fr be req session of
        Inl CancelledError \<Rightarrow> Inl CancelledError
      | Inl e \<Rightarrow> Inl (Collection CollectorChanged (''browser recovery adapter failed: '' @ exc_str e) None)
      | Inr items \<Rightarrow>
          Inr \<lparr>cb_items = items, cb_next_cursor = PNone, cb_adapter_name = ''playwright_search_recovery'',
               cb_adapter_version = ''1'',
               cb_metadata = [(''query'', PStr (cr_query req)), (''fidelity'', PStr ''recovery_partial'')]\<rparr>)"

section \<open>The choice of the worker\<close>

definition primary_adapter :: "settings \<Rightarrow> string \<Rightarrow> source_adapter" where
  "primary_adapter s v = (if mock_mode s then mock_adapter else twikit_adapter v)"

definition recovery_adapter :: "settings \<Rightarrow> source_adapter option" where
  "recovery_adapter s = (if browser_recovery_enabled s \<and> \<not> mock_mode s then Some playwright_adapter else None)"

definition worker_ids :: "settings \<Rightarrow> string list" where
  "worker_ids s = map (\<lambda>i. ''worker-'' @ int_str (i + 1)) [0..worker_concurrency s - 1]"

text \<open>A call of an adapter's \<open>collect\<close>, dispatched on the adapter.\<close>

definition adapter_answer ::
  "(rat \<Rightarrow> string) \<Rightarrow> twikit_env \<Rightarrow> browser_env \<Rightarrow> source_adapter \<Rightarrow> collection_request \<Rightarrow> token_lease option \<Rightarrow>
     exc + collection_batch" where
  "adapter_answer fr te be adapter req session =
     (if adapter = mock_adapter then Inr (mock_collect (be_sha256 be) req)
      else if adapter = playwright_adapter then browser_collect fr be req session
      else twikit_collect fr te req session)"

end
