(* ===== verification/ConfigProps.thy ===== *)
theory ConfigProps
  imports Config
begin

text \<open>
  What rounding does to a value, and with it: the settings that are accepted satisfy what the components demand,
  and the defaults that are computed from the lease are accepted for every lease but one second.
\<close>

section \<open>Rounding\<close>

lemma rpow_powi: "rpow b e = of_int b powi e"
  by (simp add: rpow_def power_int_def divide_inverse power_inverse)

lemma bits_bounds: "0 < n \<Longrightarrow> 0 < bits n \<and> 2 ^ nat (bits n - 1) \<le> n \<and> n < 2 ^ nat (bits n)"
proof (induction n rule: bits.induct)
  case (1 n)
  note unfold = bits.simps [of n]
  show ?case
  proof (cases "n = 1")
    case True
    then show ?thesis by (simp add: bits.simps [of 1] bits.simps [of 0])
  next
    case False
    with 1 have "0 < n div 2" by simp
    with 1 have ih: "0 < bits (n div 2)" "2 ^ nat (bits (n div 2) - 1) \<le> n div 2" "n div 2 < 2 ^ nat (bits (n div 2))" by auto
    then obtain k where k: "bits (n div 2) = int (Suc k)" by (metis zero_less_imp_eq_int gr0_conv_Suc)
    with ih have "2 ^ k \<le> n div 2" "n div 2 < 2 ^ Suc k" by (simp_all add: nat_add_distrib)
    then have "2 * 2 ^ k \<le> n" "n < 4 * 2 ^ k" by simp_all
    with \<open>0 < n\<close> k show ?thesis by (simp add: unfold nat_add_distrib)
  qed
qed

lemma exponent_of_le:
  assumes "0 < r"
  shows "2 powi exponent_of r \<le> r"
proof -
  obtain p q where q: "quotient_of r = (p, q)" by fastforce
  then have r: "r = of_int p / of_int q" and "0 < q" by (rule quotient_of_div, rule quotient_of_denom_pos)
  with assms have "0 < p" by (simp add: zero_less_divide_iff)
  obtain b c where b: "bits p = int (Suc b)" and c: "bits q = int c"
    using bits_bounds [OF \<open>0 < p\<close>] bits_bounds [OF \<open>0 < q\<close>] by (metis zero_less_imp_eq_int gr0_conv_Suc)
  have "2 ^ b \<le> p" "q < 2 ^ c" using bits_bounds [OF \<open>0 < p\<close>] bits_bounds [OF \<open>0 < q\<close>] by (simp_all add: b c)
  then have lo: "(2::rat) ^ b \<le> of_int p" and hi: "of_int q < (2::rat) ^ c"
    by (metis of_int_le_iff of_int_numeral of_int_power, metis of_int_less_iff of_int_numeral of_int_power)
  have "(2::rat) powi (bits p - bits q - 1) = 2 ^ b / 2 ^ c" by (simp add: b c power_int_diff)
  also have "\<dots> \<le> of_int p / of_int q" using lo hi \<open>0 < q\<close> \<open>0 < p\<close> by (intro frac_le) auto
  finally have "(2::rat) powi (bits p - bits q - 1) \<le> r" by (simp add: r)
  then show ?thesis by (auto simp: exponent_of_def q Let_def rpow_powi)
qed

lemma round_half_even_near: "\<bar>of_int (round_half_even r) - r\<bar> \<le> 1 / 2"
proof -
  have "of_int \<lfloor>r\<rfloor> \<le> r" "r < of_int \<lfloor>r\<rfloor> + 1" by linarith+
  then show ?thesis by (auto simp: round_half_even_def Let_def abs_le_iff)
qed

lemma small_part: "0 \<le> (r::rat) \<Longrightarrow> r / 2 ^ 53 \<le> r / 2"
  by (intro divide_left_mono) simp_all

text \<open>Away from the ends of the range, the relative error of rounding is at most one part in \<open>2 ^ 53\<close>.\<close>

lemma to_double_near:
  assumes lo: "1 / 4 \<le> r" and hi: "r \<le> 2 ^ 1020"
  obtains v where "to_double r = Fin v" and "\<bar>v - r\<bar> \<le> r / 2 ^ 53"
proof -
  have r: "0 < r" using lo by simp
  define u :: rat where "u = 2 powi max (exponent_of r - 52) (- 1074)"
  have "(2::rat) powi (- 1074) \<le> 2 powi (- 54)" by (rule power_int_increasing) simp_all
  also have "\<dots> = 1 / 4 / 2 ^ 52" by (simp add: power_int_def power_divide)
  also have "\<dots> \<le> r / 2 ^ 52" using lo by (intro divide_right_mono) auto
  finally have small: "(2::rat) powi (- 1074) \<le> r / 2 ^ 52" .
  have "(2::rat) powi (exponent_of r - 52) = 2 powi exponent_of r / 2 ^ 52" by (simp add: power_int_diff)
  also have "\<dots> \<le> r / 2 ^ 52" using exponent_of_le [OF r] by (intro divide_right_mono) auto
  finally have u: "u \<le> r / 2 ^ 52" "0 < u" using small by (auto simp: u_def max_def)
  define v where "v = of_int (round_half_even (r / u)) * u"
  have "v - r = (of_int (round_half_even (r / u)) - r / u) * u" using u(2) by (simp add: v_def left_diff_distrib)
  then have "\<bar>v - r\<bar> = \<bar>of_int (round_half_even (r / u)) - r / u\<bar> * u" using u(2) by (simp add: abs_mult)
  also have "\<dots> \<le> 1 / 2 * u" using round_half_even_near u(2) by (intro mult_right_mono) auto
  also have "\<dots> \<le> r / 2 ^ 53" using u(1) by simp
  finally have near: "\<bar>v - r\<bar> \<le> r / 2 ^ 53" .
  have "v \<le> r + r / 2 ^ 53" and "r - r / 2 ^ 53 \<le> v" using near by linarith+
  moreover have "r / 2 ^ 53 \<le> r / 2" using r by (intro small_part) simp
  ultimately have v: "0 < v" "v \<le> 2 * 2 ^ 1020" using r hi by linarith+
  have "(2::rat) powi exponent_of v \<le> v" by (rule exponent_of_le [OF v(1)])
  also have "v < 2 powi 1024" using v(2) by (simp add: power_int_def)
  finally have below: "(2::rat) powi exponent_of v < 2 powi 1024" .
  have "exponent_of v < 1024"
  proof (rule ccontr)
    assume "\<not> exponent_of v < 1024"
    then have "(2::rat) powi 1024 \<le> 2 powi exponent_of v" by (intro power_int_increasing) simp_all
    with below show False by simp
  qed
  then have "to_double r = Fin v"
    using r by (simp add: to_double_def round_pos_def rpow_powi u_def v_def Let_def)
  with near show thesis using that by blast
qed

section \<open>Accepted settings\<close>

lemma positive_int_Inr: "positive_int env name d = Inr v \<Longrightarrow> 0 < v"
  by (auto simp: positive_int_def and_then_Inr split: if_splits)

lemma positive_float_Inr: "positive_float env name d = Inr v \<Longrightarrow> \<not> fl_le v (Fin 0)"
  by (auto simp: positive_float_def and_then_Inr split: if_splits)

lemma pool_settings_Inr: "pool_settings env = Inr (lo, hi) \<Longrightarrow> 0 < lo \<and> lo \<le> hi"
  by (auto simp: pool_settings_def and_then_Inr dest: positive_int_Inr split: if_splits)

lemma lease_settings_Inr:
  "lease_settings env = Inr (lease, hb, reclaim) \<Longrightarrow>
     0 < lease \<and> \<not> fl_le hb (Fin 0) \<and> \<not> fl_le (fl_of_int lease) hb \<and> 0 < reclaim \<and>
     \<not> fl_le (fl_of_int reclaim) (fl_scale 1000 hb)"
  by (auto simp: lease_settings_def and_then_Inr dest: positive_int_Inr positive_float_Inr split: if_splits)

definition settings_ok :: "settings \<Rightarrow> bool" where
  "settings_ok s \<longleftrightarrow>
     0 < db_pool_min_size s \<and> db_pool_min_size s \<le> db_pool_max_size s \<and>
     0 < task_lease_seconds s \<and> 0 < task_read_block_ms s \<and> 0 < task_reclaim_idle_ms s \<and>
     0 < outbox_batch_size s \<and> 0 < worker_concurrency s \<and> 0 < token_lease_seconds s \<and>
     0 < token_cooldown_seconds s \<and> 1 \<le> collector_page_size s \<and> collector_page_size s \<le> 20 \<and>
     0 < collector_max_pages s \<and> http_proxy s \<noteq> Some [] \<and>
     list_all (\<lambda>f. \<not> fl_le f (Fin 0))
       [task_heartbeat_seconds s, outbox_poll_seconds s, idle_sleep_seconds s, request_timeout_seconds s] \<and>
     \<not> fl_le (fl_of_int (task_lease_seconds s)) (task_heartbeat_seconds s) \<and>
     \<not> fl_le (fl_of_int (task_reclaim_idle_ms s)) (fl_scale 1000 (task_heartbeat_seconds s))"

lemma from_env_ok:
  assumes "from_env env = Inr s"
  shows "settings_ok s"
proof -
  from assms obtain lo hi lease hb reclaim block poll batch conc idle tl cd to ps mp where
    steps: "pool_settings env = Inr (lo, hi)" "lease_settings env = Inr (lease, hb, reclaim)"
      "positive_int env ''TASK_READ_BLOCK_MS'' 2000 = Inr block" "positive_float env ''OUTBOX_POLL_SECONDS'' (Fin (1 / 4)) = Inr poll"
      "positive_int env ''OUTBOX_BATCH_SIZE'' 100 = Inr batch" "positive_int env ''WORKER_CONCURRENCY'' 4 = Inr conc"
      "positive_float env ''IDLE_SLEEP_SECONDS'' (Fin (1 / 4)) = Inr idle" "positive_int env ''TOKEN_LEASE_SECONDS'' 90 = Inr tl"
      "positive_int env ''COOLDOWN_SECONDS'' 300 = Inr cd" "positive_float env ''REQUEST_TIMEOUT_SECONDS'' (Fin 20) = Inr to"
      "positive_int env ''COLLECTOR_PAGE_SIZE'' 20 = Inr ps" "positive_int env ''COLLECTOR_MAX_PAGES'' 1 = Inr mp"
    and s: "db_pool_min_size s = lo" "db_pool_max_size s = hi" "task_lease_seconds s = lease" "task_heartbeat_seconds s = hb"
      "task_reclaim_idle_ms s = reclaim" "task_read_block_ms s = block" "outbox_poll_seconds s = poll" "outbox_batch_size s = batch"
      "worker_concurrency s = conc" "idle_sleep_seconds s = idle" "token_lease_seconds s = tl" "token_cooldown_seconds s = cd"
      "request_timeout_seconds s = to" "collector_page_size s = min ps 20" "collector_max_pages s = mp"
      "http_proxy s = getenv_or_none env ''HTTP_PROXY''"
    unfolding from_env_def and_then_Inr by (clarsimp split: prod.splits simp: and_then_Inr)
  note ints = steps(3,5,6,8,9,11,12) [THEN positive_int_Inr] and floats = steps(4,7,10) [THEN positive_float_Inr]
  show ?thesis
    using pool_settings_Inr [OF steps(1)] lease_settings_Inr [OF steps(2)] ints floats
    by (simp add: settings_ok_def s getenv_or_none_def split: option.split)
qed

text \<open>
  C27: Settings that \<open>from_env\<close> accepts are well formed: every count and every interval is positive, the pool bounds are
  in order, a page has 1 to 20 items, the heartbeat is shorter than the lease and than the reclaim time (as far as
  floats compare). So the lease guard accepts them, and the dispatcher never refuses its batch size.
\<close>

theorem accepted_settings:
  assumes "from_env env = Inr s"
  shows "settings_ok s \<and>
    guard_init (task_lease_seconds s) (task_heartbeat_seconds s) = Inr (task_lease_seconds s, task_heartbeat_seconds s) \<and>
    (\<exists>r. claim_ready (outbox_batch_size s) tok claim_seconds locked utc now db = Inr r)"
  using from_env_ok [OF assms] by (auto simp: settings_ok_def guard_init_def claim_ready_def)

section \<open>The defaults\<close>

lemma positive_int_text:
  assumes "0 < n" and "n < 10 ^ 400" and "getenv env name (int_str d) = int_str n"
  shows "positive_int env name d = Inr n"
proof -
  have "length (int_str n) \<le> Suc 400" by (rule length_int_str) (use assms in auto)
  then have "parse_int (int_str n) = Inr n" by (intro parse_int_str) simp
  with assms show ?thesis by (simp add: positive_int_def)
qed

lemma positive_int_default: "env name = None \<Longrightarrow> 0 < d \<Longrightarrow> d < 10 ^ 400 \<Longrightarrow> positive_int env name d = Inr d"
  by (rule positive_int_text) (simp_all add: getenv_def)

lemma third_of_lease:
  assumes "1 \<le> n" and "n \<le> 10 ^ 300"
  obtains v where "true_div n 3 = Inr (Fin v)" and "\<bar>v - of_int n / 3\<bar> \<le> of_int n / 3 / 2 ^ 53"
proof -
  have n: "(of_int n :: rat) \<le> 10 ^ 300" using assms(2) by (metis of_int_le_iff of_int_numeral of_int_power)
  have "(1::rat) / 4 \<le> of_int n / 3" using assms(1) by simp
  moreover have "(of_int n :: rat) / 3 \<le> 2 ^ 1020" using n by simp
  ultimately obtain v where "to_double (of_int n / 3) = Fin v" "\<bar>v - of_int n / 3\<bar> \<le> of_int n / 3 / 2 ^ 53"
    by (rule to_double_near)
  then show thesis using that by (simp add: true_div_def)
qed

text \<open>
  C40: With a lease of n seconds and no heartbeat or reclaim time of its own, the defaults are accepted for every n from
  two up to 10 ^ 300 (beyond the range of doubles the division raises): at least two heartbeats fit into the lease,
  and a delivery is reclaimed five seconds after its lease at the earliest. A lease of one second is
  always refused, because the default heartbeat is never shorter than a second.
\<close>

theorem default_timing:
  assumes env: "env ''TASK_LEASE_SECONDS'' = Some (int_str n)" "env ''TASK_HEARTBEAT_SECONDS'' = None"
      "env ''TASK_RECLAIM_IDLE_MS'' = None"
    and n: "1 \<le> n" "n \<le> 10 ^ 300"
  shows "if n = 1
    then lease_settings env = Inl (ValueError ''TASK_HEARTBEAT_SECONDS must be shorter than TASK_LEASE_SECONDS'')
    else \<exists>h. lease_settings env = Inr (n, Fin h, max ((n + 5) * 1000) 120000) \<and> 1 \<le> h \<and> 2 * h \<le> of_int n"
proof -
  have lease: "positive_int env ''TASK_LEASE_SECONDS'' 120 = Inr n"
    by (rule positive_int_text) (use n env in \<open>auto simp: getenv_def\<close>)
  obtain v where third: "true_div n 3 = Inr (Fin v)" and v: "\<bar>v - of_int n / 3\<bar> \<le> of_int n / 3 / 2 ^ 53"
    using third_of_lease [OF n] .
  define h where "h = max 1 v"
  have "fl_max (Fin 1) (Fin v) = Fin h" by (simp add: fl_max_def h_def max_def)
  then have beat: "positive_float env ''TASK_HEARTBEAT_SECONDS'' (fl_max (Fin 1) (Fin v)) = Inr (Fin h)"
    by (simp add: positive_float_def env h_def)
  have v_le: "v \<le> of_int n / 3 + of_int n / 3 / 2 ^ 53" using v by linarith
  show ?thesis
  proof (cases "n = 1")
    case True
    then show ?thesis using lease third beat by (simp add: lease_settings_def fl_of_int_def h_def)
  next
    case False
    then have two: "(2::rat) \<le> of_int n" using n(1) by simp
    have half: "2 * h \<le> of_int n" using v_le two by (simp add: h_def max_def)
    have h: "1 \<le> h" by (simp add: h_def)
    have "(of_int n :: rat) \<le> 10 ^ 300" using n(2) by (metis of_int_le_iff of_int_numeral of_int_power)
    then obtain w where w: "to_double (1000 * h) = Fin w" "\<bar>w - 1000 * h\<bar> \<le> 1000 * h / 2 ^ 53"
      using to_double_near [of "1000 * h"] h half by auto
    let ?reclaim = "max ((n + 5) * 1000) 120000"
    have "w \<le> 1000 * h + 1000 * h / 2 ^ 53" using w(2) by linarith
    also have "1000 * h / 2 ^ 53 \<le> 1000 * h / 2" using h by (intro small_part) simp
    also have "1000 * h + 1000 * h / 2 < (of_int n + 5) * 1000" using half two by (simp add: field_simps)
    finally have "w < (of_int n + 5) * 1000" by simp
    also have "\<dots> \<le> of_int ?reclaim" by (simp add: max_def)
    finally have late: "w < of_int ?reclaim" .
    have reclaim: "positive_int env ''TASK_RECLAIM_IDLE_MS'' ?reclaim = Inr ?reclaim"
      by (rule positive_int_default) (use env n in auto)
    have "\<not> of_int n \<le> h" using half h by linarith
    then have "lease_settings env = Inr (n, Fin h, ?reclaim)"
      using lease third beat reclaim late w(1) by (simp add: lease_settings_def fl_of_int_def)
    with False h half show ?thesis by auto
  qed
qed

theorem default_timing_witness:
  "\<exists>h. lease_settings [''TASK_LEASE_SECONDS'' \<mapsto> int_str 30] = Inr (30, Fin h, 120000) \<and> 1 \<le> h \<and> h \<le> 15"
  using default_timing [of "[''TASK_LEASE_SECONDS'' \<mapsto> int_str 30]" 30] by simp

lemma mock_mode_settings:
  assumes "\<And>name. name \<noteq> ''MOCK_MODE'' \<Longrightarrow> env name = None"
  shows "\<exists>s. from_env env = Inr s \<and> mock_mode s = env_flag env ''MOCK_MODE'' ''false''"
proof -
  have "to_double 40 = Fin 40" by code_simp
  then have third: "true_div 120 3 = Inr (Fin 40)" by (simp add: true_div_def)
  have scaled: "to_double 40000 = Fin 40000" by code_simp
  have ints: "positive_int env name d = Inr d" if "name \<noteq> ''MOCK_MODE''" "0 < d" "d < 10 ^ 400" for name d
    using that by (simp add: positive_int_default assms)
  have floats: "positive_float env name (Fin d) = Inr (Fin d)" if "name \<noteq> ''MOCK_MODE''" "0 < d" for name d
    using that by (simp add: positive_float_def assms)
  have "lease_settings env = Inr (120, Fin 40, 125000)"
    by (simp add: lease_settings_def ints third floats fl_max_def fl_of_int_def scaled)
  then show ?thesis by (simp add: from_env_def pool_settings_def ints floats)
qed

lemma default_settings: "\<exists>s. from_env Map.empty = Inr s"
  using mock_mode_settings [of Map.empty] by auto

theorem accepted_settings_witness: "\<exists>s. from_env Map.empty = Inr s \<and> settings_ok s"
  using default_settings accepted_settings by blast

section \<open>The ids of a replay\<close>

lemma set_first_of_each: "set (first_of_each xs) = set xs"
  by (induction xs) auto

lemma distinct_first_of_each: "distinct (first_of_each xs)"
  by (induction xs) auto

lemma positive_ids_pos: "positive_ids parts = Inr vs \<Longrightarrow> \<forall>v\<in>set vs. 0 < v"
  by (induction parts arbitrary: vs) (auto simp: and_then_Inr Let_def split: if_splits)

lemma parse_dead_letter_ids_ok: "parse_dead_letter_ids raw = Inr ids \<Longrightarrow> distinct ids \<and> (\<forall>v\<in>set ids. 0 < v)"
  by (auto simp: parse_dead_letter_ids_def and_then_Inr set_first_of_each distinct_first_of_each
      dest: positive_ids_pos split: option.splits if_splits)

lemma first_of_each_distinct: "distinct xs \<Longrightarrow> first_of_each xs = xs"
proof (induction xs)
  case (Cons x xs)
  then show ?case by (auto simp: filter_id_conv)
qed simp

lemma split_on_field: "sep \<notin> set p \<Longrightarrow> split_on sep p = [p]"
  by (induction p) auto

lemma split_on_append: "sep \<notin> set p \<Longrightarrow> split_on sep (p @ sep # s) = p # split_on sep s"
  by (induction p) auto

lemma split_on_join: "ps \<noteq> [] \<Longrightarrow> \<forall>p\<in>set ps. sep \<notin> set p \<Longrightarrow> split_on sep (join [sep] ps) = ps"
  by (induction "[sep]" ps rule: join.induct) (auto simp: split_on_field split_on_append)

lemma strip_unspaced: "\<forall>c\<in>set s. \<not> is_space c \<Longrightarrow> strip s = s"
proof -
  have "dropWhile is_space t = t" if "\<forall>c\<in>set t. \<not> is_space c" for t
    using that by (cases t) auto
  from this [of s] this [of "rev s"] show "\<forall>c\<in>set s. \<not> is_space c \<Longrightarrow> strip s = s" by (simp add: strip_def)
qed

lemma int_str_field: "strip (int_str i) = int_str i" "CHR '','' \<notin> set (int_str i)" "int_str i \<noteq> []"
proof -
  have "\<not> is_space c \<and> c \<noteq> CHR '',''" if "c \<in> set (int_str i)" for c
    using int_str_chars [OF that] by (auto simp: is_digit_def is_space_def Let_def)
  then show "strip (int_str i) = int_str i" "CHR '','' \<notin> set (int_str i)" by (auto intro: strip_unspaced)
qed (simp add: int_str_def)

lemma positive_ids_strs: "\<forall>v\<in>set ids. 0 < v \<and> v < 10 ^ 400 \<Longrightarrow> positive_ids (map int_str ids) = Inr ids"
proof (induction ids)
  case (Cons v ids)
  have "length (int_str v) \<le> Suc 400" by (rule length_int_str) (use Cons.prems in auto)
  then have "parse_int (int_str v) = Inr v" by (intro parse_int_str) simp
  with Cons show ?case by (simp add: int_str_field)
qed simp

text \<open>
  The ids of dead letters survive the way through \<open>REPLAY_DEAD_LETTER_IDS\<close>: a list of distinct positive ids,
  written with commas between them, is read back as it was.
\<close>

theorem replay_ids_roundtrip:
  assumes "distinct ids" and "\<forall>v\<in>set ids. 0 < v \<and> v < 10 ^ 400"
  shows "parse_dead_letter_ids (Some (join '','' (map int_str ids))) = Inr ids"
proof (cases ids)
  case (Cons v vs)
  then have "split_on (CHR '','') (join '','' (map int_str ids)) = map int_str ids"
    by (intro split_on_join) (auto simp: int_str_field)
  moreover have "join '','' (map int_str ids) \<noteq> []"
    using int_str_field(3) Cons by (cases vs) auto
  ultimately show ?thesis
    using assms by (simp add: parse_dead_letter_ids_def positive_ids_strs first_of_each_distinct)
qed (simp add: parse_dead_letter_ids_def)

theorem replay_ids_roundtrip_witness: "parse_dead_letter_ids (Some (join '','' (map int_str [7, 3, 12]))) = Inr [7, 3, 12]"
  by (rule replay_ids_roundtrip) simp_all

end
