(* ===== verification/AdapterProps.thy ===== *)
theory AdapterProps
  imports Adapters StoreProps CollectorProps ConfigProps
begin

text \<open>
  The fixture's items pass validation and storage; the link search of the browser adapter is its regular
  expression; what the session adapter can answer.
\<close>

section \<open>The fixture\<close>

lemma split_words_first: "\<forall>c\<in>set w. \<not> is_space c \<Longrightarrow> w \<noteq> [] \<Longrightarrow> is_space d \<Longrightarrow>
   split_words (w @ d # s) = w # split_words (d # s)"
proof -
  assume w: "\<forall>c\<in>set w. \<not> is_space c" "w \<noteq> []" and d: "is_space d"
  then obtain c t where ct: "w = c # t" by (cases w) auto
  with w have "dropWhile is_space (w @ d # s) = w @ d # s" by simp
  moreover have "takeWhile (\<lambda>e. \<not> is_space e) (t @ d # s) = t" "dropWhile (\<lambda>e. \<not> is_space e) (t @ d # s) = d # s"
    using w d ct by (simp_all add: takeWhile_append dropWhile_append)
  ultimately show ?thesis by (subst split_words.simps) (simp add: ct)
qed

lemma join_starts: "\<exists>r. join sep (w # ws) = w @ r"
  by (cases ws) auto

lemma mock_text:
  "\<exists>r. normalize_text_content fr (PStr (''Synthetic fixture record for collection query: '' @ q)) = ''Synthetic'' @ r"
proof -
  let ?f = "\<lambda>c. if c = CHR 0xA0 then CHR '' '' else c"
  let ?rest = "''fixture record for collection query: '' @ map ?f q"
  have mapped: "map ?f (''Synthetic fixture record for collection query: '' @ q) = ''Synthetic'' @ CHR '' '' # ?rest" by simp
  have words: "split_words (''Synthetic'' @ CHR '' '' # ?rest) = ''Synthetic'' # split_words (CHR '' '' # ?rest)"
    by (rule split_words_first) (auto simp: is_space_def Let_def)
  obtain r where r: "join '' '' (''Synthetic'' # split_words (CHR '' '' # ?rest)) = ''Synthetic'' @ r"
    using join_starts by blast
  have "fold drop_prefix TEXT_PREFIXES (''Synthetic'' @ r) = ''Synthetic'' @ r"
    by (simp add: TEXT_PREFIXES_def drop_prefix_def)
  then show ?thesis
    unfolding normalize_text_content_def none_or_str_def Let_def py_str_PStr mapped
    using words r by (simp only: pyval.distinct if_False py_str_PStr mapped) blast
qed

lemma small_int_str: "int_str 1 = ''1''" "int_str 2 = ''2''" "int_str 3 = ''3''"
  by code_simp+

text \<open>pydantic takes a text for a text field and an integer for a counter as they are.\<close>

definition plain_values :: "pydantic \<Rightarrow> bool" where
  "plain_values py \<longleftrightarrow> (\<forall>s. to_string py (PStr s) = Some s) \<and> (\<forall>i. to_integer py (PInt i) = Some i)"

lemma map_of_tag_item:
  "k \<noteq> ''_collector_adapter'' \<Longrightarrow> k \<noteq> ''_collector_adapter_version'' \<Longrightarrow> map_of (tag_item batch item) k = map_of item k"
  by (simp add: tag_item_def map_of_setdefault)

lemma neutral_label: "normalize_sentiment_label fr (PStr ''NEUTRAL'') = Inr ''NEUTRAL''"
proof -
  have "map upper_char (strip ''NEUTRAL'') = ''NEUTRAL''" by code_simp
  then show ?thesis by (simp add: normalize_sentiment_label_def SENTIMENT_LABELS_def)
qed

lemma mock_item_document:
  assumes py: "plain_values py" and h: "length h \<le> 16" and idx: "length (int_str idx) = 1" "0 \<le> idx"
    and content: "normalize_text_content fr (PStr (''Synthetic fixture record for collection query: '' @ q)) = ''Synthetic'' @ r"
  shows "make_document py fr (tag_item batch (mock_item h q idx)) = Some
     \<lparr>d_platform = ''x'', d_tweet_id = ''mock_'' @ h @ ''_'' @ int_str idx, d_author_id = ''mock_author_'' @ int_str idx,
      d_author_handle = ''mock_handle_'' @ int_str idx, d_text = ''Synthetic'' @ r, d_likes = idx * 100, d_retweets = idx * 25,
      d_label = ''NEUTRAL'', d_conversation_id = Some (''mock_conversation_'' @ h), d_source_created_at = None, d_captured_at = None\<rparr>"
proof -
  let ?item = "tag_item batch (mock_item h q idx)"
  have strs: "to_string py (PStr s) = Some s" and ints: "to_integer py (PInt i) = Some i" for s i
    using py by (simp_all add: plain_values_def)
  have "\<not> is_space c" if "c \<in> set (''mock_handle_'' @ int_str idx)" for c
    using that by (auto dest!: int_str_chars simp: is_digit_def is_space_def Let_def)
  then have handle: "strip (''mock_handle_'' @ int_str idx) = ''mock_handle_'' @ int_str idx" by (intro strip_unspaced) blast
  have "string_field py ?item ''platform'' 1 32 (Some ''x'') = Some ''x''"
    "string_field py ?item ''original_tweet_id'' 1 64 None = Some (''mock_'' @ h @ ''_'' @ int_str idx)"
    "string_field py ?item ''author_id'' 1 128 None = Some (''mock_author_'' @ int_str idx)"
    using h idx by (simp_all add: string_field_def map_of_tag_item mock_item_def strs sized_def)
  moreover have "handle_field fr ?item = Some (''mock_handle_'' @ int_str idx)"
    using idx by (simp add: handle_field_def map_of_tag_item mock_item_def normalize_author_handle_def none_or_str_def handle [simplified] sized_def)
  moreover have "text_field fr ?item = Some (''Synthetic'' @ r)"
    by (simp add: text_field_def map_of_tag_item mock_item_def content [simplified] sized_def)
  moreover have "count_field py ?item ''engagement_likes'' = Some (idx * 100)" "count_field py ?item ''engagement_retweets'' = Some (idx * 25)"
    using idx by (simp_all add: count_field_def map_of_tag_item mock_item_def ints)
  moreover have "label_field fr ?item = Some ''NEUTRAL''"
    by (simp add: label_field_def map_of_tag_item mock_item_def neutral_label)
  moreover have "optional_field ?item ''conversation_id'' (\<lambda>v. Option.bind (to_string py v) (sized 0 (Some 128))) = Some (Some (''mock_conversation_'' @ h))"
    using h by (simp add: optional_field_def map_of_tag_item mock_item_def strs sized_def)
  moreover have "optional_field ?item ''source_created_at'' (to_datetime py) = Some None" "optional_field ?item ''captured_at'' (to_datetime py) = Some None"
    "optional_field ?item ''insight_id'' (to_integer py) = Some None" "optional_field ?item ''ingested_at'' (to_datetime py) = Some None"
    "optional_field ?item ''content_text_hash'' (to_string py) = Some None"
    by (simp_all add: optional_field_def map_of_tag_item mock_item_def)
  ultimately show ?thesis by (simp only: make_document_def prod.case option.case)
qed

text \<open>
  In mock mode a page needs no session and asks for none, and leaves the token tables alone; it has at most three items,
  and each of them, tagged by the executor, passes validation and fits its columns, so that a fixture is never rejected.
\<close>

theorem mock_page_storable:
  assumes py: "plain_values py" and mode: "mock_mode s" and answer: "ae_answer (pg_first pe) = adapter_answer fr te be"
  shows "\<exists>batch. collect_page ops (primary_adapter s v) (recovery_adapter s) req worker_id pe db = (Inr batch, ae_others (pg_first pe) db) \<and>
    length (cb_items batch) \<le> 3 \<and>
    (\<forall>item\<in>set (cb_items batch). \<exists>doc. make_document py fr (tag_item batch item) = Some doc \<and>
       storable doc (task_meta fr task (tag_item batch item)))"
proof -
  let ?batch = "mock_collect (be_sha256 be) req"
  let ?h = "take 16 (be_sha256 be (cr_query req))"
  have page: "collect_page ops (primary_adapter s v) (recovery_adapter s) req worker_id pe db = (Inr ?batch, ae_others (pg_first pe) db)"
    by (simp add: collect_page_def collect_with_session_def primary_adapter_def mode answer mock_adapter_def adapter_answer_def)
  have short: "length (cb_items ?batch) \<le> 3" by (simp add: mock_collect_def Let_def)
  have "\<exists>doc. make_document py fr (tag_item ?batch item) = Some doc \<and> storable doc (task_meta fr task (tag_item ?batch item))"
    if mem: "item \<in> set (cb_items ?batch)" for item
  proof -
    obtain idx where item: "item = mock_item ?h (cr_query req) idx" and "1 \<le> idx" "idx \<le> 3"
    proof -
      have "item \<in> mock_item ?h (cr_query req) ` {1..min (cr_page_size req) 3}"
        using mem by (simp add: mock_collect_def Let_def)
      then show thesis using that by (elim imageE) simp
    qed
    then have idx: "idx = 1 \<or> idx = 2 \<or> idx = 3" by linarith
    then have one: "length (int_str idx) = 1" "0 \<le> idx" by (auto simp: small_int_str)
    obtain r where content: "normalize_text_content fr (PStr (''Synthetic fixture record for collection query: '' @ cr_query req)) = ''Synthetic'' @ r"
      using mock_text by blast
    have "length ?h \<le> 16" by simp
    note doc = mock_item_document [OF py this one content, of ?batch]
    have meta: "task_meta fr task (tag_item ?batch item) = \<lparr>om_task_id = Some (l_id task), om_task_generation = Some (l_generation task),
        om_adapter_name = Some ''mock'', om_adapter_version = Some ''1''\<rparr>"
      by (simp add: task_meta_def truthy_str_def dict_get_def tag_item_def map_of_setdefault item mock_item_def mock_collect_def Let_def)
    show ?thesis using doc idx one unfolding item meta [unfolded item] by (auto simp: storable_def max_int4_def)
  qed
  with page short show ?thesis by blast
qed

definition mock_browser :: browser_env where
  "mock_browser = \<lparr>be_installed = False, be_launch = None, be_close = None, be_loads = (\<lambda>_. Inr PNone),
     be_articles = (\<lambda>_ _. Inr []), be_sha256 = id\<rparr>"

definition mock_twikit :: twikit_env where
  "mock_twikit = \<lparr>te_version = ''2'', te_client = None, te_loads = (\<lambda>_. Inr (PDict [])), te_set_cookies = (\<lambda>_. None),
     te_search = (\<lambda>_ _ _ _. Inr \<lparr>tp_tweets = [], tp_next_cursor = PNone\<rparr>), te_now = 0, te_close = None\<rparr>"

definition mock_attempt :: "(pool_env, tdb) attempt_env" where
  "mock_attempt = sample_attempt\<lparr>ae_answer := adapter_answer (\<lambda>_. []) mock_twikit mock_browser\<rparr>"

definition mock_request :: collection_request where
  "mock_request = \<lparr>cr_query = ''news'', cr_product = ''Latest'', cr_cursor = None, cr_page_size = 20\<rparr>"

lemma mock_settings: "\<exists>s. from_env [''MOCK_MODE'' \<mapsto> ''True''] = Inr s \<and> mock_mode s"
proof -
  have "env_flag [''MOCK_MODE'' \<mapsto> ''True''] ''MOCK_MODE'' ''false''" by code_simp
  then show ?thesis using mock_mode_settings [of "[''MOCK_MODE'' \<mapsto> ''True'']"] by auto
qed

theorem mock_page_storable_witness:
  "\<exists>s batch. from_env [''MOCK_MODE'' \<mapsto> ''True''] = Inr s \<and> collect_page (token_repo 90 300) (primary_adapter s ''2'') (recovery_adapter s) mock_request ''worker-1''
       ((sample_page 0)\<lparr>pg_first := mock_attempt\<rparr>) sample_tdb = (Inr batch, sample_tdb) \<and>
     (\<forall>item\<in>set (cb_items batch). \<exists>doc. make_document (se_pydantic sample_store) (\<lambda>_. []) (tag_item batch item) = Some doc)"
proof -
  obtain s where env: "from_env [''MOCK_MODE'' \<mapsto> ''True''] = Inr s" and s: "mock_mode s" using mock_settings by blast
  have "plain_values (se_pydantic sample_store)" by (simp add: plain_values_def sample_store_def)
  moreover have "ae_answer (pg_first ((sample_page 0)\<lparr>pg_first := mock_attempt\<rparr>)) = adapter_answer (\<lambda>_. []) mock_twikit mock_browser"
    by (simp add: mock_attempt_def)
  ultimately have "\<exists>batch. collect_page (token_repo 90 300) (primary_adapter s ''2'') (recovery_adapter s) mock_request ''worker-1''
       ((sample_page 0)\<lparr>pg_first := mock_attempt\<rparr>) sample_tdb = (Inr batch, ae_others mock_attempt sample_tdb) \<and>
     (\<forall>item\<in>set (cb_items batch). \<exists>doc. make_document (se_pydantic sample_store) (\<lambda>_. []) (tag_item batch item) = Some doc)"
    using mock_page_storable [where task = sample_delivered, OF _ s] by fastforce
  with env show ?thesis by (auto simp: mock_attempt_def sample_attempt_def)
qed

section \<open>The link of an article\<close>

text \<open>What \<open>/([^/]+)/status/(\d+)\<close> matches, with a greedy second group.\<close>

definition status_link :: "string \<Rightarrow> string \<Rightarrow> string \<Rightarrow> bool" where
  "status_link s handle digits \<longleftrightarrow>
     (\<exists>pre post. s = pre @ CHR ''/'' # handle @ ''/status/'' @ digits @ post \<and> (post = [] \<or> \<not> is_digit (hd post))) \<and>
     handle \<noteq> [] \<and> CHR ''/'' \<notin> set handle \<and> digits \<noteq> [] \<and> list_all is_digit digits"

abbreviation "noslash \<equiv> (\<lambda>d. d \<noteq> CHR ''/'')"

lemma take_eq_append: "take (length p) s = p \<Longrightarrow> s = p @ drop (length p) s"
  by (metis append_take_drop_id)

lemma status_link_here:
  assumes "takeWhile noslash s \<noteq> []" and r: "take 8 (dropWhile noslash s) = ''/status/''"
    and "takeWhile is_digit (drop 8 (dropWhile noslash s)) \<noteq> []"
  shows "status_link (CHR ''/'' # s) (takeWhile noslash s) (takeWhile is_digit (drop 8 (dropWhile noslash s)))"
proof -
  let ?r = "dropWhile noslash s" and ?d = "drop 8 (dropWhile noslash s)"
  have "?r = ''/status/'' @ ?d" using r append_take_drop_id [of 8 ?r] by simp
  moreover have "?d = takeWhile is_digit ?d @ dropWhile is_digit ?d" by simp
  ultimately have "CHR ''/'' # s = [] @ CHR ''/'' # takeWhile noslash s @ ''/status/'' @ takeWhile is_digit ?d @ dropWhile is_digit ?d"
    by (metis append_Nil takeWhile_dropWhile_id)
  moreover have "dropWhile is_digit ?d = [] \<or> \<not> is_digit (hd (dropWhile is_digit ?d))" using hd_dropWhile by blast
  moreover have "CHR ''/'' \<notin> set (takeWhile noslash s)" by (auto dest: set_takeWhileD)
  moreover have "list_all is_digit (takeWhile is_digit ?d)" by (auto simp: list_all_iff dest: set_takeWhileD)
  ultimately show ?thesis unfolding status_link_def using assms by blast
qed

lemma status_link_Cons: "status_link s h d \<Longrightarrow> status_link (c # s) h d"
  unfolding status_link_def by (metis append_Cons)

lemma status_path_Cons: "status_path s \<noteq> None \<Longrightarrow> status_path (c # s) \<noteq> None"
  by (simp add: Let_def)

lemma status_path_behind: "status_path s \<noteq> None \<Longrightarrow> status_path (pre @ s) \<noteq> None"
  by (induction pre) (simp_all only: append.simps status_path_Cons simp_thms)

lemma status_link_found:
  assumes "status_link s h d"
  shows "status_path s \<noteq> None"
proof -
  obtain pre post where s: "s = pre @ CHR ''/'' # h @ ''/status/'' @ d @ post"
    and h: "h \<noteq> []" "CHR ''/'' \<notin> set h" and d: "d \<noteq> []" "list_all is_digit d"
    using assms by (auto simp: status_link_def)
  have here: "status_path (CHR ''/'' # h @ ''/status/'' @ d @ post) \<noteq> None"
  proof -
    have "takeWhile noslash (h @ ''/status/'' @ d @ post) = h" "dropWhile noslash (h @ ''/status/'' @ d @ post) = ''/status/'' @ d @ post"
      using h(2) by (simp_all add: takeWhile_append dropWhile_append)
    moreover have "takeWhile is_digit (d @ post) \<noteq> []" using d by (cases d) auto
    ultimately show ?thesis using h(1) by (simp add: Let_def)
  qed
  from status_path_behind [OF here] show ?thesis unfolding s .
qed

text \<open>
  The author and the id that the browser adapter reads off a link are a match of its regular expression, with the whole
  number, and it finds one whenever there is one.
\<close>

theorem status_path_matches:
  "case status_path s of
     Some (handle, digits) \<Rightarrow> status_link s handle digits
   | None \<Rightarrow> \<not> (\<exists>handle digits. status_link s handle digits)"
proof -
  have "status_path s = Some (h, d) \<Longrightarrow> status_link s h d" for h d
  proof (induction s)
    case (Cons c s)
    then show ?case
      by (auto simp: Let_def intro: status_link_Cons status_link_here split: if_splits)
  qed simp
  moreover have "\<not> status_link s h d" if "status_path s = None" for h d using status_link_found that by blast
  ultimately show ?thesis by (auto split: option.split)
qed

section \<open>Failures\<close>

text \<open>A failure the worker can tell apart: retryable, of one of the four kinds, with a delay only for a rate limit.\<close>

definition adapter_failure :: "exc \<Rightarrow> bool" where
  "adapter_failure e = (case e of
     Collection k m after \<Rightarrow> k \<notin> {PermanentTaskFailure, CollectionErrorBase} \<and>
       (case after of None \<Rightarrow> True | Some d \<Rightarrow> k = RateLimited \<and> 1 \<le> d)
   | _ \<Rightarrow> False)"

definition known_error :: "rat \<Rightarrow> twikit_error \<Rightarrow> bool" where
  "known_error now e = (case e of Foreign _ \<Rightarrow> False
     | TooManyRequests m reset_at \<Rightarrow> (case retry_after_of reset_at now of Inl _ \<Rightarrow> False | Inr _ \<Rightarrow> True)
     | _ \<Rightarrow> True)"

lemma retry_after_at_least: "retry_after_of reset_at now = Inr (Some d) \<Longrightarrow> 1 \<le> d"
  by (auto simp: retry_after_of_def split: option.splits if_splits pyfloat.splits)

lemma twikit_failure_known: "known_error now e \<Longrightarrow> adapter_failure (twikit_failure now e)"
  by (cases e) (auto simp: known_error_def adapter_failure_def dest: retry_after_at_least split: sum.splits option.splits)

definition counted :: "tweet \<Rightarrow> bool" where
  "counted t \<longleftrightarrow> (\<exists>i. count_or_zero (tw_favorite_count t) = Inr i) \<and> (\<exists>i. count_or_zero (tw_retweet_count t) = Inr i)"

lemma tweet_items_counted:
  "\<forall>t\<in>set ts. tw_user t \<noteq> None \<longrightarrow> counted t \<Longrightarrow>
     \<exists>items. tweet_items fr ts = Inr items \<and> length items = length (filter (\<lambda>t. tw_user t \<noteq> None) ts)"
proof (induction ts)
  case (Cons t ts)
  then obtain items where "tweet_items fr ts = Inr items" "length items = length (filter (\<lambda>t. tw_user t \<noteq> None) ts)" by auto
  with Cons.prems show ?case by (cases "tw_user t") (auto simp: counted_def)
qed simp

lemma install_cookies_cases:
  assumes "\<forall>d. te_set_cookies te d \<noteq> Some CancelledError"
  shows "install_cookies te s = Inr () \<or> install_cookies te s = Inl (invalid_cookies (tk_token_id s))"
  using assms by (auto simp: install_cookies_def split: sum.split pyval.split option.split exc.split)

abbreviation searched :: "twikit_env \<Rightarrow> collection_request \<Rightarrow> twikit_error + tweet_page" where
  "searched te req \<equiv> te_search te (cr_query req) (cr_product req) (max 1 (min (cr_page_size req) 20)) (cr_cursor req)"

definition understood :: "twikit_env \<Rightarrow> collection_request \<Rightarrow> bool" where
  "understood te req \<longleftrightarrow> te_client te = None \<and> te_close te = None \<and> (\<forall>d. te_set_cookies te d \<noteq> Some CancelledError) \<and>
     (case searched te req of Inl e \<Rightarrow> known_error (te_now te) e
      | Inr page \<Rightarrow> list_all (\<lambda>t. tw_user t = None \<or> counted t) (tp_tweets page))"

definition authored :: "tweet_page \<Rightarrow> tweet list" where
  "authored page = filter (\<lambda>t. tw_user t \<noteq> None) (tp_tweets page)"

lemma twikit_page_answers:
  assumes "understood te req"
  shows "case twikit_page fr te req s of Inl e \<Rightarrow> adapter_failure e
    | Inr batch \<Rightarrow> \<exists>page. searched te req = Inr page \<and> length (cb_items batch) = length (authored page)"
proof (cases "install_cookies te s = Inr ()")
  case False
  then have "install_cookies te s = Inl (invalid_cookies (tk_token_id s))"
    using install_cookies_cases [of te s] assms by (auto simp: understood_def)
  then show ?thesis by (simp add: twikit_page_def invalid_cookies_def adapter_failure_def)
next
  case True
  show ?thesis
  proof (cases "searched te req")
    case (Inl e)
    with assms have "known_error (te_now te) e" by (simp add: understood_def)
    with Inl True show ?thesis by (simp add: twikit_page_def twikit_failure_known)
  next
    case (Inr page)
    with assms have "\<forall>t\<in>set (tp_tweets page). tw_user t \<noteq> None \<longrightarrow> counted t" by (auto simp: understood_def list_all_iff)
    then obtain items where "tweet_items fr (tp_tweets page) = Inr items" "length items = length (authored page)"
      unfolding authored_def using tweet_items_counted [of "tp_tweets page" fr] by blast
    with Inr True show ?thesis by (simp add: twikit_page_def)
  qed
qed

lemma browser_items_length: "browser_items be as = Inr items \<Longrightarrow> length items \<le> length as"
proof (induction be as arbitrary: items rule: browser_items.induct)
  case (2 be a as)
  then show ?case by (fastforce simp: and_then_Inr le_SucI split: sum.splits exc.splits)
qed simp

lemma browser_answers:
  "case browser_collect fr be req session of
     Inl e \<Rightarrow> e = CancelledError \<or> (\<exists>m. e = Collection CollectorChanged m None)
   | Inr batch \<Rightarrow> int (length (cb_items batch)) \<le> max 1 (cr_page_size req)"
proof (cases "be_installed be")
  case True
  show ?thesis
  proof (cases "browser_run fr be req session")
    case (Inl e)
    with True show ?thesis by (cases e) (simp_all add: browser_collect_def)
  next
    case (Inr items)
    then obtain as where "browser_items be (take (nat (max 1 (cr_page_size req))) as) = Inr items"
      by (auto simp: browser_run_def and_then_Inr split: option.splits)
    from browser_items_length [OF this] have "length items \<le> nat (max 1 (cr_page_size req))" by simp
    then have "int (length items) \<le> max 1 (cr_page_size req)" by linarith
    with Inr True show ?thesis by (simp add: browser_collect_def)
  qed
qed (simp add: browser_collect_def)

lemma adapter_failure_retryable: "adapter_failure e \<Longrightarrow> \<exists>cls after. classify e = (cls, True, after)"
  by (cases e) (auto simp: adapter_failure_def classify_def retryable_def)

text \<open>
  C34: The adapters fail in kinds the worker knows. The session adapter, when the library raises what its handler names and the
  counters of the result are numbers, answers with one item per tweet that has an author, or with a retryable failure of one
  of four kinds, where only a rate limit carries a delay, of at least a second. The browser adapter answers with at most
  a page of items, or with \<open>CollectorChanged\<close>, or is cancelled; it raises nothing else.
\<close>

theorem adapters_fail_in_kind:
  assumes "understood te req"
  shows "(case twikit_collect fr te req session of
      Inl e \<Rightarrow> adapter_failure e \<and> (\<exists>cls after. classify e = (cls, True, after))
    | Inr batch \<Rightarrow> session \<noteq> None \<and> (\<exists>page. searched te req = Inr page \<and> length (cb_items batch) = length (authored page))) \<and>
    (case browser_collect fr be req session of
      Inl e \<Rightarrow> e = CancelledError \<or> (\<exists>m. e = Collection CollectorChanged m None)
    | Inr batch \<Rightarrow> int (length (cb_items batch)) \<le> max 1 (cr_page_size req))"
proof (cases session)
  case None
  have "adapter_failure (Collection AuthenticationFailure ''twikit adapter requires a session'' None)" by (simp add: adapter_failure_def)
  with None show ?thesis using browser_answers [where fr = fr and be = be and req = req and session = session] by (simp add: twikit_collect_def adapter_failure_retryable)
next
  case (Some s)
  then have "twikit_collect fr te req session = twikit_page fr te req s" using assms by (simp add: twikit_collect_def understood_def)
  then show ?thesis using Some twikit_page_answers [OF assms, of fr s] browser_answers [where fr = fr and be = be and req = req and session = session]
    by (auto simp: adapter_failure_retryable split: sum.split)
qed

definition limited_twikit :: twikit_env where
  "limited_twikit = mock_twikit\<lparr>te_search := (\<lambda>_ _ _ _. Inl (TooManyRequests ''slow down'' (Some 30))), te_now := 29\<rparr>"

definition sample_session :: token_lease where
  "sample_session = \<lparr>tk_lease_id = 1, tk_token_id = 7, tk_key = ''acct'', tk_value = [], tk_owner = ''worker-1'', tk_expires_at = 90\<rparr>"

theorem adapters_fail_in_kind_witness:
  "\<exists>m d. twikit_collect (\<lambda>_. []) limited_twikit mock_request (Some sample_session) = Inl (Collection RateLimited m (Some d)) \<and> 1 \<le> d"
proof -
  have delay: "retry_after_of (Some 30) 29 = Inr (Some 1)" by code_simp
  have "understood limited_twikit mock_request"
    by (simp add: understood_def limited_twikit_def mock_twikit_def known_error_def delay)
  moreover have "twikit_collect (\<lambda>_. []) limited_twikit mock_request (Some sample_session) = Inl (Collection RateLimited ''slow down'' (Some 1))"
    by (simp add: twikit_collect_def twikit_page_def install_cookies_def limited_twikit_def mock_twikit_def delay)
  ultimately show ?thesis
    using adapters_fail_in_kind [where te = limited_twikit and req = mock_request and fr = "\<lambda>_. []"
        and session = "Some sample_session" and be = mock_browser]
    by (auto simp: adapter_failure_def)
qed

end
