(* ===== verification/Dispatcher.thy ===== *)
theory Dispatcher
  imports OutboxProps
begin

text \<open>
  The loop of \<open>dispatcher.py\<close>: rounds of \<open>dispatch_ready\<close> follow each other at once as long as a round
  publishes something; a round that publishes nothing ends the busy phase, and the process waits for the poll
  interval or the shutdown. The loop is a function because every round but the last takes an event out of the unpublished ones.
\<close>

section \<open>Model\<close>

text \<open>The surroundings of one round: the claim's token and times, the rows others lock, and what \<open>XADD\<close> answers.\<close>

record round_env =
  rd_token :: string
  rd_locked :: "int list"
  rd_utc :: time
  rd_now :: time
  rd_replies :: "nat \<Rightarrow> (exc + string) \<times> time"

definition dispatch_once :: "int \<Rightarrow> int \<Rightarrow> round_env \<Rightarrow> cdb \<Rightarrow> exc + (nat \<times> cdb)" where
  "dispatch_once batch_size claim_seconds re db =
     dispatch_ready batch_size (rd_token re) claim_seconds (rd_locked re) (rd_utc re) (rd_now re) (rd_replies re) db"

definition unpublished :: "cdb \<Rightarrow> nat" where
  "unpublished db = count_where (\<lambda>e. o_published_at e = None) (outbox db)"

section \<open>What a round does to the unpublished events\<close>

lemma count_where_update_same:
  "(\<And>r. Q r \<Longrightarrow> P (f r) = P r) \<Longrightarrow> count_where P (update_where Q f rows) = count_where P rows"
  by (induction rows) auto

lemma count_where_update_out:
  "(\<And>r. Q r \<Longrightarrow> P r \<and> \<not> P (f r)) \<Longrightarrow> count_where P (update_where Q f rows) + count_where Q rows = count_where P rows"
  by (induction rows) auto

lemma claim_rows_unpublished: "unpublished (snd (claim_rows tok u now es db)) = unpublished db"
proof (induction tok u now es db rule: claim_rows.induct)
  case (2 tok u now e es db)
  then show ?case
    by (simp add: Let_def case_prod_beta unpublished_def count_where_update_same claim_row_def)
qed simp

lemma record_failure_unpublished: "unpublished (record_failure ev err db) = unpublished db"
  by (simp add: unpublished_def record_failure_def count_where_update_same drop_claim_def)

lemma publish_claimed_unpublished:
  assumes "publish_claimed ev reply now db = (res, db')"
  shows "case res of Inl _ \<Rightarrow> unpublished db' \<le> unpublished db | Inr _ \<Rightarrow> unpublished db' + 1 = unpublished db"
proof -
  have "count_where (\<lambda>e. o_published_at e = None) (update_where (holds_claim ev) (mark_published m now) (outbox db)) +
      count_where (holds_claim ev) (outbox db) = count_where (\<lambda>e. o_published_at e = None) (outbox db)" for m
    by (rule count_where_update_out) (simp add: holds_claim_def mark_published_def)
  then have "unpublished (db\<lparr>outbox := update_where (holds_claim ev) (mark_published m now) (outbox db)\<rparr>) +
      count_where (holds_claim ev) (outbox db) = unpublished db" for m
    by (simp add: unpublished_def)
  then show ?thesis using assms by (auto simp: publish_claimed_def Let_def split: sum.splits if_splits) (metis add_leE le_refl)
qed

lemma publish_all_unpublished: "unpublished (snd (publish_all env i evs db)) + fst (publish_all env i evs db) \<le> unpublished db"
proof (induction env i evs db rule: publish_all.induct)
  case (2 env i ev evs db)
  obtain res db1 where run: "publish_claimed ev (fst (env i)) (snd (env i)) db = (res, db1)" by fastforce
  note step = publish_claimed_unpublished [OF run]
  show ?case
  proof (cases res)
    case (Inl err)
    then show ?thesis using 2(1) [OF run [symmetric] Inl] step by (simp add: run record_failure_unpublished)
  next
    case (Inr m)
    then show ?thesis using 2(2) [OF run [symmetric] Inr] step by (simp add: run Let_def case_prod_beta)
  qed
qed simp

lemma dispatch_once_run:
  assumes "dispatch_once b cs re db = Inr (n, db')"
  obtains evs db1 where "claim_ready b (rd_token re) cs (rd_locked re) (rd_utc re) (rd_now re) db = Inr (evs, db1)"
    and "publish_all (rd_replies re) 0 evs db1 = (n, db')" and "unpublished db1 = unpublished db"
proof -
  obtain evs db1 where claim: "claim_ready b (rd_token re) cs (rd_locked re) (rd_utc re) (rd_now re) db = Inr (evs, db1)"
    and pub: "publish_all (rd_replies re) 0 evs db1 = (n, db')"
    using assms by (auto simp: dispatch_once_def dispatch_ready_def split: sum.splits)
  have "unpublished db1 = unpublished db"
    using claim claim_rows_unpublished [of "rd_token re" "rd_utc re + seconds cs" "rd_now re" _ db]
    by (simp add: claim_ready_def split: if_splits) (metis snd_conv)
  with claim pub that show thesis by blast
qed

lemma dispatch_once_unpublished: "dispatch_once b cs re db = Inr (n, db') \<Longrightarrow> unpublished db' + n \<le> unpublished db"
  by (erule dispatch_once_run) (metis publish_all_unpublished fst_conv snd_conv)

section \<open>The loop\<close>

text \<open>
  From round \<open>i\<close> on: the index of the round that published nothing, the number of events published before it, and
  the tables after it. The environments give what others do between the statements; between two rounds they
  do nothing here.
\<close>

function drain :: "int \<Rightarrow> int \<Rightarrow> (nat \<Rightarrow> round_env) \<Rightarrow> nat \<Rightarrow> cdb \<Rightarrow> exc + (nat \<times> nat \<times> cdb)" where
  "drain batch_size claim_seconds envs i db =
     (case dispatch_once batch_size claim_seconds (envs i) db of
        Inl e \<Rightarrow> Inl e
      | Inr (n, db1) \<Rightarrow>
          if n = 0 then Inr (i, 0, db1)
          else (case drain batch_size claim_seconds envs (Suc i) db1 of
                  Inl e \<Rightarrow> Inl e
                | Inr (k, m, db2) \<Rightarrow> Inr (k, n + m, db2)))"
  by pat_completeness auto
termination
  by (relation "measure (\<lambda>(b, cs, envs, i, db). unpublished db)") (auto dest!: dispatch_once_unpublished)

declare drain.simps [simp del]

section \<open>The loop ends\<close>

lemma publish_all_inv: "ledger_inv db \<Longrightarrow> ledger_inv (snd (publish_all env i evs db))"
proof (induction env i evs db rule: publish_all.induct)
  case (2 env i ev evs db)
  obtain res db1 where run: "publish_claimed ev (fst (env i)) (snd (env i)) db = (res, db1)" by fastforce
  have inv1: "ledger_inv db1" using publish_claimed_inv [OF 2(3)] run by (metis snd_conv)
  show ?case
  proof (cases res)
    case (Inl err)
    then show ?thesis using 2(1) [OF run [symmetric] Inl record_failure_inv [OF inv1]] by (simp add: run)
  next
    case (Inr m)
    then show ?thesis using 2(2) [OF run [symmetric] Inr inv1] by (simp add: run Let_def case_prod_beta)
  qed
qed simp

lemma dispatch_once_inv: "ledger_inv db \<Longrightarrow> dispatch_once b cs re db = Inr (n, db') \<Longrightarrow> ledger_inv db'"
  by (erule dispatch_once_run) (metis claim_ready_inv publish_all_inv snd_conv)

lemma dispatch_once_returns: "0 < b \<Longrightarrow> \<exists>n db'. dispatch_once b cs re db = Inr (n, db')"
  by (simp add: dispatch_once_def dispatch_ready_def claim_ready_def case_prod_beta split: prod.split)

text \<open>A round that publishes nothing although Redis takes everything has found nothing to claim.\<close>

lemma idle_round:
  assumes inv: "ledger_inv db" and b: "0 < b" and run: "dispatch_once b cs re db = Inr (0, db')"
    and redis: "\<forall>j. \<exists>m. fst (rd_replies re j) = Inr m" and free: "rd_locked re = []"
  shows "db' = db \<and> (\<forall>e\<in>set (outbox db). \<not> claimable (rd_now re) db e)"
proof -
  obtain evs db1 where claim: "claim_ready b (rd_token re) cs (rd_locked re) (rd_utc re) (rd_now re) db = Inr (evs, db1)"
    and pub: "publish_all (rd_replies re) 0 evs db1 = (0, db')"
    using run by (rule dispatch_once_run)
  have "filter (\<lambda>j. \<exists>m. fst (rd_replies re j) = Inr m) [0..<length evs] = [0..<length evs]" using redis by (simp add: filter_id_conv)
  with dispatch_round [OF inv claim, of "rd_replies re"] pub have "evs = []"
    by (auto simp: dispatch_ready_def claim)
  then have none: "select_claimable b [] (rd_now re) db = []" and db1: "db1 = claimed_db (rd_token re) (rd_utc re + seconds cs) (rd_now re) [] db"
    using claim by (auto simp: claim_ready_eq [OF inv b] free)
  have "db1 = db" using claim none by (simp add: claim_ready_def free b not_le split: if_splits)
  moreover have "db' = db1" using pub \<open>evs = []\<close> by simp
  moreover have "filter (claimable (rd_now re) db) (outbox db) = []"
  proof -
    have "sort_key (event_key db) (filter (claimable (rd_now re) db) (outbox db)) = []"
      using none b by (simp add: select_claimable_def)
    then show ?thesis by (metis length_0_conv length_sort)
  qed
  ultimately show ?thesis by (auto simp: filter_empty_conv)
qed

text \<open>
  C18: A busy phase of the dispatcher ends, whatever Redis answers: after at most as many rounds as there are unpublished
  events, one publishes nothing; each event published is one unpublished event less, and the ledger's
  invariant is kept. When Redis takes everything and no row is locked, no event is left that could be claimed at the time
  of the last round.
\<close>

theorem drain_ends:
  assumes inv: "ledger_inv db" and batch: "0 < batch_size"
  shows "\<exists>k m db'. drain batch_size claim_seconds envs i db = Inr (k, m, db') \<and> ledger_inv db' \<and>
    i \<le> k \<and> k - i \<le> m \<and> unpublished db' + m \<le> unpublished db \<and>
    ((\<forall>n. rd_locked (envs n) = [] \<and> (\<forall>j. \<exists>r. fst (rd_replies (envs n) j) = Inr r)) \<longrightarrow>
      (\<forall>e\<in>set (outbox db'). \<not> claimable (rd_now (envs k)) db' e))"
  using inv batch
proof (induction batch_size claim_seconds envs i db rule: drain.induct)
  case (1 b cs envs i db)
  obtain n db1 where run: "dispatch_once b cs (envs i) db = Inr (n, db1)" using dispatch_once_returns [OF 1(3)] by blast
  have inv1: "ledger_inv db1" by (rule dispatch_once_inv [OF 1(2) run])
  have less: "unpublished db1 + n \<le> unpublished db" by (rule dispatch_once_unpublished [OF run])
  show ?case
  proof (cases "n = 0")
    case True
    then have "drain b cs envs i db = Inr (i, 0, db1)" by (subst drain.simps) (simp add: run)
    then show ?thesis using idle_round [OF 1(2,3) run [unfolded True]] inv1 less True by auto
  next
    case False
    obtain k m db2 where rest: "drain b cs envs (Suc i) db1 = Inr (k, m, db2)" "ledger_inv db2" "Suc i \<le> k" "k - Suc i \<le> m"
      "unpublished db2 + m \<le> unpublished db1"
      and settled: "(\<forall>n. rd_locked (envs n) = [] \<and> (\<forall>j. \<exists>r. fst (rd_replies (envs n) j) = Inr r)) \<longrightarrow>
        (\<forall>e\<in>set (outbox db2). \<not> claimable (rd_now (envs k)) db2 e)"
      using 1(1) [OF run refl False inv1 1(3)] by blast
    have "drain b cs envs i db = Inr (k, n + m, db2)" using False by (subst drain.simps) (simp add: run rest(1))
    then show ?thesis using rest less False settled by auto
  qed
qed

definition sample_round :: "nat \<Rightarrow> round_env" where
  "sample_round n = \<lparr>rd_token = ''tok'', rd_locked = [], rd_utc = 5, rd_now = 5, rd_replies = (\<lambda>_. (Inr ''1-0'', 6))\<rparr>"

theorem drain_ends_witness:
  "\<exists>k m db'. drain 100 30 sample_round 0 pending_db = Inr (k, m, db') \<and> k \<le> m \<and> (\<forall>e\<in>set (outbox db'). \<not> claimable 5 db' e)"
  using drain_ends [OF sample_inv(1), of 100 30 sample_round 0] by (fastforce simp: sample_round_def)

section \<open>A new task is published\<close>

lemma create_task_appends:
  assumes inv: "ledger_inv db" and key: "task_by_key db key = None"
    and made: "create_task ty p key maxa prio None utc now db = Inr (i, db1)"
  defines "r \<equiv> (new_task ty p maxa utc key prio None None now)\<lparr>t_id := i\<rparr>"
    and "e \<equiv> (ready_event i 0 utc now)\<lparr>o_id := outbox_seq db\<rparr>"
  shows "i = task_seq db" and "tasks db1 = tasks db @ [r]" and "outbox db1 = outbox db @ [e]" and "task_by_id db i = None"
proof -
  have none: "task_by_id db (task_seq db) = None" using inv by (auto simp: fetch_key_None_iff ledger_inv_defs)
  have "event_linked db e'" if "e' \<in> set (outbox db)" for e' using inv that by (simp add: ledger_inv_defs)
  then have "(task_seq db, 0) \<notin> event_of ` set (outbox db)" using none by (fastforce simp: event_linked_def)
  then have "outbox_event db (task_seq db) 0 = None" by (simp add: fetch_key_None_iff)
  then have "i = task_seq db \<and> tasks db1 = tasks db @ [r] \<and> outbox db1 = outbox db @ [e]"
    using made key none
    by (auto simp: create_task_def Let_def insert_task_def r_def e_def new_task_def fetch_key_append insert_event_def ready_event_def
        split: if_splits)
  then show "i = task_seq db" "tasks db1 = tasks db @ [r]" "outbox db1 = outbox db @ [e]" "task_by_id db i = None"
    using none by simp_all
qed

text \<open>A dispatcher that had nothing to claim publishes the new task's event, and only that.\<close>

lemma created_task_dispatched:
  assumes inv: "ledger_inv db" and key: "task_by_key db key = None"
    and made: "create_task ty p key maxa prio None utc now db = Inr (i, db1)"
    and idle: "\<forall>e\<in>set (outbox db). \<not> claimable (rd_now re) db e"
    and round: "0 < b" "rd_locked re = []" "utc \<le> rd_now re" "fst (rd_replies re 0) = Inr mid"
  shows "\<exists>ev db1' db2. claim_ready b (rd_token re) cs (rd_locked re) (rd_utc re) (rd_now re) db1 = Inr ([ev], db1') \<and>
    c_task_id ev = i \<and> c_generation ev = 0 \<and> dispatch_once b cs re db1 = Inr (1, db2) \<and> ledger_inv db2 \<and>
    task_by_id db2 i = Some (mark_enqueued (rd_now re) ((new_task ty p maxa utc key prio None None now)\<lparr>t_id := i\<rparr>))"
proof -
  note app = create_task_appends [OF inv key made]
  let ?r = "(new_task ty p maxa utc key prio None None now)\<lparr>t_id := i\<rparr>"
  let ?e = "(ready_event i 0 utc now)\<lparr>o_id := outbox_seq db\<rparr>"
  have inv1: "ledger_inv db1" by (rule create_task_inv [OF inv made])
  have row: "task_by_id db1 i = Some ?r" using app(2,4) by (simp add: fetch_key_append new_task_def)
  have "claimable (rd_now re) db1 e' = claimable (rd_now re) db e'" if "e' \<in> set (outbox db)" for e'
  proof -
    have "event_linked db e'" using inv that by (simp add: ledger_inv_defs)
    then obtain r' where "task_by_id db (o_task_id e') = Some r'" by (auto simp: event_linked_def)
    then have "task_by_id db1 (o_task_id e') = task_by_id db (o_task_id e')" using app(2) by (simp add: fetch_key_append)
    then show ?thesis by (simp add: claimable_def)
  qed
  then have "filter (claimable (rd_now re) db1) (outbox db) = []" using idle by (simp add: filter_empty_conv)
  moreover have "claimable (rd_now re) db1 ?e"
    using row round(3) by (simp add: claimable_def ready_event_def new_task_def)
  ultimately have "filter (claimable (rd_now re) db1) (outbox db1) = [?e]" by (simp add: app(3))
  then have sel: "select_claimable b (rd_locked re) (rd_now re) db1 = [?e]"
    using round(1,2) by (simp add: select_claimable_def)
  let ?db1' = "claimed_db (rd_token re) (rd_utc re + seconds cs) (rd_now re) [?e] db1"
  have claim: "claim_ready b (rd_token re) cs (rd_locked re) (rd_utc re) (rd_now re) db1 = Inr ([claimed_of (rd_token re) ?e], ?db1')"
    using claim_ready_eq [OF inv1 round(1)] by (simp add: sel)
  obtain db2 where run: "dispatch_once b cs re db1 = Inr (1, db2)" and same: "tasks db2 = tasks ?db1'"
    using dispatch_round [OF inv1 claim, of "rd_replies re"] round(4) by (auto simp: dispatch_once_def)
  have "enqueues [?e] ?r" by (simp add: enqueues_def ready_event_def new_task_def)
  then have "task_by_id db2 i = Some (mark_enqueued (rd_now re) ?r)"
    using row by (simp add: same claimed_db_def fetch_key_update_where)
  with claim run dispatch_once_inv [OF inv1 run] show ?thesis
    by (rule_tac x = "claimed_of (rd_token re) ?e" in exI, rule_tac x = ?db1' in exI, rule_tac x = db2 in exI)
      (simp add: claimed_of_def ready_event_def)
qed

end
