(* ===== verification/Dashboard.thy ===== *)
theory Dashboard
  imports Feed Tokens PyFloat
begin

text \<open>
  The read side: the endpoints of \<open>api_server.py\<close> and the hourly brief of \<open>analytics_briefs.py\<close>. A handler gets what
  its query saw, or the exception it raised, cancellation aside. The language model, the text PostgreSQL
  makes of a JSON value, its white space and its collation are parameters. Rows that an ORDER BY leaves equal stay in table order.
\<close>

section \<open>Answers\<close>

datatype http_error = HttpError int string

text \<open>\<open>_require_pool\<close> and \<open>_fetch_all\<close>, with the \<open>except\<close> clauses of their callers.\<close>

definition answer :: "string \<Rightarrow> bool \<Rightarrow> exc + 'a \<Rightarrow> http_error + 'a" where
  "answer detail pool reply =
     (if \<not> pool then Inl (HttpError 503 ''database unavailable'')
      else case reply of Inl _ \<Rightarrow> Inl (HttpError 500 detail) | Inr rows \<Rightarrow> Inr rows)"

section \<open>/api/v1/alerts/live\<close>

record live_alert =
  lv_id :: int
  lv_keyword :: string
  lv_volume :: int
  lv_threshold :: int
  lv_triggered_at :: time

text \<open>\<open>payload->>key\<close>: SQL NULL for a missing key and for a JSON null.\<close>

definition payload_text :: "(pyval \<Rightarrow> string) \<Rightarrow> pydict \<Rightarrow> string \<Rightarrow> string option" where
  "payload_text json_text payload key = (case map_of payload key of
     None \<Rightarrow> None
   | Some PNone \<Rightarrow> None
   | Some (PStr s) \<Rightarrow> Some s
   | Some v \<Rightarrow> Some (json_text v))"

definition live_row :: "(pyval \<Rightarrow> string) \<Rightarrow> fdb \<Rightarrow> time \<Rightarrow> task_row \<Rightarrow> live_alert" where
  "live_row json_text fd now t =
     (let linked = Option.bind (coalesce (payload_text json_text (t_payload t) ''original_tweet_id'')
                                         (payload_text json_text (t_payload t) ''tweet_id'')) (feed_by_tweet fd);
          likes = (case linked of None \<Rightarrow> 0 | Some f \<Rightarrow> f_likes f)
      in \<lparr>lv_id = t_id t,
          lv_keyword = (case linked of None \<Rightarrow> ''PENDING'' | Some f \<Rightarrow> f_label f),
          lv_volume = likes,
          lv_threshold = max likes 0,
          lv_triggered_at = (case linked of Some f \<Rightarrow> f_ingested_at f
            | None \<Rightarrow> (case t_leased_at t of Some l \<Rightarrow> l | None \<Rightarrow> now))\<rparr>)"

definition live_alert_rows :: "(pyval \<Rightarrow> string) \<Rightarrow> time \<Rightarrow> cdb \<times> fdb \<Rightarrow> live_alert list" where
  "live_alert_rows json_text now tables = (case tables of (db, fd) \<Rightarrow>
     take 100 (sort_key (\<lambda>a. - lv_triggered_at a)
       (map (live_row json_text fd now)
         (filter (\<lambda>t. t_status t \<in> {RUNNING, RETRYING, DEAD_LETTER, DONE}) (tasks db)))))"

definition live_alerts ::
  "(pyval \<Rightarrow> string) \<Rightarrow> bool \<Rightarrow> time \<Rightarrow> exc + cdb \<times> fdb \<Rightarrow> http_error + live_alert list" where
  "live_alerts json_text pool now reply =
     answer ''failed to load live alerts'' pool (and_then reply (\<lambda>tables. Inr (live_alert_rows json_text now tables)))"

section \<open>/api/v1/trends/spikes\<close>

record trend =
  tr_topic :: string
  tr_weight :: int
  tr_cluster :: int

fun split_by :: "(char \<Rightarrow> bool) \<Rightarrow> string \<Rightarrow> string list" where
  "split_by sep [] = [[]]"
| "split_by sep (c # s) = (if sep c then [] # split_by sep s
     else case split_by sep s of [] \<Rightarrow> [[c]] | w # ws \<Rightarrow> (c # w) # ws)"

definition topic_char :: "char \<Rightarrow> bool" where
  "topic_char c = (let n = (of_char c :: nat) in
     (48 \<le> n \<and> n \<le> 57) \<or> (65 \<le> n \<and> n \<le> 90) \<or> (97 \<le> n \<and> n \<le> 122) \<or> c = CHR ''#'')"

definition topic_of :: "string \<Rightarrow> string" where
  "topic_of word = lower_str (filter topic_char word)"

text \<open>
  The words of the texts, one after the other; the empty ones that the split leaves between two separators go with the topics that are empty.
\<close>

definition topics_of :: "(char \<Rightarrow> bool) \<Rightarrow> feed_row list \<Rightarrow> string list" where
  "topics_of pg_space rows =
     filter (\<lambda>t. t \<noteq> []) (concat (map (\<lambda>r. map topic_of (split_by pg_space (f_text r))) rows))"

definition recent_rows :: "time \<Rightarrow> time \<Rightarrow> feed_row list \<Rightarrow> feed_row list" where
  "recent_rows window now rows = filter (\<lambda>r. now - window \<le> f_ingested_at r) rows"

definition trend_rows :: "(char \<Rightarrow> bool) \<Rightarrow> (string \<Rightarrow> string) \<Rightarrow> time \<Rightarrow> fdb \<Rightarrow> trend list" where
  "trend_rows pg_space collation now fd =
     (let ts = topics_of pg_space (recent_rows (seconds 21600) now (feed fd));
          ranked = sort_key (\<lambda>t. (- int (count_list ts t), collation t)) (remdups ts)
      in take 50 (map (\<lambda>(i, t). \<lparr>tr_topic = t, tr_weight = int (count_list ts t), tr_cluster = int i + 1\<rparr>)
                    (enumerate 0 ranked)))"

definition trend_spikes ::
  "(char \<Rightarrow> bool) \<Rightarrow> (string \<Rightarrow> string) \<Rightarrow> bool \<Rightarrow> time \<Rightarrow> exc + fdb \<Rightarrow> http_error + trend list" where
  "trend_spikes pg_space collation pool now reply =
     answer ''failed to load trend spikes'' pool (and_then reply (\<lambda>fd. Inr (trend_rows pg_space collation now fd)))"

section \<open>The hourly brief\<close>

record brief_row =
  bf_id :: int
  bf_summary :: string
  bf_generated_at :: time

record bdb =
  briefs :: "brief_row list"
  brief_seq :: int

text \<open>
  The score is a sum of two INT columns, and PostgreSQL raises when one does not fit; the query stands outside the
  \<open>try\<close> block.
\<close>

definition viral_score :: "feed_row \<Rightarrow> int" where
  "viral_score f = f_likes f + f_retweets f"

definition viral_rows :: "time \<Rightarrow> fdb \<Rightarrow> exc + feed_row list" where
  "viral_rows now fd =
     (let recent = recent_rows (seconds 3600) now (feed fd)
      in if list_ex (\<lambda>f. max_int4 < viral_score f) recent then Inl (DbError ''integer out of range'')
         else Inr (take 50 (sort_key (\<lambda>f. - viral_score f) recent)))"

definition newline :: string where
  "newline = [CHR 0x0A]"

definition brief_line :: "feed_row \<Rightarrow> string" where
  "brief_line f = ''- [@'' @ f_author_handle f @ '']: '' @ [CHR 0x22] @ f_text f @ [CHR 0x22] @
     '' (Score: '' @ int_str (viral_score f) @ '')'' @ newline"

definition user_content :: "feed_row list \<Rightarrow> string" where
  "user_content rows = ''Source Data Records:'' @ newline @ concat (map brief_line rows)"

definition system_prompt :: string where
  "system_prompt = ''You are a Principal Market Intelligence Analyst. Analyze the following data streams '' @
     ''captured over the past 60 minutes. Distill these raw signals into an executive, '' @
     ''highly dense, 3-bullet-point summary tracking active trends. Do not introduce outside data. '' @
     ''Return ONLY the structural markdown block.''"

definition brief_request :: "string \<Rightarrow> feed_row list \<Rightarrow> pydict" where
  "brief_request model rows =
     [(''model'', PStr model),
      (''messages'', PList [PDict [(''role'', PStr ''system''), (''content'', PStr system_prompt)],
                            PDict [(''role'', PStr ''user''), (''content'', PStr (user_content rows))]]),
      (''temperature'', PFloat (Fin 0))]"

text \<open>\<open>result_json["choices"][0]["message"]["content"].strip()\<close>; None is one of its exceptions.\<close>

definition subscript :: "pyval \<Rightarrow> string \<Rightarrow> pyval option" where
  "subscript v key = (case v of PDict d \<Rightarrow> map_of d key | _ \<Rightarrow> None)"

definition first_item :: "pyval \<Rightarrow> pyval option" where
  "first_item v = (case v of PList (x # _) \<Rightarrow> Some x | PStr (c # _) \<Rightarrow> Some (PStr [c]) | _ \<Rightarrow> None)"

definition brief_text :: "pyval \<Rightarrow> string option" where
  "brief_text json =
     Option.bind (subscript json ''choices'') (\<lambda>choices.
     Option.bind (first_item choices) (\<lambda>choice.
     Option.bind (subscript choice ''message'') (\<lambda>message.
     Option.bind (subscript message ''content'') (\<lambda>content.
       case content of PStr s \<Rightarrow> Some (strip s) | _ \<Rightarrow> None))))"

text \<open>An \<open>except Exception\<close> that logs and goes on. \<open>CancelledError\<close> is no \<open>Exception\<close>.\<close>

fun except_logged :: "exc + unit \<Rightarrow> exc + unit" where
  "except_logged (Inl e) = (if e = CancelledError then Inl CancelledError else Inr ())"
| "except_logged (Inr u) = Inr u"

text \<open>
  The surroundings of a cycle. \<open>be_query\<close> is what acquiring the connection or the query raises, \<open>be_release\<close> what giving the
  connection back raises, \<open>be_llm\<close> the HTTP call with its status check and the decoding of its JSON, \<open>be_insert\<close> what the
  INSERT raises; the feed is what others have stored by then.
\<close>

record brief_env =
  be_query :: "exc option"
  be_now :: time
  be_feed :: fdb
  be_llm :: "pydict \<Rightarrow> exc + pyval"
  be_insert :: "exc option"
  be_insert_time :: time
  be_release :: "exc option"

text \<open>The \<open>try\<close> block: the call, its text, the INSERT.\<close>

definition archive_brief :: "string \<Rightarrow> brief_env \<Rightarrow> feed_row list \<Rightarrow> bdb \<Rightarrow> (exc + unit) \<times> bdb" where
  "archive_brief model env rows b =
     (case be_llm env (brief_request model rows) of
        Inl e \<Rightarrow> (Inl e, b)
      | Inr json \<Rightarrow>
          (case brief_text json of
             None \<Rightarrow> (Inl (Other ''TypeError, KeyError, IndexError or AttributeError'' []), b)
           | Some summary \<Rightarrow>
               (case be_insert env of
                  Some e \<Rightarrow> (Inl e, b)
                | None \<Rightarrow> (Inr (), b\<lparr>brief_seq := brief_seq b + 1,
                    briefs := briefs b @ [\<lparr>bf_id = brief_seq b, bf_summary = summary, bf_generated_at = be_insert_time env\<rparr>]\<rparr>))))"

definition generate_and_archive_executive_brief :: "string \<Rightarrow> brief_env \<Rightarrow> bdb \<Rightarrow> (exc + unit) \<times> bdb" where
  "generate_and_archive_executive_brief model env b =
     (case be_query env of
        Some e \<Rightarrow> (Inl e, b)
      | None \<Rightarrow>
          (let (res, b1) = (case viral_rows (be_now env) (be_feed env) of
                 Inl e \<Rightarrow> (Inl e, b)
               | Inr rows \<Rightarrow> (if rows = [] then (Inr (), b) else map_prod except_logged id (archive_brief model env rows b)))
           in (case be_release env of Some e \<Rightarrow> Inl e | None \<Rightarrow> res, b1)))"

section \<open>/api/v1/briefs/latest\<close>

definition latest_brief :: "bool \<Rightarrow> time \<Rightarrow> exc + bdb \<Rightarrow> http_error + brief_row" where
  "latest_brief pool utcnow reply =
     answer ''failed to load latest brief'' pool (and_then reply (\<lambda>b.
       Inr (case take 1 (sort_key (\<lambda>r. - bf_generated_at r) (briefs b)) of
              [] \<Rightarrow> \<lparr>bf_id = 0, bf_summary = [], bf_generated_at = utcnow\<rparr>
            | r # _ \<Rightarrow> r)))"

section \<open>/api/v1/system/health\<close>

record health =
  hl_total_tokens :: int
  hl_active_tokens :: int
  hl_cooldown_tokens :: int
  hl_pending_tasks :: int
  hl_running_tasks :: int
  hl_dead_letter_count :: int
  hl_timestamp :: time

text \<open>
  Three statements, which may see three states of the tables. A missing pool fails inside the \<open>try\<close> block
  and gets the same answer as any other exception.
\<close>

definition get_system_operational_health ::
  "bool \<Rightarrow> time \<Rightarrow> exc + tdb \<times> cdb \<times> cdb \<Rightarrow> http_error + health" where
  "get_system_operational_health pool now reply =
     (let unavailable = Inl (HttpError 503
            ''System telemetry service unavailable due to active database pool connection interruptions.'')
      in if \<not> pool then unavailable
         else case reply of
           Inl _ \<Rightarrow> unavailable
         | Inr (td, db1, db2) \<Rightarrow>
             Inr \<lparr>hl_total_tokens = int (length (tokens td)),
                  hl_active_tokens = int (count_where (\<lambda>k. k_status k = ACTIVE) (tokens td)),
                  hl_cooldown_tokens = int (count_where (\<lambda>k. k_status k = COOLDOWN) (tokens td)),
                  hl_pending_tasks = int (count_where (\<lambda>t. t_status t \<in> {PENDING, RETRYING}) (tasks db1)),
                  hl_running_tasks = int (count_where (\<lambda>t. t_status t = RUNNING) (tasks db1)),
                  hl_dead_letter_count = int (length (dead_letters db2)),
                  hl_timestamp = now\<rparr>)"

end
