(* ===== verification/DashboardProps.thy ===== *)
theory DashboardProps
  imports Dashboard LedgerProps FeedProps
begin

text \<open>
  What the trend list, the health figures and the hourly brief show of the tables behind them.
\<close>

section \<open>The first of a sorted list\<close>

lemma sort_key_take:
  fixes f :: "'a \<Rightarrow> 'b :: linorder"
  assumes "x \<in> set (take n (sort_key f xs))" and "y \<in> set xs" and "y \<notin> set (take n (sort_key f xs))"
  shows "f x \<le> f y"
proof -
  let ?s = "sort_key f xs"
  have "y \<in> set (drop n ?s)" using assms(2,3) by (metis Un_iff append_take_drop_id set_append set_sort)
  moreover have "sorted (map f (take n ?s @ drop n ?s))" by simp
  ultimately show ?thesis using assms(1) unfolding map_append sorted_append by auto
qed

lemma take_short: "y \<in> set xs \<Longrightarrow> y \<notin> set (take n xs) \<Longrightarrow> length (take n xs) = n"
  by (cases "length xs \<le> n") auto

lemma take_enumerate: "take n (enumerate k xs) = enumerate k (take n xs)"
  by (induction xs arbitrary: n k) (simp_all add: take_Cons split: nat.split)

section \<open>Trends\<close>

lemma count_list_mem: "t \<in> set ts \<Longrightarrow> 0 < count_list ts t"
  by (induction ts) auto

abbreviation topics_at :: "(char \<Rightarrow> bool) \<Rightarrow> time \<Rightarrow> fdb \<Rightarrow> string list" where
  "topics_at pg_space now fd \<equiv> topics_of pg_space (filter (\<lambda>f. now - seconds (6 * 3600) \<le> f_ingested_at f) (feed fd))"

text \<open>
  C39: The trend list is the ranking of the last six hours' topics: each topic once, with the number of its occurrences,
  heaviest first, numbered from one, at most fifty; a topic that is left out is left out because fifty
  others weigh at least as much.
\<close>

theorem trends_ranked:
  "\<exists>rows. trend_spikes pg_space collation True now (Inr fd) = Inr rows \<and> length rows \<le> 50 \<and>
     distinct (map tr_topic rows) \<and> sorted (map (\<lambda>r. - tr_weight r) rows) \<and>
     map tr_cluster rows = map (\<lambda>i. int i + 1) [0..<length rows] \<and>
     (\<forall>r\<in>set rows. tr_topic r \<in> set (topics_at pg_space now fd) \<and>
        tr_weight r = int (count_list (topics_at pg_space now fd) (tr_topic r))) \<and>
     (\<forall>t\<in>set (topics_at pg_space now fd) - set (map tr_topic rows). length rows = 50 \<and>
        (\<forall>r\<in>set rows. int (count_list (topics_at pg_space now fd) t) \<le> tr_weight r))"
proof -
  define ts where "ts = topics_at pg_space now fd"
  define key where "key = (\<lambda>t. (- int (count_list ts t), collation t))"
  define ranked where "ranked = sort_key key (remdups ts)"
  define row where "row = (\<lambda>(i, t). \<lparr>tr_topic = t, tr_weight = int (count_list ts t), tr_cluster = int i + 1\<rparr>)"
  define rows where "rows = take 50 (map row (enumerate 0 ranked))"
  have run: "trend_spikes pg_space collation True now (Inr fd) = Inr rows"
    by (simp add: trend_spikes_def answer_def trend_rows_def rows_def row_def ranked_def key_def ts_def Let_def recent_rows_def)
  have rows: "rows = map row (enumerate 0 (take 50 ranked))"
    by (simp add: rows_def take_map take_enumerate)
  have topics: "map tr_topic rows = take 50 ranked"
    by (simp add: rows row_def case_prod_beta comp_def)
  have weight: "tr_weight r = int (count_list ts (tr_topic r))" if "r \<in> set rows" for r
    using that by (auto simp: rows row_def)
  have len: "length rows = length (take 50 ranked)" by (simp add: rows)
  have clusters: "map tr_cluster rows = map (\<lambda>i. int i + 1) [0..<length rows]"
    by (rule nth_equalityI) (simp_all add: rows row_def nth_enumerate_eq)
  have "sorted (map key (take 50 ranked))" unfolding ranked_def by (metis sorted_sort_key sorted_wrt_take take_map)
  then have "sorted (map (\<lambda>t. - int (count_list ts t)) (take 50 ranked))"
    unfolding sorted_map by (rule sorted_wrt_mono_rel [rotated]) (auto simp: key_def)
  moreover have "map (\<lambda>r. - tr_weight r) rows = map (\<lambda>t. - int (count_list ts t)) (map tr_topic rows)"
    using weight by simp
  ultimately have sorted: "sorted (map (\<lambda>r. - tr_weight r) rows)" by (simp add: topics)
  have mem: "tr_topic r \<in> set ts" if "r \<in> set rows" for r
  proof -
    have "tr_topic r \<in> set (take 50 ranked)" using that topics by (metis image_eqI list.set_map)
    then show ?thesis by (auto simp: ranked_def dest: in_set_takeD)
  qed
  have rest: "length rows = 50 \<and> (\<forall>r\<in>set rows. int (count_list ts t) \<le> tr_weight r)" if "t \<in> set ts" "t \<notin> set (map tr_topic rows)" for t
  proof -
    have t: "t \<in> set (remdups ts)" "t \<in> set ranked" using that by (simp_all add: ranked_def)
    have out: "t \<notin> set (take 50 ranked)" using that topics by simp
    have "int (count_list ts t) \<le> tr_weight r" if r: "r \<in> set rows" for r
    proof -
      have "tr_topic r \<in> set (take 50 ranked)" using r topics by (metis image_eqI list.set_map)
      from sort_key_take [OF this [unfolded ranked_def] t(1) out [unfolded ranked_def]] have "key (tr_topic r) \<le> key t" .
      then show ?thesis using weight [OF r] by (auto simp: key_def)
    qed
    moreover have "length rows = 50" using take_short [OF t(2) out] by (simp only: len)
    ultimately show ?thesis by blast
  qed
  have dist: "distinct (map tr_topic rows)" unfolding topics ranked_def by simp
  have few: "length rows \<le> 50" by (simp add: len)
  have shown: "\<forall>r\<in>set rows. tr_topic r \<in> set ts \<and> tr_weight r = int (count_list ts (tr_topic r))"
    using mem weight by blast
  have unshown: "\<forall>t\<in>set ts - set (map tr_topic rows). length rows = 50 \<and> (\<forall>r\<in>set rows. int (count_list ts t) \<le> tr_weight r)"
    using rest by blast
  show ?thesis unfolding ts_def [symmetric] using run few dist sorted clusters shown unshown
    by (intro exI [of _ rows] conjI)
qed

section \<open>Briefs\<close>

lemma sort_key_first:
  fixes f :: "'a \<Rightarrow> 'b :: linorder"
  assumes "\<forall>x\<in>set xs. f r < f x"
  shows "take 1 (sort_key f (xs @ [r])) = [r]"
proof -
  obtain x ys where s: "sort_key f (xs @ [r]) = x # ys"
    by (metis append_is_Nil_conv length_0_conv length_sort list.exhaust not_Cons_self2)
  have "sorted (map f (x # ys))" by (metis s sorted_sort_key)
  moreover have mem: "set (x # ys) = insert r (set xs)" by (metis s set_sort Un_insert_right list.simps(15) set_append sup_bot.right_neutral empty_set)
  ultimately have "f x \<le> f r" by auto
  moreover have "x \<in> insert r (set xs)" using mem by auto
  ultimately have "x = r" using assms by (metis insertE not_le)
  then show ?thesis by (simp add: s)
qed

lemma viral_rows_Inr:
  assumes "viral_rows now fd = Inr rows"
  shows "length rows \<le> 50" and "set rows \<subseteq> set (recent_rows (seconds 3600) now (feed fd))"
    and "f \<in> set (recent_rows (seconds 3600) now (feed fd)) \<Longrightarrow> f \<notin> set rows \<Longrightarrow> r \<in> set rows \<Longrightarrow> viral_score f \<le> viral_score r"
    and "rows = [] \<longleftrightarrow> recent_rows (seconds 3600) now (feed fd) = []"
proof -
  let ?recent = "recent_rows (seconds 3600) now (feed fd)"
  have rows: "rows = take 50 (sort_key (\<lambda>f. - viral_score f) ?recent)"
    using assms by (auto simp: viral_rows_def Let_def split: if_splits)
  show "length rows \<le> 50" by (simp add: rows)
  show "set rows \<subseteq> set ?recent" by (auto simp: rows dest: in_set_takeD)
  show "viral_score f \<le> viral_score r" if "f \<in> set ?recent" "f \<notin> set rows" "r \<in> set rows"
    using sort_key_take [OF that(3) [unfolded rows] that(1) that(2) [unfolded rows]] by simp
  have "sort_key (\<lambda>f. - viral_score f) ?recent = [] \<longleftrightarrow> ?recent = []" by (metis length_0_conv length_sort)
  then show "rows = [] \<longleftrightarrow> ?recent = []" by (simp add: rows)
qed

lemma viral_rows_sorted:
  assumes "viral_rows now fd = Inr rows"
  shows "sorted (map (\<lambda>f. - viral_score f) rows)"
proof -
  let ?s = "sort_key (\<lambda>f. - viral_score f) (recent_rows (seconds 3600) now (feed fd))"
  have "rows = take 50 ?s" using assms by (auto simp: viral_rows_def Let_def split: if_splits)
  moreover have "sorted (take 50 (map (\<lambda>f. - viral_score f) ?s))" by (intro sorted_wrt_take) simp
  ultimately show ?thesis by (simp add: take_map)
qed

lemma viral_rows_Inl:
  "(\<exists>e. viral_rows now fd = Inl e) \<longleftrightarrow> (\<exists>f\<in>set (recent_rows (seconds 3600) now (feed fd)). max_int4 < viral_score f)"
  by (auto simp: viral_rows_def Let_def list_ex_iff)

lemma except_logged_raises: "(\<exists>e. except_logged r = Inl e) \<longleftrightarrow> r = Inl CancelledError"
  by (cases r) auto

text \<open>The shape of a completion, and its text.\<close>

definition has_content :: "pyval \<Rightarrow> string \<Rightarrow> bool" where
  "has_content json content \<longleftrightarrow> (\<exists>top choice rest msg. json = PDict top \<and> map_of top ''choices'' = Some (PList (PDict choice # rest)) \<and>
     map_of choice ''message'' = Some (PDict msg) \<and> map_of msg ''content'' = Some (PStr content))"

lemma subscript_Some: "subscript v key = Some x \<longleftrightarrow> (\<exists>d. v = PDict d \<and> map_of d key = Some x)"
  by (cases v) (auto simp: subscript_def)

lemma first_item_Some:
  "first_item v = Some x \<longleftrightarrow> (\<exists>xs. v = PList (x # xs)) \<or> (\<exists>c cs. v = PStr (c # cs) \<and> x = PStr [c])"
  by (cases v) (auto simp: first_item_def split: list.splits)

lemma brief_text_Some: "brief_text json = Some s \<longleftrightarrow> (\<exists>content. has_content json content \<and> s = strip content)"
proof
  assume "brief_text json = Some s"
  then obtain choices choice message content where path: "subscript json ''choices'' = Some choices"
    "first_item choices = Some choice" "subscript choice ''message'' = Some message" "subscript message ''content'' = Some content"
    "(case content of PStr s \<Rightarrow> Some (strip s) | _ \<Rightarrow> None) = Some s"
    unfolding brief_text_def Option.bind_eq_Some_conv by blast
  then have "\<exists>t. content = PStr t \<and> s = strip t" by (cases content) auto
  with path show "\<exists>content. has_content json content \<and> s = strip content"
    by (auto simp: subscript_Some first_item_Some has_content_def)
next
  assume "\<exists>content. has_content json content \<and> s = strip content"
  then show "brief_text json = Some s"
    by (auto simp: has_content_def brief_text_def subscript_def first_item_def)
qed

text \<open>
  The rows of the last hour with a score beyond INT; whether the model's answer to the rows has a text; what ends a cycle
  with an exception.
\<close>

definition score_overflows :: "brief_env \<Rightarrow> bool" where
  "score_overflows env \<longleftrightarrow> (\<exists>f\<in>set (feed (be_feed env)). be_now env - seconds 3600 \<le> f_ingested_at f \<and>
     max_int4 < f_likes f + f_retweets f)"

definition summarized :: "string \<Rightarrow> brief_env \<Rightarrow> feed_row list \<Rightarrow> string \<Rightarrow> bool" where
  "summarized model env rows content \<longleftrightarrow>
     (\<exists>json. be_llm env (brief_request model rows) = Inr json \<and> has_content json content)"

definition cancelled_at_work :: "string \<Rightarrow> brief_env \<Rightarrow> feed_row list \<Rightarrow> bool" where
  "cancelled_at_work model env rows \<longleftrightarrow> rows \<noteq> [] \<and> (be_llm env (brief_request model rows) = Inl CancelledError \<or>
     (\<exists>content. summarized model env rows content) \<and> be_insert env = Some CancelledError)"

definition cycle_raises :: "string \<Rightarrow> brief_env \<Rightarrow> bool" where
  "cycle_raises model env \<longleftrightarrow> be_query env \<noteq> None \<or> score_overflows env \<or> be_release env \<noteq> None \<or>
     (\<exists>rows. viral_rows (be_now env) (be_feed env) = Inr rows \<and> cancelled_at_work model env rows)"

lemma score_overflows_iff: "score_overflows env \<longleftrightarrow> (\<exists>e. viral_rows (be_now env) (be_feed env) = Inl e)"
  unfolding viral_rows_Inl by (auto simp: score_overflows_def recent_rows_def viral_score_def)

lemma archive_brief_raises:
  "fst (archive_brief model env rows b) = Inl CancelledError \<longleftrightarrow>
     be_llm env (brief_request model rows) = Inl CancelledError \<or>
     (\<exists>content. summarized model env rows content) \<and> be_insert env = Some CancelledError"
proof (cases "be_llm env (brief_request model rows)")
  case (Inr json)
  then have "(\<exists>content. summarized model env rows content) \<longleftrightarrow> brief_text json \<noteq> None"
    by (auto simp: summarized_def brief_text_Some)
  with Inr show ?thesis by (auto simp: archive_brief_def split: option.split)
qed (simp add: archive_brief_def summarized_def)

lemma archive_brief_writes:
  "be_insert env = None \<Longrightarrow> summarized model env rows content \<Longrightarrow> snd (archive_brief model env rows b)
     = b\<lparr>brief_seq := brief_seq b + 1, briefs := briefs b @
          [\<lparr>bf_id = brief_seq b, bf_summary = strip content, bf_generated_at = be_insert_time env\<rparr>]\<rparr>"
  "\<not> (be_insert env = None \<and> (\<exists>content. summarized model env rows content)) \<Longrightarrow> snd (archive_brief model env rows b) = b"
proof -
  have stripped: "brief_text json = Some (strip content)" if "has_content json content" for json content
    using that brief_text_Some by blast
  show "be_insert env = None \<Longrightarrow> summarized model env rows content \<Longrightarrow> snd (archive_brief model env rows b)
     = b\<lparr>brief_seq := brief_seq b + 1, briefs := briefs b @
          [\<lparr>bf_id = brief_seq b, bf_summary = strip content, bf_generated_at = be_insert_time env\<rparr>]\<rparr>"
    by (auto simp: archive_brief_def summarized_def stripped)
  show "snd (archive_brief model env rows b) = b"
    if no: "\<not> (be_insert env = None \<and> (\<exists>content. summarized model env rows content))"
    using no by (auto simp: archive_brief_def summarized_def brief_text_Some split: sum.split option.split)
qed

text \<open>A cycle as one equation, once its query has answered.\<close>

lemma brief_cycle_run:
  assumes "be_query env = None" and "viral_rows (be_now env) (be_feed env) = Inr rows"
  shows "snd (generate_and_archive_executive_brief model env b) = (if rows = [] then b else snd (archive_brief model env rows b))"
    and "(\<exists>e. fst (generate_and_archive_executive_brief model env b) = Inl e) \<longleftrightarrow>
      be_release env \<noteq> None \<or> cancelled_at_work model env rows"
proof -
  show "snd (generate_and_archive_executive_brief model env b) = (if rows = [] then b else snd (archive_brief model env rows b))"
    using assms
    by (cases "archive_brief model env rows b") (simp add: generate_and_archive_executive_brief_def)
  have "(\<exists>e. except_logged (fst (archive_brief model env rows b)) = Inl e) \<longleftrightarrow> cancelled_at_work model env rows" if "rows \<noteq> []"
    using that unfolding except_logged_raises archive_brief_raises cancelled_at_work_def by simp
  then show "(\<exists>e. fst (generate_and_archive_executive_brief model env b) = Inl e) \<longleftrightarrow>
      be_release env \<noteq> None \<or> cancelled_at_work model env rows"
    using assms
    by (cases "be_release env"; cases "rows = []"; cases "archive_brief model env rows b")
      (simp_all add: generate_and_archive_executive_brief_def cancelled_at_work_def)
qed

lemma brief_raises:
  "(\<exists>e. fst (generate_and_archive_executive_brief model env b) = Inl e) \<longleftrightarrow> cycle_raises model env"
proof (cases "be_query env")
  case None
  show ?thesis
  proof (cases "viral_rows (be_now env) (be_feed env)")
    case (Inl e)
    then show ?thesis
      using None score_overflows_iff [of env]
      by (auto simp: generate_and_archive_executive_brief_def cycle_raises_def split: option.split)
  next
    case (Inr rows)
    then show ?thesis
      using None score_overflows_iff [of env] brief_cycle_run(2) [OF None Inr] by (auto simp: cycle_raises_def)
  qed
qed (simp add: generate_and_archive_executive_brief_def cycle_raises_def)

lemma newest_brief_shown:
  assumes "briefs b' = briefs b @ [r]" and "\<forall>x\<in>set (briefs b). bf_generated_at x < bf_generated_at r"
  shows "latest_brief True utcnow (Inr b') = Inr r"
  using sort_key_first [of "briefs b" "\<lambda>r. - bf_generated_at r" r] assms by (simp add: latest_brief_def answer_def)

text \<open>
  C38: One cycle of the brief daemon. When the connection or the query fails, or a row of the last hour has a score beyond INT, it
  ends with an exception and archives nothing. Otherwise it shows the model at most fifty rows of the last hour, highest score
  first, none scoring less than a row left out, and none only if there is none; it archives exactly one brief, the stripped text of
  the model's answer, when there are rows, the answer has a text and the INSERT succeeds, and nothing in every other
  case; the endpoint then shows that brief as long as no other is newer. It ends with an exception exactly when giving the connection
  back fails or the call or the INSERT is cancelled; every other failure behind the query is logged only.
\<close>

theorem brief_cycle:
  assumes run: "generate_and_archive_executive_brief model env b = (res, b')"
  shows "(be_query env \<noteq> None \<or> score_overflows env \<longrightarrow> (\<exists>e. res = Inl e) \<and> b' = b) \<and>
    (be_query env = None \<and> \<not> score_overflows env \<longrightarrow>
      (\<exists>rows. let recent = {f \<in> set (feed (be_feed env)). be_now env - seconds 3600 \<le> f_ingested_at f} in
         set rows \<subseteq> recent \<and> length rows \<le> 50 \<and> (rows = [] \<longleftrightarrow> recent = {}) \<and>
         sorted (map (\<lambda>f. - (f_likes f + f_retweets f)) rows) \<and>
         (\<forall>f\<in>recent - set rows. \<forall>r\<in>set rows. f_likes f + f_retweets f \<le> f_likes r + f_retweets r) \<and>
         (rows \<noteq> [] \<and> be_insert env = None \<longrightarrow> (\<forall>content. summarized model env rows content \<longrightarrow>
            (let brief = \<lparr>bf_id = brief_seq b, bf_summary = strip content, bf_generated_at = be_insert_time env\<rparr> in
             briefs b' = briefs b @ [brief] \<and>
             ((\<forall>r\<in>set (briefs b). bf_generated_at r < be_insert_time env) \<longrightarrow> latest_brief True utcnow (Inr b') = Inr brief)))) \<and>
         (rows = [] \<or> be_insert env \<noteq> None \<or> \<not> (\<exists>content. summarized model env rows content) \<longrightarrow> b' = b) \<and>
         ((\<exists>e. res = Inl e) \<longleftrightarrow> be_release env \<noteq> None \<or> cancelled_at_work model env rows)))"
proof (intro conjI impI)
  assume fails: "be_query env \<noteq> None \<or> score_overflows env"
  then have "cycle_raises model env" by (auto simp: cycle_raises_def)
  then show "\<exists>e. res = Inl e" using brief_raises [of model env b] run by simp
  show "b' = b"
    using fails run unfolding score_overflows_iff
    by (auto simp: generate_and_archive_executive_brief_def split: option.splits)
next
  assume ok: "be_query env = None \<and> \<not> score_overflows env"
  then obtain rows where rows: "viral_rows (be_now env) (be_feed env) = Inr rows"
    by (cases "viral_rows (be_now env) (be_feed env)") (auto simp: score_overflows_iff)
  note top = viral_rows_Inr [OF rows]
  note cyc = brief_cycle_run [OF conjunct1 [OF ok] rows, of model b, unfolded run fst_conv snd_conv]
  let ?recent = "{f \<in> set (feed (be_feed env)). be_now env - seconds 3600 \<le> f_ingested_at f}"
  have recent: "set (recent_rows (seconds 3600) (be_now env) (feed (be_feed env))) = ?recent" by (auto simp: recent_rows_def)
  have "briefs b' = briefs b @ [\<lparr>bf_id = brief_seq b, bf_summary = strip content, bf_generated_at = be_insert_time env\<rparr>]"
    if "rows \<noteq> []" "be_insert env = None" "summarized model env rows content" for content
    using cyc(1) that archive_brief_writes(1) by simp
  moreover have "b' = b" if "rows = [] \<or> be_insert env \<noteq> None \<or> \<not> (\<exists>content. summarized model env rows content)"
    using cyc(1) that archive_brief_writes(2) [of env model rows b] by (cases "rows = []") auto
  moreover have "rows = [] \<longleftrightarrow> ?recent = {}" using top(4) recent by (metis set_empty)
  moreover have "sorted (map (\<lambda>f. - (f_likes f + f_retweets f)) rows)"
    using viral_rows_sorted [OF rows] by (simp add: viral_score_def)
  moreover have "\<forall>f\<in>?recent - set rows. \<forall>r\<in>set rows. f_likes f + f_retweets f \<le> f_likes r + f_retweets r"
    using top(3) unfolding recent viral_score_def by blast
  ultimately show "\<exists>rows. let recent = ?recent in
         set rows \<subseteq> recent \<and> length rows \<le> 50 \<and> (rows = [] \<longleftrightarrow> recent = {}) \<and>
         sorted (map (\<lambda>f. - (f_likes f + f_retweets f)) rows) \<and>
         (\<forall>f\<in>recent - set rows. \<forall>r\<in>set rows. f_likes f + f_retweets f \<le> f_likes r + f_retweets r) \<and>
         (rows \<noteq> [] \<and> be_insert env = None \<longrightarrow> (\<forall>content. summarized model env rows content \<longrightarrow>
            (let brief = \<lparr>bf_id = brief_seq b, bf_summary = strip content, bf_generated_at = be_insert_time env\<rparr> in
             briefs b' = briefs b @ [brief] \<and>
             ((\<forall>r\<in>set (briefs b). bf_generated_at r < be_insert_time env) \<longrightarrow> latest_brief True utcnow (Inr b') = Inr brief)))) \<and>
         (rows = [] \<or> be_insert env \<noteq> None \<or> \<not> (\<exists>content. summarized model env rows content) \<longrightarrow> b' = b) \<and>
         ((\<exists>e. res = Inl e) \<longleftrightarrow> be_release env \<noteq> None \<or> cancelled_at_work model env rows)"
    unfolding Let_def using top(1,2) recent cyc(2) newest_brief_shown [of b' b]
    by (intro exI [of _ rows] conjI impI allI) simp_all
qed

definition sample_completion :: pyval where
  "sample_completion = PDict [(''choices'', PList [PDict [(''message'', PDict [(''content'', PStr '' - AI is news '')])]])]"

definition sample_brief_env :: brief_env where
  "sample_brief_env = \<lparr>be_query = None, be_now = 20, be_feed = sample_fdb, be_llm = (\<lambda>_. Inr sample_completion),
     be_insert = None, be_insert_time = 21, be_release = None\<rparr>"

theorem brief_cycle_witness:
  "\<exists>u b'. generate_and_archive_executive_brief ''gpt-4o-mini'' sample_brief_env \<lparr>briefs = [], brief_seq = 1\<rparr> = (Inr u, b') \<and>
     latest_brief True 0 (Inr b') = Inr \<lparr>bf_id = 1, bf_summary = ''- AI is news'', bf_generated_at = 21\<rparr>"
proof -
  obtain res b' where run: "generate_and_archive_executive_brief ''gpt-4o-mini'' sample_brief_env \<lparr>briefs = [], brief_seq = 1\<rparr> = (res, b')"
    by fastforce
  have feed: "list_all (\<lambda>f. 20 - seconds 3600 \<le> f_ingested_at f \<and> f_likes f + f_retweets f \<le> max_int4) (feed sample_fdb)"
    "feed sample_fdb \<noteq> []"
    by code_simp+
  have env: "be_query sample_brief_env = None" "\<not> score_overflows sample_brief_env" "be_insert sample_brief_env = None"
    "be_insert_time sample_brief_env = 21" "be_release sample_brief_env = None"
    "\<not> cancelled_at_work ''gpt-4o-mini'' sample_brief_env rows" for rows
    using feed(1) by (auto simp: sample_brief_env_def score_overflows_def cancelled_at_work_def list_all_iff)
  have said: "summarized ''gpt-4o-mini'' sample_brief_env rows '' - AI is news ''" for rows
    by (simp add: summarized_def sample_brief_env_def has_content_def sample_completion_def)
  have some: "{f \<in> set (feed (be_feed sample_brief_env)). be_now sample_brief_env - seconds 3600 \<le> f_ingested_at f} \<noteq> {}"
    using feed by (cases "feed sample_fdb") (auto simp: sample_brief_env_def)
  have strip: "strip '' - AI is news '' = ''- AI is news''" by code_simp
  note cycle = brief_cycle [OF run, where utcnow = 0, unfolded Let_def env(3-5), THEN conjunct2, THEN mp, OF conjI [OF env(1,2)]]
  have returns: "\<exists>u. res = Inr u" using cycle env(6) by (cases res) auto
  have "latest_brief True 0 (Inr b') = Inr \<lparr>bf_id = 1, bf_summary = strip '' - AI is news '', bf_generated_at = 21\<rparr>"
    using cycle some said by (elim exE) auto
  then show ?thesis using run strip returns by auto
qed

theorem trends_ranked_witness:
  "\<exists>rows. trend_spikes (\<lambda>c. c = CHR '' '') id True 20 (Inr sample_fdb) = Inr rows \<and> list_all (\<lambda>r. tr_weight r = 1) rows"
proof -
  have topics: "topics_at (\<lambda>c. c = CHR '' '') 20 sample_fdb = [''ai'', ''is'', ''news'']" by code_simp
  have one: "count_list [''ai'', ''is'', ''news''] w = 1" if "w \<in> set [''ai'', ''is'', ''news'']" for w using that by auto
  obtain rows where run: "trend_spikes (\<lambda>c. c = CHR '' '') id True 20 (Inr sample_fdb) = Inr rows"
    and "\<forall>r\<in>set rows. tr_topic r \<in> set [''ai'', ''is'', ''news''] \<and> tr_weight r = int (count_list [''ai'', ''is'', ''news''] (tr_topic r))"
    using trends_ranked [of "\<lambda>c. c = CHR '' ''" id 20 sample_fdb] unfolding topics by blast
  then have "\<forall>r\<in>set rows. tr_weight r = 1" using one by (metis of_nat_1)
  with run show ?thesis by (auto simp: list_all_iff)
qed

section \<open>Health\<close>

text \<open>
  The figures for tasks leave some out: the endpoint asks for the legacy status \<open>RETRYING\<close>, which no row of the ledger has,
  so a task waiting for its retry, like one that is enqueued, is in neither figure.
\<close>

lemma health_counts:
  assumes "ledger_inv db" and "get_system_operational_health True now (Inr (td, db, db2)) = Inr h"
  shows "hl_pending_tasks h = int (count_where (\<lambda>t. t_status t = PENDING) (tasks db))"
    and "hl_pending_tasks h + hl_running_tasks h +
      int (count_where (\<lambda>t. t_status t \<in> {ENQUEUED, RETRY_SCHEDULED, DONE, DEAD_LETTER}) (tasks db)) = int (length (tasks db))"
proof -
  have ok: "\<forall>t\<in>set (tasks db). t_status t \<noteq> RETRYING" using ledger_task_ok [OF assms(1)] by (auto simp: task_ok_def)
  have h: "hl_pending_tasks h = int (count_where (\<lambda>t. t_status t \<in> {PENDING, RETRYING}) (tasks db))"
    "hl_running_tasks h = int (count_where (\<lambda>t. t_status t = RUNNING) (tasks db))"
    using assms(2) by (auto simp: get_system_operational_health_def Let_def)
  have "count_where (\<lambda>t. t_status t \<in> {PENDING, RETRYING}) (tasks db) = count_where (\<lambda>t. t_status t = PENDING) (tasks db)"
    by (rule count_where_cong) (use ok in auto)
  then show "hl_pending_tasks h = int (count_where (\<lambda>t. t_status t = PENDING) (tasks db))" by (simp add: h)
  have "count_where (\<lambda>t. t_status t \<in> {PENDING, RETRYING}) ts + count_where (\<lambda>t. t_status t = RUNNING) ts +
      count_where (\<lambda>t. t_status t \<in> {ENQUEUED, RETRY_SCHEDULED, DONE, DEAD_LETTER}) ts = length ts" for ts
  proof (induction ts)
    case (Cons t ts)
    then show ?case by (cases "t_status t") auto
  qed simp
  then show "hl_pending_tasks h + hl_running_tasks h +
      int (count_where (\<lambda>t. t_status t \<in> {ENQUEUED, RETRY_SCHEDULED, DONE, DEAD_LETTER}) (tasks db)) = int (length (tasks db))"
    unfolding h by (metis of_nat_add)
qed

end
