(* ===== verification/Daemons.thy ===== *)
theory Daemons
  imports DashboardProps Worker TokenProps
begin

text \<open>
  The loops of the background processes: \<open>analytics_alerts.py\<close>, \<open>analytics_briefs.py\<close>, \<open>db_cleanup.py\<close>,
  \<open>token_refresh_service.py\<close> and the \<open>token_recovery_loop\<close> of the worker. Each waits between two passes and looks
  for the shutdown before each; a run is the list of its passes, each with what the pass saw and what failed in it.
\<close>

section \<open>The common loop\<close>

text \<open>
  \<open>guarded\<close> says whether the loop has an \<open>except Exception\<close> around its pass, which lets a cancellation through.
  A cancellation between two passes is a pass that is cancelled before it does anything.
\<close>

fun poll_loop :: "bool \<Rightarrow> ('e \<Rightarrow> 's \<Rightarrow> (exc + unit) \<times> 's) \<Rightarrow> 'e list \<Rightarrow> 's \<Rightarrow> (exc + unit) \<times> 's" where
  "poll_loop guarded pass [] s = (Inr (), s)"
| "poll_loop guarded pass (env # envs) s =
     (let (res, s1) = pass env s
      in case (if guarded then except_logged res else res) of
           Inl e \<Rightarrow> (Inl e, s1)
         | Inr _ \<Rightarrow> poll_loop guarded pass envs s1)"

text \<open>
  A daemon whose connection pool cannot be made logs that and returns; otherwise it closes the pool when its loop has ended, and
  what closing raises ends it too.
\<close>

record daemon_pool =
  po_create :: "exc option"
  po_close :: "exc option"

definition with_pool :: "daemon_pool \<Rightarrow> ((exc + unit) \<times> 's) \<Rightarrow> 's \<Rightarrow> (exc + unit) \<times> 's" where
  "with_pool po run s =
     (case po_create po of
        Some e \<Rightarrow> (except_logged (Inl e), s)
      | None \<Rightarrow> (case po_close po of Some e \<Rightarrow> (Inl e, snd run) | None \<Rightarrow> run))"

section \<open>The alert daemon\<close>

text \<open>
  The connection is not in a transaction, so when the insert after the first \<open>n\<close> fails (the query itself, with \<open>n = 0\<close>),
  those \<open>n\<close> stay.
\<close>

record alert_env =
  ae_now :: time
  ae_insert_time :: "string \<Rightarrow> time"
  ae_fails :: "(nat \<times> exc) option"

definition alert_pass :: "int \<Rightarrow> alert_env \<Rightarrow> fdb \<Rightarrow> (exc + unit) \<times> fdb" where
  "alert_pass threshold env db =
     (let db1 = process_velocity_spike_detection threshold (ae_now env) (ae_insert_time env) db
      in case ae_fails env of
           None \<Rightarrow> (Inr (), db1)
         | Some (n, e) \<Rightarrow> (Inl e, db1\<lparr>feed_alerts := take (length (feed_alerts db) + n) (feed_alerts db1)\<rparr>))"

definition alerts_main :: "int \<Rightarrow> daemon_pool \<Rightarrow> alert_env list \<Rightarrow> fdb \<Rightarrow> (exc + unit) \<times> fdb" where
  "alerts_main threshold po envs db = with_pool po (poll_loop True (alert_pass threshold) envs db) db"

section \<open>The cleanup daemon\<close>

record cleanup_env =
  ce_now :: time
  ce_tx_fails :: "exc option"
  ce_vacuum_fails :: "exc option"

definition execute_database_garbage_collection ::
  "int \<Rightarrow> cleanup_env \<Rightarrow> cdb \<times> fdb \<Rightarrow> (exc + unit) \<times> cdb \<times> fdb" where
  "execute_database_garbage_collection retention_days env stores =
     (case ce_tx_fails env of
        Some e \<Rightarrow> (Inl e, stores)
      | None \<Rightarrow>
          (let stores1 = (snd (purge_done (fst stores)), purge_feed retention_days (ce_now env) (snd stores))
           in case ce_vacuum_fails env of Some e \<Rightarrow> (Inl e, stores1) | None \<Rightarrow> (Inr (), stores1)))"

definition cleanup_main ::
  "int \<Rightarrow> daemon_pool \<Rightarrow> cleanup_env list \<Rightarrow> cdb \<times> fdb \<Rightarrow> (exc + unit) \<times> cdb \<times> fdb" where
  "cleanup_main retention_days po envs stores =
     with_pool po (poll_loop True (execute_database_garbage_collection retention_days) envs stores) stores"

section \<open>The recovery of benched sessions\<close>

text \<open>A pass is the time of the statement, or the exception it raised.\<close>

definition recovery_pass :: "exc + time \<Rightarrow> tdb \<Rightarrow> (exc + unit) \<times> tdb" where
  "recovery_pass env db = (case env of Inl e \<Rightarrow> (Inl e, db) | Inr now \<Rightarrow> (Inr (), snd (recover_expired_cooldowns now db)))"

definition token_recovery_loop :: "(exc + time) list \<Rightarrow> tdb \<Rightarrow> (exc + unit) \<times> tdb" where
  "token_recovery_loop envs db = poll_loop True recovery_pass envs db"

section \<open>The repair daemon\<close>

text \<open>
  It has no guard and no shutdown: its run ends with an exception, of which a cancellation is taken as the shutdown. A pass is the
  query's exception or the surroundings of the repairs.
\<close>

definition repair_pass :: "exc + repair_env \<Rightarrow> tdb \<Rightarrow> (exc + unit) \<times> tdb" where
  "repair_pass env db = (case env of Inl e \<Rightarrow> (Inl e, db) | Inr r \<Rightarrow> scan_and_triage_dead_tokens r db)"

definition except_cancelled :: "exc + unit \<Rightarrow> exc + unit" where
  "except_cancelled r = (if r = Inl CancelledError then Inr () else r)"

definition repair_main :: "daemon_pool \<Rightarrow> (exc + repair_env) list \<Rightarrow> tdb \<Rightarrow> (exc + unit) \<times> tdb" where
  "repair_main po envs db = with_pool po (map_prod except_cancelled id (poll_loop False repair_pass envs db)) db"

section \<open>The brief daemon\<close>

text \<open>Its loop has no guard either.\<close>

definition briefs_main :: "string \<Rightarrow> daemon_pool \<Rightarrow> brief_env list \<Rightarrow> bdb \<Rightarrow> (exc + unit) \<times> bdb" where
  "briefs_main model po envs b = with_pool po (poll_loop False (generate_and_archive_executive_brief model) envs b) b"

section \<open>What a loop keeps and ensures\<close>

lemma poll_loop_guarded_step:
  "poll_loop True pass (env # envs) s =
     (if fst (pass env s) = Inl CancelledError then (Inl CancelledError, snd (pass env s))
      else poll_loop True pass envs (snd (pass env s)))"
proof (cases "pass env s")
  case (Pair r s1)
  then show ?thesis by (cases r) auto
qed

declare poll_loop.simps(2) [simp del]

lemma poll_loop_keeps:
  assumes "\<And>env s. P s \<Longrightarrow> P (snd (pass env s))"
  shows "P s \<Longrightarrow> P (snd (poll_loop guarded pass envs s))"
proof (induction envs arbitrary: s)
  case (Cons env envs)
  have "P (snd (pass env s))" by (rule assms [OF Cons.prems])
  then show ?case
    using Cons.IH by (cases "pass env s") (auto simp: poll_loop.simps(2) split: sum.split)
qed simp

text \<open>A guarded loop ends early exactly when a pass is cancelled; if none before the last is, the last one runs.\<close>

lemma poll_loop_raises:
  assumes "\<And>env s. fst (pass env s) = Inl CancelledError \<longleftrightarrow> C env"
  shows "fst (poll_loop True pass envs s) = (if \<exists>env\<in>set envs. C env then Inl CancelledError else Inr ())"
  by (induction envs arbitrary: s) (auto simp: poll_loop_guarded_step assms)

lemma poll_loop_last:
  assumes "envs \<noteq> []" and "\<forall>env\<in>set envs. \<not> C env" and "\<And>env s. fst (pass env s) = Inl CancelledError \<longleftrightarrow> C env"
    and "\<And>s. P s \<Longrightarrow> Q (snd (pass (last envs) s))" and "\<And>env s. P s \<Longrightarrow> P (snd (pass env s))" and "P s"
  shows "Q (snd (poll_loop True pass envs s))"
  using assms(1,2,4,6)
proof (induction envs arbitrary: s rule: list_nonempty_induct)
  case (single env)
  then show ?case by (simp add: poll_loop_guarded_step assms(3))
next
  case (cons env envs)
  then show ?case using assms(5) by (simp add: poll_loop_guarded_step assms(3))
qed

lemma poll_loop_unguarded_raises:
  assumes "\<And>env s. (\<exists>e. fst (pass env s) = Inl e) \<longleftrightarrow> R env"
  shows "(\<exists>e. fst (poll_loop False pass envs s) = Inl e) \<longleftrightarrow> (\<exists>env\<in>set envs. R env)"
proof (induction envs arbitrary: s)
  case (Cons env envs)
  then show ?case
    using assms [of env s] by (cases "pass env s") (auto simp: poll_loop.simps(2) split: sum.split)
qed simp

text \<open>A pool that can be made and closed; what a daemon does otherwise.\<close>

definition pool_works :: "daemon_pool \<Rightarrow> bool" where
  "pool_works po \<longleftrightarrow> po_create po = None \<and> po_close po = None"

lemma with_pool_works [simp]: "pool_works po \<Longrightarrow> with_pool po run s = run"
  by (simp add: pool_works_def with_pool_def)

lemma with_pool_keeps: "P s \<Longrightarrow> P (snd run) \<Longrightarrow> P (snd (with_pool po run s))"
  by (auto simp: with_pool_def split: option.split)

section \<open>Passes\<close>

definition alerts_grown :: "int \<Rightarrow> fdb \<Rightarrow> fdb \<Rightarrow> bool" where
  "alerts_grown threshold db db' \<longleftrightarrow>
     (\<exists>more. db' = db\<lparr>feed_alerts := feed_alerts db @ more\<rparr> \<and> (\<forall>a\<in>set more. threshold < al_volume a \<and> al_threshold a = threshold))"

lemma alerts_grown_refl: "alerts_grown th db db"
  by (auto simp: alerts_grown_def intro: exI [of _ "[]"])

lemma alerts_grown_trans: "alerts_grown th db db1 \<Longrightarrow> alerts_grown th db1 db2 \<Longrightarrow> alerts_grown th db db2"
  unfolding alerts_grown_def by (elim exE conjE) (rule_tac x = "more @ morea" in exI, auto)

lemma alert_pass_grows: "alerts_grown th db (snd (alert_pass th env db))"
proof -
  define more where "more = map (\<lambda>w. \<lparr>al_keyword = w, al_volume = recent_volume (ae_now env) (rollups db) w, al_threshold = th,
      al_triggered_at = ae_insert_time env w\<rparr>)
    (sort_key (\<lambda>w. - recent_volume (ae_now env) (rollups db) w) (spiking_keywords th (ae_now env) (rollups db)))"
  have run: "process_velocity_spike_detection th (ae_now env) (ae_insert_time env) db = db\<lparr>feed_alerts := feed_alerts db @ more\<rparr>"
    by (simp add: process_velocity_spike_detection_def Let_def more_def)
  have over: "\<forall>a\<in>set more. th < al_volume a \<and> al_threshold a = th" by (auto simp: more_def spiking_keywords_def)
  have "\<exists>n. snd (alert_pass th env db) = db\<lparr>feed_alerts := feed_alerts db @ take n more\<rparr>"
    by (cases "ae_fails env") (auto simp: alert_pass_def run split: prod.split intro: exI [of _ "length more"])
  then show ?thesis using over by (auto simp: alerts_grown_def dest: in_set_takeD)
qed

lemma alert_pass_rollups: "rollups (snd (alert_pass th env db)) = rollups db"
  using alert_pass_grows [of th db env] by (auto simp: alerts_grown_def)

lemma cleanup_pass_clean:
  assumes "ce_tx_fails env = None"
  shows "(\<forall>t\<in>set (tasks (fst (snd (execute_database_garbage_collection days env s)))). \<not> purgeable t) \<and>
    (\<forall>f\<in>set (feed (snd (snd (execute_database_garbage_collection days env s)))). ce_now env - days * seconds 86400 \<le> f_ingested_at f)"
proof -
  have "snd (execute_database_garbage_collection days env s) = (snd (purge_done (fst s)), purge_feed days (ce_now env) (snd s))"
    using assms by (simp add: execute_database_garbage_collection_def Let_def split: option.split)
  moreover have "\<forall>t\<in>set (tasks (snd (purge_done db))). \<not> purgeable t" for db
    by (simp add: purge_done_def Let_def ball_update_where) (simp add: purgeable_def)
  ultimately show ?thesis by (auto simp: purge_feed_def Let_def not_less)
qed

lemma recovery_pass_clean: "env = Inr now \<Longrightarrow> \<forall>k\<in>set (tokens (snd (recovery_pass env db))). \<not> cooled_down now k"
  by (auto simp: recovery_pass_def recover_expired_cooldowns_def set_update_where cooled_down_def revive_token_def)

section \<open>The daemons\<close>

definition alert_cancelled :: "alert_env \<Rightarrow> bool" where
  "alert_cancelled env \<longleftrightarrow> (\<exists>n. ae_fails env = Some (n, CancelledError))"

definition cleanup_cancelled :: "cleanup_env \<Rightarrow> bool" where
  "cleanup_cancelled env \<longleftrightarrow> ce_tx_fails env = Some CancelledError \<or> ce_tx_fails env = None \<and> ce_vacuum_fails env = Some CancelledError"

lemma pass_cancelled:
  "fst (alert_pass th aenv fd) = Inl CancelledError \<longleftrightarrow> alert_cancelled aenv"
  "fst (execute_database_garbage_collection days cenv stores) = Inl CancelledError \<longleftrightarrow> cleanup_cancelled cenv"
  "fst (recovery_pass renv td) = Inl CancelledError \<longleftrightarrow> renv = Inl CancelledError"
  by (auto simp: alert_pass_def alert_cancelled_def execute_database_garbage_collection_def cleanup_cancelled_def
      recovery_pass_def Let_def split: option.split sum.split)

lemma alert_pass_alerts:
  assumes "ae_fails env = None" and "r \<in> set (rollups db)" and "ae_now env - seconds 3600 \<le> kr_window r"
    and "th < recent_volume (ae_now env) (rollups db) (kr_keyword r)"
  shows "\<lparr>al_keyword = kr_keyword r, al_volume = recent_volume (ae_now env) (rollups db) (kr_keyword r), al_threshold = th,
    al_triggered_at = ae_insert_time env (kr_keyword r)\<rparr> \<in> set (feed_alerts (snd (alert_pass th env db)))"
  using assms by (auto simp: alert_pass_def process_velocity_spike_detection_def Let_def spiking_keywords_def)

text \<open>
  C35: With a connection pool, the alert daemon, the cleanup daemon and the recovery of sessions outlive whatever fails in their
  passes and end early only when a pass is cancelled. Alerts are only added, each above the threshold, and nothing else of the
  feed's store changes; after a scan that did not fail there is one for every keyword whose volume of the last hour is above
  the threshold. After a cleanup whose last transaction committed no finished unleased task and no row older than the retention is
  left; after a recovery whose last statement ran no session's cooldown has passed. The brief daemon has no guard: it dies
  exactly when a cycle fails to get or give back its connection, to run its query (a score beyond INT included), or is cancelled.
\<close>

theorem daemons_outlive_failures:
  assumes "pool_works po"
  shows "fst (alerts_main th po aenvs fd) = (if \<exists>env\<in>set aenvs. alert_cancelled env then Inl CancelledError else Inr ()) \<and>
   alerts_grown th fd (snd (alerts_main th po aenvs fd)) \<and>
   (aenvs \<noteq> [] \<and> \<not> (\<exists>env\<in>set aenvs. alert_cancelled env) \<and> ae_fails (last aenvs) = None \<longrightarrow>
      (\<forall>r\<in>set (rollups fd). ae_now (last aenvs) - seconds 3600 \<le> kr_window r \<longrightarrow>
         (let volume = recent_volume (ae_now (last aenvs)) (rollups fd) (kr_keyword r) in th < volume \<longrightarrow>
            (\<exists>a\<in>set (feed_alerts (snd (alerts_main th po aenvs fd))). al_keyword a = kr_keyword r \<and> al_volume a = volume)))) \<and>
   fst (cleanup_main days po cenvs stores) = (if \<exists>env\<in>set cenvs. cleanup_cancelled env then Inl CancelledError else Inr ()) \<and>
   (cenvs \<noteq> [] \<and> \<not> (\<exists>env\<in>set cenvs. cleanup_cancelled env) \<and> ce_tx_fails (last cenvs) = None \<longrightarrow>
      (\<forall>t\<in>set (tasks (fst (snd (cleanup_main days po cenvs stores)))). \<not> (t_status t = DONE \<and> t_leased_at t = None)) \<and>
      (\<forall>f\<in>set (feed (snd (snd (cleanup_main days po cenvs stores)))).
         ce_now (last cenvs) - days * seconds 86400 \<le> f_ingested_at f)) \<and>
   fst (token_recovery_loop renvs td) = (if Inl CancelledError \<in> set renvs then Inl CancelledError else Inr ()) \<and>
   (renvs \<noteq> [] \<and> Inl CancelledError \<notin> set renvs \<and> last renvs = Inr now \<longrightarrow>
      (\<forall>k\<in>set (tokens (snd (token_recovery_loop renvs td))).
         \<not> (k_status k = COOLDOWN \<and> (\<exists>until. k_cooldown_until k = Some until \<and> until \<le> now)))) \<and>
   ((\<exists>e. fst (briefs_main model po benvs b) = Inl e) \<longleftrightarrow> (\<exists>env\<in>set benvs. cycle_raises model env))"
proof (intro conjI impI)
  note pool = with_pool_works [OF assms]
  show "fst (alerts_main th po aenvs fd) = (if \<exists>env\<in>set aenvs. alert_cancelled env then Inl CancelledError else Inr ())"
    unfolding alerts_main_def pool by (rule poll_loop_raises) (rule pass_cancelled)
  show "alerts_grown th fd (snd (alerts_main th po aenvs fd))"
    unfolding alerts_main_def pool
    by (rule poll_loop_keeps [where P = "alerts_grown th fd"]) (blast intro: alerts_grown_trans alert_pass_grows alerts_grown_refl)+
  show "fst (cleanup_main days po cenvs stores) = (if \<exists>env\<in>set cenvs. cleanup_cancelled env then Inl CancelledError else Inr ())"
    unfolding cleanup_main_def pool by (rule poll_loop_raises) (rule pass_cancelled)
  show "fst (token_recovery_loop renvs td) = (if Inl CancelledError \<in> set renvs then Inl CancelledError else Inr ())"
    unfolding token_recovery_loop_def poll_loop_raises [where pass = recovery_pass, OF pass_cancelled(3)] by auto
  show "(\<exists>e. fst (briefs_main model po benvs b) = Inl e) \<longleftrightarrow> (\<exists>env\<in>set benvs. cycle_raises model env)"
    unfolding briefs_main_def pool by (rule poll_loop_unguarded_raises) (rule brief_raises)
next
  assume last: "aenvs \<noteq> [] \<and> \<not> (\<exists>env\<in>set aenvs. alert_cancelled env) \<and> ae_fails (last aenvs) = None"
  let ?told = "\<lambda>db. \<forall>r\<in>set (rollups fd). ae_now (last aenvs) - seconds 3600 \<le> kr_window r \<longrightarrow>
         (let volume = recent_volume (ae_now (last aenvs)) (rollups fd) (kr_keyword r) in th < volume \<longrightarrow>
            (\<exists>a\<in>set (feed_alerts db). al_keyword a = kr_keyword r \<and> al_volume a = volume))"
  have scan: "?told (snd (alert_pass th (last aenvs) db))" if "rollups db = rollups fd" for db
    using alert_pass_alerts [of "last aenvs" _ db th] last that unfolding Let_def by fastforce
  show "?told (snd (alerts_main th po aenvs fd))"
    unfolding alerts_main_def with_pool_works [OF assms]
    by (rule poll_loop_last [where C = alert_cancelled and P = "\<lambda>db. rollups db = rollups fd" and Q = ?told, OF _ _ pass_cancelled(1)])
      (use last scan in \<open>simp_all add: alert_pass_rollups\<close>)
next
  assume last: "cenvs \<noteq> [] \<and> \<not> (\<exists>env\<in>set cenvs. cleanup_cancelled env) \<and> ce_tx_fails (last cenvs) = None"
  let ?clean = "\<lambda>s. (\<forall>t\<in>set (tasks (fst s)). \<not> (t_status t = DONE \<and> t_leased_at t = None)) \<and>
    (\<forall>f\<in>set (feed (snd s)). ce_now (last cenvs) - days * seconds 86400 \<le> f_ingested_at f)"
  have "?clean (snd (cleanup_main days po cenvs stores))"
    unfolding cleanup_main_def with_pool_works [OF assms]
    by (rule poll_loop_last [where C = cleanup_cancelled and P = "\<lambda>_. True" and Q = ?clean, OF _ _ pass_cancelled(2)])
      (use last cleanup_pass_clean in \<open>auto simp: purgeable_def\<close>)
  then show "\<forall>t\<in>set (tasks (fst (snd (cleanup_main days po cenvs stores)))). \<not> (t_status t = DONE \<and> t_leased_at t = None)"
    and "\<forall>f\<in>set (feed (snd (snd (cleanup_main days po cenvs stores)))). ce_now (last cenvs) - days * seconds 86400 \<le> f_ingested_at f"
    by simp_all
next
  assume last: "renvs \<noteq> [] \<and> Inl CancelledError \<notin> set renvs \<and> last renvs = Inr now"
  let ?clean = "\<lambda>db. \<forall>k\<in>set (tokens db). \<not> (k_status k = COOLDOWN \<and> (\<exists>until. k_cooldown_until k = Some until \<and> until \<le> now))"
  show "?clean (snd (token_recovery_loop renvs td))"
    unfolding token_recovery_loop_def
    by (rule poll_loop_last [where C = "\<lambda>env. env = Inl CancelledError" and P = "\<lambda>_. True" and Q = ?clean, OF _ _ pass_cancelled(3)])
      (use last recovery_pass_clean in \<open>fastforce simp: cooled_down_def null_le_def\<close>)+
qed

definition sample_cleanup :: cleanup_env where
  "sample_cleanup = \<lparr>ce_now = 30, ce_tx_fails = None, ce_vacuum_fails = Some (DbError ''vacuum'')\<rparr>"

text \<open>A cleanup whose VACUUM fails, a recovery whose first statement fails, and a brief daemon that loses its database.\<close>

theorem daemons_outlive_failures_witness:
  "let po = \<lparr>po_create = None, po_close = None\<rparr>; lost = sample_brief_env\<lparr>be_query := Some (DbError ''down'')\<rparr> in
   fst (cleanup_main 30 po [sample_cleanup] (pending_db, sample_fdb)) = Inr () \<and>
   list_all (\<lambda>t. t_status t \<noteq> DONE \<or> t_leased_at t \<noteq> None) (tasks (fst (snd (cleanup_main 30 po [sample_cleanup] (pending_db, sample_fdb))))) \<and>
   fst (token_recovery_loop [Inl (DbError ''down''), Inr 50] sample_tdb) = Inr () \<and>
   (\<exists>e. fst (briefs_main ''gpt-4o-mini'' po [lost] \<lparr>briefs = [], brief_seq = 1\<rparr>) = Inl e)"
  using daemons_outlive_failures [of "\<lparr>po_create = None, po_close = None\<rparr>" 5 "[]" sample_fdb 30 "[sample_cleanup]"
      "(pending_db, sample_fdb)" "[Inl (DbError ''down''), Inr 50]" sample_tdb 50 "''gpt-4o-mini''"
      "[sample_brief_env\<lparr>be_query := Some (DbError ''down'')\<rparr>]" "\<lparr>briefs = [], brief_seq = 1\<rparr>"]
  by (simp add: pool_works_def sample_cleanup_def cleanup_cancelled_def cycle_raises_def list_all_iff Let_def)

end
