(* ===== verification/Contracts.thy ===== *)
theory Contracts
  imports CapabilityProps Tokens
begin

text \<open>
  How \<open>xingestion/capabilities.py\<close> builds its contracts from a decoded JSON document, that what such a document says of a
  capability is what requests are held to, and that the shipped document \<open>contracts/capabilities.v1.json\<close> builds the contract
  the planner's theory is about.
\<close>

section \<open>Reading fields\<close>

text \<open>
  The records of the model hold integers as bounds, a text as format and a dictionary as pagination. A document
  with other JSON values there is accepted by the program, whose dataclasses check nothing, and is outside this model.
\<close>

definition outside_model :: exc where
  "outside_model = Other ''outside the model'' ''a contract field of another JSON type''"

definition object_of :: "pyval \<Rightarrow> exc + pydict" where
  "object_of v = (case v of PDict d \<Rightarrow> Inr d
     | _ \<Rightarrow> Inl (Other ''AttributeError'' (py_type_name v @ '' object has no attribute get'')))"

definition field_of :: "pydict \<Rightarrow> string \<Rightarrow> exc + pyval" where
  "field_of d k = (case map_of d k of None \<Rightarrow> Inl (KeyError (repr_str k)) | Some v \<Rightarrow> Inr v)"

text \<open>\<open>value["type"]\<close> is the first thing an input specification is asked for.\<close>

definition mapping_of :: "pyval \<Rightarrow> exc + pydict" where
  "mapping_of v = (case v of PDict d \<Rightarrow> Inr d
     | _ \<Rightarrow> Inl (TypeError (py_type_name v @ '' object has no text subscript'')))"

text \<open>\<open>tuple(v)\<close> iterates a list, the characters of a text or the keys of a dictionary.\<close>

definition tuple_of :: "pyval \<Rightarrow> exc + pyval list" where
  "tuple_of v = (case v of
     PList xs \<Rightarrow> Inr xs
   | PStr s \<Rightarrow> Inr (map (\<lambda>c. PStr [c]) s)
   | PDict d \<Rightarrow> Inr (map (\<lambda>(k, _). PStr k) d)
   | _ \<Rightarrow> Inl (TypeError (py_type_name v @ '' object is not iterable'')))"

definition tuple_field :: "pydict \<Rightarrow> string \<Rightarrow> exc + pyval list" where
  "tuple_field d k = (case map_of d k of None \<Rightarrow> Inr [] | Some v \<Rightarrow> tuple_of v)"

definition dict_field :: "pydict \<Rightarrow> string \<Rightarrow> exc + pydict" where
  "dict_field d k = (case map_of d k of None \<Rightarrow> Inr [] | Some (PDict e) \<Rightarrow> Inr e | Some _ \<Rightarrow> Inl outside_model)"

definition integer_field :: "pydict \<Rightarrow> string \<Rightarrow> exc + int option" where
  "integer_field d k = (case dict_get d k of PNone \<Rightarrow> Inr None | PInt i \<Rightarrow> Inr (Some i) | _ \<Rightarrow> Inl outside_model)"

definition text_or_none_field :: "pydict \<Rightarrow> string \<Rightarrow> exc + string option" where
  "text_or_none_field d k = (case dict_get d k of PNone \<Rightarrow> Inr None | PStr s \<Rightarrow> Inr (Some s) | _ \<Rightarrow> Inl outside_model)"

section \<open>from\_dict\<close>

definition input_from_dict :: "(rat \<Rightarrow> string) \<Rightarrow> pyval \<Rightarrow> exc + input_spec" where
  "input_from_dict fr value =
     and_then (mapping_of value) (\<lambda>d.
     and_then (field_of d ''type'') (\<lambda>value_type.
     and_then (tuple_field d ''enum'') (\<lambda>enum.
     and_then (integer_field d ''minimum'') (\<lambda>minimum.
     and_then (integer_field d ''maximum'') (\<lambda>maximum.
     and_then (integer_field d ''minimum_length'') (\<lambda>minimum_length.
     and_then (text_or_none_field d ''format'') (\<lambda>value_format.
       Inr \<lparr>is_type = py_str fr value_type, is_required = truthy (dict_get d ''required''),
            is_nullable = truthy (dict_get d ''nullable''), is_default = dict_get d ''default'',
            is_has_default = (map_of d ''default'' \<noteq> None), is_enum = enum, is_minimum = minimum,
            is_maximum = maximum, is_minimum_length = minimum_length, is_format = value_format\<rparr>)))))))"

fun inputs_from :: "(rat \<Rightarrow> string) \<Rightarrow> pydict \<Rightarrow> exc + (string \<times> input_spec) list" where
  "inputs_from fr [] = Inr []"
| "inputs_from fr ((name, spec) # rest) =
     and_then (input_from_dict fr spec) (\<lambda>i. and_then (inputs_from fr rest) (\<lambda>is. Inr ((name, i) # is)))"

definition spec_from_dict :: "(rat \<Rightarrow> string) \<Rightarrow> pyval \<Rightarrow> exc + capability_spec" where
  "spec_from_dict fr value =
     and_then (object_of value) (\<lambda>d.
     and_then (case map_of d ''inputs'' of None \<Rightarrow> Inr [] | Some v \<Rightarrow> object_of v) (\<lambda>named.
     and_then (inputs_from fr (sort_key fst named)) (\<lambda>inputs.
     and_then (field_of d ''capability_id'') (\<lambda>capability_id.
     and_then (field_of d ''contract_version'') (\<lambda>contract_version.
     and_then (dict_field d ''output'') (\<lambda>_.
     and_then (dict_field d ''pagination'') (\<lambda>pagination.
     and_then (tuple_field d ''required_fidelity'') (\<lambda>_.
     and_then (tuple_field d ''required_provenance'') (\<lambda>_.
       Inr \<lparr>cs_capability_id = py_str fr capability_id, cs_contract_version = py_str fr contract_version,
            cs_inputs = inputs, cs_pagination = pagination\<rparr>)))))))))"

fun specs_from :: "(rat \<Rightarrow> string) \<Rightarrow> pyval list \<Rightarrow> exc + capability_spec list" where
  "specs_from fr [] = Inr []"
| "specs_from fr (item # items) =
     and_then (spec_from_dict fr item) (\<lambda>s. and_then (specs_from fr items) (\<lambda>ss. Inr (s # ss)))"

section \<open>from\_document\<close>

definition from_document :: "(rat \<Rightarrow> string) \<Rightarrow> pyval \<Rightarrow> exc + catalog" where
  "from_document fr document =
     and_then (object_of document) (\<lambda>d.
     and_then (tuple_field d ''capabilities'') (\<lambda>items.
     and_then (specs_from fr items) (\<lambda>specs.
     and_then (field_of d ''artifact_schema_version'') (\<lambda>version.
       make_catalog specs (py_str fr version)))))"

section \<open>The shipped document\<close>

text \<open>\<open>contracts/capabilities.v1.json\<close> as the decoder gives it.\<close>

abbreviation (input) json_input :: "string \<Rightarrow> bool \<Rightarrow> pydict \<Rightarrow> pyval" where
  "json_input t required rest \<equiv> PDict (rest @ [(''required'', PBool required), (''type'', PStr t)])"

definition search_inputs_document :: pydict where
  "search_inputs_document =
     [(''from_user'', json_input ''string'' False [(''nullable'', PBool True)]),
      (''include_replies'', json_input ''boolean'' False [(''default'', PBool True)]),
      (''include_reposts'', json_input ''boolean'' False [(''default'', PBool True)]),
      (''language'', json_input ''string'' False [(''nullable'', PBool True)]),
      (''max_pages'', json_input ''integer'' False [(''default'', PInt 2), (''maximum'', PInt 10), (''minimum'', PInt 1)]),
      (''product'', json_input ''string'' False [(''default'', PStr ''Latest''),
         (''enum'', PList [PStr ''Latest'', PStr ''Top'', PStr ''Media''])]),
      (''query'', json_input ''string'' True [(''minimum_length'', PInt 1)]),
      (''since'', json_input ''string'' False [(''format'', PStr ''date''), (''nullable'', PBool True)]),
      (''to_user'', json_input ''string'' False [(''nullable'', PBool True)]),
      (''until'', json_input ''string'' False [(''format'', PStr ''date''), (''nullable'', PBool True)])]"

definition capabilities_document :: pyval where
  "capabilities_document = PDict
     [(''artifact_schema_version'', PStr ''1''),
      (''capabilities'', PList [PDict
        [(''capability_id'', PStr ''SEARCH_TWEETS''),
         (''contract_version'', PStr ''1''),
         (''description'', PStr ''Retrieve tweets matching a search expression with requested product semantics.''),
         (''inputs'', PDict search_inputs_document),
         (''output'', PDict [(''record_schema_version'', PStr ''tweet-record/v1''), (''record_type'', PStr ''tweet''),
            (''required_identity_fields'', PList [PStr ''tweet_id''])]),
         (''pagination'', PDict [(''cursor_semantics'', PStr ''OPAQUE''), (''default_page_size'', PInt 20),
            (''maximum_page_size'', PInt 200), (''previous_cursor_optional'', PBool True)]),
         (''required_fidelity'', PList (map PStr [''REAL_PLATFORM_IDENTITY'', ''REQUESTED_PRODUCT_SEMANTICS'', ''CURSOR_PROGRESSION''])),
         (''required_provenance'', PList (map PStr [''task_id'', ''run_id'', ''raw_evidence_ref'', ''acquisition_route'',
            ''collector_or_protocol_release'']))]])]"

definition load_default :: "(rat \<Rightarrow> string) \<Rightarrow> exc + catalog" where
  "load_default fr = from_document fr capabilities_document"

lemma search_inputs_sorted: "sort_key fst search_inputs_document = search_inputs_document"
proof -
  have "sorted (map fst search_inputs_document)" by code_simp
  then show ?thesis by (metis sort_key_stable sorted_sort_id sort_key_id_if_sorted)
qed

text \<open>
  The catalog that \<open>load_default\<close> reads from the shipped document holds exactly the contract that the planner is modelled
  with, so what is shown of requests and plans holds of the contract as shipped.
\<close>

lemma shipped_contract:
  "load_default fr = make_catalog [search_tweets_spec] ''1'' \<and>
     load_default fr = Inr [((''SEARCH_TWEETS'', ''1''), search_tweets_spec)]"
proof -
  have inputs: "inputs_from fr search_inputs_document = Inr (cs_inputs search_tweets_spec)"
    by (simp add: search_inputs_document_def search_tweets_spec_def plain_input_def input_from_dict_def mapping_of_def field_of_def
        tuple_field_def tuple_of_def integer_field_def text_or_none_field_def dict_get_def)
  show ?thesis
    by (simp add: load_default_def from_document_def capabilities_document_def object_of_def tuple_field_def tuple_of_def
        spec_from_dict_def search_inputs_sorted inputs field_of_def dict_field_def make_catalog_def spec_key_def)
      (simp add: search_tweets_spec_def)
qed

section \<open>What a document promises\<close>

lemma inputs_from_Inr: "inputs_from fr ds = Inr is \<Longrightarrow> list_all2 (\<lambda>(n, v) (m, i). n = m \<and> input_from_dict fr v = Inr i) ds is"
  by (induction fr ds arbitrary: "is" rule: inputs_from.induct) (auto simp: and_then_Inr)

lemma specs_from_Inr: "specs_from fr items = Inr specs \<Longrightarrow> list_all2 (\<lambda>item spec. spec_from_dict fr item = Inr spec) items specs"
  by (induction fr items arbitrary: specs rule: specs_from.induct) (auto simp: and_then_Inr)

lemma add_specs_Inr:
  "add_specs cat specs = Inr cat' \<Longrightarrow> cat' = cat @ map (\<lambda>s. (spec_key s, s)) specs \<and>
     distinct (map spec_key specs) \<and> fst ` set cat \<inter> spec_key ` set specs = {}"
  by (induction cat specs rule: add_specs.induct) (auto simp: map_of_eq_None_iff split: if_splits)

text \<open>What the entry \<open>g\<close> of an input in the document admits as its value.\<close>

definition admits :: "(rat \<Rightarrow> string) \<Rightarrow> pydict \<Rightarrow> pyval \<Rightarrow> bool" where
  "admits fr g val \<longleftrightarrow>
     (case val of
        PNone \<Rightarrow> truthy (dict_get g ''nullable'')
      | PStr s \<Rightarrow> py_str fr (dict_get g ''type'') = ''string'' \<and>
          (\<forall>n. dict_get g ''minimum_length'' = PInt n \<longrightarrow> n \<le> int (length (strip s)))
      | PInt i \<Rightarrow> py_str fr (dict_get g ''type'') = ''integer'' \<and>
          (\<forall>m. dict_get g ''minimum'' = PInt m \<longrightarrow> m \<le> i) \<and> (\<forall>m. dict_get g ''maximum'' = PInt m \<longrightarrow> i \<le> m)
      | PBool _ \<Rightarrow> py_str fr (dict_get g ''type'') = ''boolean''
      | _ \<Rightarrow> False) \<and>
     (\<forall>es. val \<noteq> PNone \<and> dict_get g ''enum'' = PList es \<and> es \<noteq> [] \<longrightarrow> py_in val es)"

lemma input_from_dict_Inr:
  assumes "input_from_dict fr v = Inr i"
  obtains g where "v = PDict g" and "is_type i = py_str fr (dict_get g ''type'')" and "is_required i = truthy (dict_get g ''required'')"
    and "is_nullable i = truthy (dict_get g ''nullable'')" and "is_default i = dict_get g ''default''"
    and "is_has_default i \<longleftrightarrow> map_of g ''default'' \<noteq> None"
    and "\<And>es. dict_get g ''enum'' = PList es \<Longrightarrow> is_enum i = es"
    and "\<And>m. dict_get g ''minimum'' = PInt m \<Longrightarrow> is_minimum i = Some m"
    and "\<And>m. dict_get g ''maximum'' = PInt m \<Longrightarrow> is_maximum i = Some m"
    and "\<And>m. dict_get g ''minimum_length'' = PInt m \<Longrightarrow> is_minimum_length i = Some m"
proof -
  obtain g where "v = PDict g" using assms by (auto simp: input_from_dict_def and_then_Inr mapping_of_def split: pyval.splits)
  moreover from this obtain ty en mi ma ml fo where fields: "field_of g ''type'' = Inr ty" "tuple_field g ''enum'' = Inr en"
    "integer_field g ''minimum'' = Inr mi" "integer_field g ''maximum'' = Inr ma" "integer_field g ''minimum_length'' = Inr ml"
    and i: "i = \<lparr>is_type = py_str fr ty, is_required = truthy (dict_get g ''required''),
      is_nullable = truthy (dict_get g ''nullable''), is_default = dict_get g ''default'',
      is_has_default = (map_of g ''default'' \<noteq> None), is_enum = en, is_minimum = mi, is_maximum = ma,
      is_minimum_length = ml, is_format = fo\<rparr>"
    using assms by (auto simp: input_from_dict_def and_then_Inr mapping_of_def)
  have "ty = dict_get g ''type''" using fields(1) by (auto simp: field_of_def dict_get_def split: option.splits)
  moreover have "en = es" if "dict_get g ''enum'' = PList es" for es
    using fields(2) that by (auto simp: tuple_field_def tuple_of_def dict_get_def split: option.splits)
  moreover have "mi = Some m" if "dict_get g ''minimum'' = PInt m" for m using fields(3) that by (simp add: integer_field_def)
  moreover have "ma = Some m" if "dict_get g ''maximum'' = PInt m" for m using fields(4) that by (simp add: integer_field_def)
  moreover have "ml = Some m" if "dict_get g ''minimum_length'' = PInt m" for m using fields(5) that by (simp add: integer_field_def)
  ultimately show thesis using that [of g] by (simp add: i)
qed

lemma validated_admitted:
  assumes "input_from_dict fr (PDict g) = Inr i" and "validate_input fr n val i = Inr x"
  shows "admits fr g val"
  using assms(1)
proof (cases rule: input_from_dict_Inr)
  case (1 h)
  then have i: "is_type i = py_str fr (dict_get g ''type'')" "is_nullable i = truthy (dict_get g ''nullable'')"
    "\<And>es. dict_get g ''enum'' = PList es \<Longrightarrow> is_enum i = es"
    "\<And>m. dict_get g ''minimum'' = PInt m \<Longrightarrow> is_minimum i = Some m"
    "\<And>m. dict_get g ''maximum'' = PInt m \<Longrightarrow> is_maximum i = Some m"
    "\<And>m. dict_get g ''minimum_length'' = PInt m \<Longrightarrow> is_minimum_length i = Some m" by auto
  have checks: "val \<noteq> PNone \<Longrightarrow> has_type (is_type i) val" "val = PNone \<Longrightarrow> is_nullable i"
    "val \<noteq> PNone \<Longrightarrow> is_enum i \<noteq> [] \<Longrightarrow> py_in val (is_enum i)" "val \<noteq> PNone \<Longrightarrow> validate_value n val i = Inr x"
    using assms(2) by (auto simp: validate_input_def split: if_splits)
  have enum: "py_in val es" if "val \<noteq> PNone" "dict_get g ''enum'' = PList es" "es \<noteq> []" for es
    using checks(3) that i(3) by auto
  show ?thesis
  proof (cases val)
    case (PStr s)
    then have "n' \<le> int (length (strip s))" if "dict_get g ''minimum_length'' = PInt n'" for n'
      using checks(4) i(6) [OF that] by (auto simp: validate_value_def validate_length_def and_then_Inr split: if_splits)
    then show ?thesis using PStr checks(1) enum i(1) by (simp add: admits_def)
  next
    case (PInt j)
    have "m \<le> j" if "dict_get g ''minimum'' = PInt m" for m
      using PInt checks(4) i(4) [OF that] by (auto simp: validate_value_def validate_range_def and_then_Inr split: if_splits)
    moreover have "j \<le> m" if "dict_get g ''maximum'' = PInt m" for m
      using PInt checks(4) i(5) [OF that] by (auto simp: validate_value_def validate_range_def and_then_Inr split: if_splits)
    ultimately show ?thesis using PInt checks(1) enum i(1) by (simp add: admits_def)
  qed (use checks(1,2) enum i(1,2) in \<open>auto simp: admits_def\<close>)
qed

lemma normal_inputs_each:
  "normal_inputs fr cap ps inputs = Inr d \<Longrightarrow> (n, i) \<in> set inputs \<Longrightarrow>
     \<exists>e. normal_input fr cap ps n i = Inr e \<and> set e \<subseteq> set d"
  by (induction inputs arbitrary: d) (auto simp: and_then_Inr, blast)

lemma list_all2_both:
  assumes "list_all2 P xs ys"
  shows "x \<in> set xs \<Longrightarrow> \<exists>y\<in>set ys. P x y" and "y \<in> set ys \<Longrightarrow> \<exists>x\<in>set xs. P x y"
  using assms by (induction rule: list_all2_induct) auto

lemma spec_from_dict_Inr:
  assumes "spec_from_dict fr item = Inr spec"
  obtains f where "item = PDict f" and "\<exists>c. map_of f ''capability_id'' = Some c \<and> py_str fr c = cs_capability_id spec"
    and "\<exists>c. map_of f ''contract_version'' = Some c \<and> py_str fr c = cs_contract_version spec"
    and "inputs_from fr (sort_key fst (case map_of f ''inputs'' of Some (PDict d) \<Rightarrow> d | _ \<Rightarrow> [])) = Inr (cs_inputs spec)"
    and "\<And>pag. map_of f ''pagination'' = Some (PDict pag) \<Longrightarrow> cs_pagination spec = pag"
proof -
  obtain f where "item = PDict f" using assms by (auto simp: spec_from_dict_def and_then_Inr object_of_def split: pyval.splits)
  with assms that [of f] show thesis
    by (auto simp: spec_from_dict_def and_then_Inr object_of_def field_of_def dict_field_def split: option.splits pyval.splits)
qed

lemma inputs_entry:
  assumes "inputs_from fr (sort_key fst named) = Inr inputs"
  shows "(n, i) \<in> set inputs \<Longrightarrow> \<exists>g. (n, PDict g) \<in> set named \<and> input_from_dict fr (PDict g) = Inr i"
    and "(n, PDict g) \<in> set named \<Longrightarrow> \<exists>i. (n, i) \<in> set inputs \<and> input_from_dict fr (PDict g) = Inr i"
proof -
  note all = inputs_from_Inr [OF assms]
  {
    assume "(n, i) \<in> set inputs"
    then obtain v where v: "(n, v) \<in> set (sort_key fst named)" "input_from_dict fr v = Inr i"
      using list_all2_both(2) [OF all] by fastforce
    then obtain g where "v = PDict g" by (auto elim: input_from_dict_Inr)
    with v show "\<exists>g. (n, PDict g) \<in> set named \<and> input_from_dict fr (PDict g) = Inr i" by auto
  }
  assume "(n, PDict g) \<in> set named"
  then have "(n, PDict g) \<in> set (sort_key fst named)" by simp
  then show "\<exists>i. (n, i) \<in> set inputs \<and> input_from_dict fr (PDict g) = Inr i"
    using list_all2_both(1) [OF all] by fastforce
qed

text \<open>
  C36: A catalog read from a JSON document holds requests to that document: when a request is validated, exactly one
  capability of the document has its id and version; every parameter is named among the capability's inputs, and its value is
  admitted by the entry there (null, type, enumeration, bounds, length); an input that is left out either has its default
  filled in or is not required; and the page size is at most the capability's maximum.
\<close>

theorem document_enforced:
  assumes read: "from_document fr (PDict doc) = Inr cat" and ok: "validate fr cat rq = Inr v"
  defines "is_for \<equiv> \<lambda>f. (\<exists>c. map_of f ''capability_id'' = Some c \<and> py_str fr c = rq_capability_id rq) \<and>
    (\<exists>c. map_of f ''contract_version'' = Some c \<and> py_str fr c = rq_contract_version rq)"
  shows "\<exists>items f named. map_of doc ''capabilities'' = Some (PList items) \<and> PDict f \<in> set items \<and> is_for f \<and>
    (\<forall>f'. PDict f' \<in> set items \<and> is_for f' \<longrightarrow> f' = f) \<and>
    named = (case map_of f ''inputs'' of Some (PDict d) \<Rightarrow> d | _ \<Rightarrow> []) \<and>
    (\<forall>n val. map_of (rq_params rq) n = Some val \<longrightarrow> (\<exists>g. (n, PDict g) \<in> set named \<and> admits fr g val)) \<and>
    (\<forall>n g. (n, PDict g) \<in> set named \<and> map_of (rq_params rq) n = None \<longrightarrow>
       (case map_of g ''default'' of Some d \<Rightarrow> (n, d) \<in> set (rq_params v) | None \<Rightarrow> \<not> truthy (dict_get g ''required''))) \<and>
    (\<forall>p pag m. rq_page_size rq = PInt p \<and> map_of f ''pagination'' = Some (PDict pag) \<and> map_of pag ''maximum_page_size'' = Some (PInt m) \<longrightarrow> p \<le> m)"
proof -
  obtain items specs where specs: "tuple_field doc ''capabilities'' = Inr items" "specs_from fr items = Inr specs"
    and cat: "add_specs [] specs = Inr cat" "specs \<noteq> []"
    using read by (auto simp: from_document_def object_of_def and_then_Inr make_catalog_def)
  note each = specs_from_Inr [OF specs(2)]
  have cat': "cat = map (\<lambda>s. (spec_key s, s)) specs" "distinct (map spec_key specs)" using add_specs_Inr [OF cat(1)] by simp_all
  obtain spec where found: "map_of cat (rq_capability_id rq, rq_contract_version rq) = Some spec"
    and size: "check_page_size rq spec = Inr ()" and params: "validate_params fr spec (rq_params rq) = Inr (rq_params v)"
    using ok by (cases rule: validate_Inr_cases) auto
  have spec: "spec \<in> set specs" "spec_key spec = (rq_capability_id rq, rq_contract_version rq)"
    using map_of_SomeD [OF found] by (auto simp: cat'(1))
  obtain item where item: "item \<in> set items" "spec_from_dict fr item = Inr spec" using list_all2_both(2) [OF each] spec(1) by blast
  from item(2) obtain f where f: "item = PDict f" "\<exists>c. map_of f ''capability_id'' = Some c \<and> py_str fr c = cs_capability_id spec"
    "\<exists>c. map_of f ''contract_version'' = Some c \<and> py_str fr c = cs_contract_version spec"
    "inputs_from fr (sort_key fst (case map_of f ''inputs'' of Some (PDict d) \<Rightarrow> d | _ \<Rightarrow> [])) = Inr (cs_inputs spec)"
    "\<And>pag. map_of f ''pagination'' = Some (PDict pag) \<Longrightarrow> cs_pagination spec = pag"
    by (rule spec_from_dict_Inr) blast
  define named where "named = (case map_of f ''inputs'' of Some (PDict d) \<Rightarrow> d | _ \<Rightarrow> [])"
  note entry = inputs_entry [OF f(4) [folded named_def]]
  have listed: "map_of doc ''capabilities'' = Some (PList items)"
  proof -
    obtain c where c: "map_of doc ''capabilities'' = Some c" "tuple_of c = Inr items"
      using specs(1) item(1) by (auto simp: tuple_field_def split: option.splits)
    then show ?thesis using item(1) f(1) by (auto simp: tuple_of_def split: pyval.splits prod.splits)
  qed
  have for_f: "is_for f" using f(2,3) spec(2) by (simp add: is_for_def spec_key_def)
  have only: "f' = f" if f': "PDict f' \<in> set items" "is_for f'" for f'
  proof -
    obtain s where s: "s \<in> set specs" "spec_from_dict fr (PDict f') = Inr s" using list_all2_both(1) [OF each] f'(1) by blast
    from s(2) have "spec_key s = (rq_capability_id rq, rq_contract_version rq)"
      by (rule spec_from_dict_Inr) (use f'(2) in \<open>auto simp: is_for_def spec_key_def\<close>)
    then have same: "s = spec" using cat'(2) s(1) spec by (metis inj_onD distinct_map)
    obtain i j where at: "i < length items" "items ! i = PDict f'" "j < length items" "items ! j = PDict f"
      using f'(1) item(1) f(1) by (auto simp: in_set_conv_nth)
    have "specs ! i = spec" using list_all2_nthD [OF each at(1)] s(2) by (simp add: at(2) same)
    moreover have "specs ! j = spec" using list_all2_nthD [OF each at(3)] item(2) by (simp add: at(4) f(1))
    moreover have "length specs = length items" using each by (simp add: list_all2_lengthD)
    ultimately have "specs ! i = specs ! j" "i < length specs" "j < length specs" using at(1,3) by simp_all
    then have "i = j" using cat'(2) by (metis distinct_map nth_eq_iff_index_eq)
    then show ?thesis using at(2,4) by simp
  qed
  have names: "fst ` set (rq_params rq) \<subseteq> fst ` set (cs_inputs spec)"
    and normal: "normal_inputs fr (cs_capability_id spec) (rq_params rq) (cs_inputs spec) = Inr (rq_params v)"
    using params by (simp_all add: validate_params_Inr)
  have given: "\<exists>g. (n, PDict g) \<in> set named \<and> admits fr g val" if val: "map_of (rq_params rq) n = Some val" for n val
  proof -
    have "n \<in> fst ` set (cs_inputs spec)" using names map_of_SomeD [OF val] by force
    then obtain i where i: "(n, i) \<in> set (cs_inputs spec)" by auto
    obtain x where "validate_input fr n val i = Inr x"
      using normal_inputs_each [OF normal i] val by (auto simp: normal_input_def and_then_Inr)
    then show ?thesis using entry(1) [OF i] validated_admitted by blast
  qed
  have absent: "case map_of g ''default'' of Some d \<Rightarrow> (n, d) \<in> set (rq_params v) | None \<Rightarrow> \<not> truthy (dict_get g ''required'')"
    if g: "(n, PDict g) \<in> set named" and none: "map_of (rq_params rq) n = None" for n g
  proof -
    obtain i where i: "(n, i) \<in> set (cs_inputs spec)" "input_from_dict fr (PDict g) = Inr i" using entry(2) [OF g] by blast
    have fields: "is_required i = truthy (dict_get g ''required'')" "is_default i = dict_get g ''default''"
      "is_has_default i \<longleftrightarrow> map_of g ''default'' \<noteq> None"
      by (rule input_from_dict_Inr [OF i(2)], simp)+
    obtain e where "normal_input fr (cs_capability_id spec) (rq_params rq) n i = Inr e" "set e \<subseteq> set (rq_params v)"
      using normal_inputs_each [OF normal i(1)] by blast
    then show ?thesis using none fields by (auto simp: normal_input_def dict_get_def split: if_splits option.splits)
  qed
  have sized: "p \<le> m" if "rq_page_size rq = PInt p" "map_of f ''pagination'' = Some (PDict pag)" "map_of pag ''maximum_page_size'' = Some (PInt m)" for p pag m
    using size that f(5) [OF that(2)] by (auto simp: check_page_size_def dict_get_or_def split: if_splits)
  have mem: "PDict f \<in> set items" using item(1) f(1) by simp
  show ?thesis
    by (rule exI [of _ items], rule exI [of _ f], rule exI [of _ named], intro conjI allI impI)
      (rule listed, rule mem, rule for_f, (elim conjE, erule (1) only), rule named_def, erule given,
        (elim conjE, erule (1) absent), (elim conjE, erule (2) sized))
qed

theorem document_enforced_witness:
  "\<exists>cat v. from_document (\<lambda>_. []) capabilities_document = Inr cat \<and> validate (\<lambda>_. []) cat sample_request = Inr v \<and>
     (\<exists>g. admits (\<lambda>_. []) g (PInt 3))"
proof -
  obtain v where v: "validate (\<lambda>_. []) shipped_catalog sample_request = Inr v" using sample_request_valid by blast
  obtain doc where doc: "capabilities_document = PDict doc" by (simp add: capabilities_document_def)
  have read: "from_document (\<lambda>_. []) (PDict doc) = Inr shipped_catalog" using conjunct2 [OF shipped_contract, of "\<lambda>_. []"] by (simp add: load_default_def doc)
  have "map_of (rq_params sample_request) ''max_pages'' = Some (PInt 3)" by (simp add: sample_request_def)
  with document_enforced [OF read v] have "\<exists>g. admits (\<lambda>_. []) g (PInt 3)" by blast
  with read v doc show ?thesis by auto
qed

end
