(* ===== verification/Seeding.thy ===== *)
theory Seeding
  imports LedgerProps CapabilityProps Tokens
begin

text \<open>
  \<open>seed_test.py\<close>: the tasks it creates, each through a capability request, its payload and \<open>create_task\<close>. The
  seeded sessions are \<open>seed_tokens\<close> of the token pool.
\<close>

section \<open>Model\<close>

definition TASK_PAYLOADS :: "pydict list" where
  "TASK_PAYLOADS =
     [[(''search_keyword'', PStr ''bitcoin'')],
      [(''search_keyword'', PStr ''ai_agents'')],
      [(''search_keyword'', PStr ''tech_trends'')],
      [(''search_keyword'', PStr ''data_engineering'')],
      [(''search_keyword'', PStr ''open_source'')]]"

definition seed_request :: "string \<Rightarrow> exc + capability_request" where
  "seed_request keyword =
     make_request ''SEARCH_TWEETS'' ''1''
       [(''query'', PStr keyword), (''product'', PStr ''Latest''), (''max_pages'', PInt 1)]
       PNone (PInt 20) (PStr (''seed:'' @ keyword))"

definition seed_key :: "string \<Rightarrow> string" where
  "seed_key keyword = ''seed:SEARCH_TWEETS:v1:'' @ keyword"

text \<open>
  Each \<open>create_task\<close> commits by itself, so an exception leaves the tasks of the payloads before it. \<open>clock i\<close>
  is the process's clock and the database's at the call for payload \<open>i\<close>.
\<close>

fun seed_tasks ::
  "(rat \<Rightarrow> string) \<Rightarrow> (nat \<Rightarrow> time \<times> time) \<Rightarrow> nat \<Rightarrow> pydict list \<Rightarrow> cdb \<Rightarrow> (exc + int list) \<times> cdb" where
  "seed_tasks fr clock i [] db = (Inr [], db)"
| "seed_tasks fr clock i (payload # payloads) db =
     (case map_of payload ''search_keyword'' of
        None \<Rightarrow> (Inl (KeyError (repr_str ''search_keyword'')), db)
      | Some v \<Rightarrow>
          (let keyword = py_str fr v
           in case and_then (seed_request keyword) (\<lambda>rq.
                create_task CAPABILITY_TASK_TYPE (to_task_payload rq) (seed_key keyword) 5 100 None
                  (fst (clock i)) (snd (clock i)) db) of
                Inl e \<Rightarrow> (Inl e, db)
              | Inr (task_id, db1) \<Rightarrow>
                  (case seed_tasks fr clock (Suc i) payloads db1 of
                     (Inl e, db2) \<Rightarrow> (Inl e, db2)
                   | (Inr ids, db2) \<Rightarrow> (Inr (task_id # ids), db2))))"

text \<open>The whole of \<open>main\<close>: the number of sessions and the ids of the tasks, and both stores.\<close>

definition seed_all ::
  "(rat \<Rightarrow> string) \<Rightarrow> time \<Rightarrow> (nat \<Rightarrow> time \<times> time) \<Rightarrow> tdb \<times> cdb \<Rightarrow> (exc + nat \<times> int list) \<times> tdb \<times> cdb" where
  "seed_all fr now clock stores =
     (let (token_count, td) = seed_tokens now (fst stores)
      in case seed_tasks fr clock 0 TASK_PAYLOADS (snd stores) of
           (Inl e, db) \<Rightarrow> (Inl e, td, db)
         | (Inr ids, db) \<Rightarrow> (Inr (token_count, ids), td, db))"

text \<open>
  \<open>main\<close> of \<open>bulk_account_seeder.py\<close>: one account after the other, each with what its login gave and the
  time of its statement.
\<close>

definition bulk_seed :: "(string \<times> (exc + string) \<times> time) list \<Rightarrow> tdb \<Rightarrow> tdb" where
  "bulk_seed accounts db = fold (\<lambda>(username, login, now). register_account_tokens username login now) accounts db"

section \<open>One task\<close>

lemma create_task_row:
  assumes inv: "ledger_inv db" and args: "key \<noteq> []" "0 < m"
  shows "\<exists>i db' r. create_task ty p key m prio nra utc now db = Inr (i, db') \<and> ledger_inv db' \<and>
    task_by_key db' key = Some r \<and> t_id r = i \<and>
    (tasks db' = tasks db \<or> tasks db' = tasks db @ [r] \<and> t_task_type r = ty \<and> t_payload r = p \<and>
       t_idempotency_key r = key \<and> t_status r = PENDING)"
proof (cases "task_by_key db key")
  case (Some r)
  from create_task_idempotent [OF inv Some args] obtain db'
    where "create_task ty p key m prio nra utc now db = Inr (t_id r, db')" "tasks db' = tasks db" by blast
  with Some create_task_inv [OF inv] show ?thesis by fastforce
next
  case None
  from create_task_fresh [OF inv None args] obtain i db' r
    where made: "create_task ty p key m prio nra utc now db = Inr (i, db')" "ledger_inv db'" "tasks db' = tasks db @ [r]"
      "task_by_id db' i = Some r" "t_idempotency_key r = key" "t_status r = PENDING" by blast
  have id: "t_id r = i" using made(4) by (auto dest: fetch_key_SomeD)
  have "r = (new_task ty p m (case nra of None \<Rightarrow> utc | Some t \<Rightarrow> t) key prio None None now)\<lparr>t_id := task_seq db\<rparr>"
    using made(1,3) None by (auto simp: create_task_def Let_def insert_task_def split: if_splits option.splits)
  then have "t_task_type r = ty \<and> t_payload r = p" by (simp add: new_task_def)
  with made None id show ?thesis
    by (intro exI [of _ i] exI [of _ db'] exI [of _ r]) (simp add: fetch_key_append)
qed

section \<open>All tasks\<close>

text \<open>What the payload of a keyword becomes.\<close>

definition seeded :: "(rat \<Rightarrow> string) \<Rightarrow> string \<Rightarrow> task_row \<Rightarrow> bool" where
  "seeded fr kw r \<longleftrightarrow> t_idempotency_key r = seed_key kw \<and> t_status r = PENDING \<and> t_task_type r = CAPABILITY_TASK_TYPE \<and>
     (\<exists>rq. seed_request kw = Inr rq \<and> t_payload r = to_task_payload rq)"

definition keyword_payload :: "string \<Rightarrow> pydict" where
  "keyword_payload kw = [(''search_keyword'', PStr kw)]"

definition seed_keywords :: "string list" where
  "seed_keywords = [''bitcoin'', ''ai_agents'', ''tech_trends'', ''data_engineering'', ''open_source'']"

lemma TASK_PAYLOADS_keywords: "TASK_PAYLOADS = map keyword_payload seed_keywords"
  by (simp add: TASK_PAYLOADS_def seed_keywords_def keyword_payload_def)

lemma seed_request_Inr:
  "seed_request kw = Inr \<lparr>rq_capability_id = ''SEARCH_TWEETS'', rq_contract_version = ''1'',
     rq_params = [(''query'', PStr kw), (''product'', PStr ''Latest''), (''max_pages'', PInt 1)],
     rq_cursor = PNone, rq_page_size = PInt 20, rq_correlation_id = PStr (''seed:'' @ kw)\<rparr>"
  by (simp add: seed_request_def make_request_def)

lemma seed_tasks_Cons:
  assumes "seed_request kw = Inr rq"
    and "create_task CAPABILITY_TASK_TYPE (to_task_payload rq) (seed_key kw) 5 100 None (fst (clock i)) (snd (clock i)) db = Inr (t, db1)"
    and "seed_tasks fr clock (Suc i) payloads db1 = (Inr ids, db2)"
  shows "seed_tasks fr clock i (keyword_payload kw # payloads) db = (Inr (t # ids), db2)"
  using assms by (simp add: keyword_payload_def Let_def)

lemma seed_tasks_run:
  "ledger_inv db \<Longrightarrow> \<exists>ids db' fresh. seed_tasks fr clock i (map keyword_payload kws) db = (Inr ids, db') \<and> ledger_inv db' \<and>
     map (\<lambda>kw. map_option t_id (task_by_key db' (seed_key kw))) kws = map Some ids \<and>
     tasks db' = tasks db @ fresh \<and> (\<forall>r\<in>set fresh. \<exists>kw\<in>set kws. seeded fr kw r)"
proof (induction kws arbitrary: db i)
  case (Cons kw kws)
  obtain rq where rq: "seed_request kw = Inr rq" using seed_request_Inr by blast
  let ?make = "create_task CAPABILITY_TASK_TYPE (to_task_payload rq) (seed_key kw) 5 100 None (fst (clock i)) (snd (clock i)) db"
  have "seed_key kw \<noteq> []" by (simp add: seed_key_def)
  from create_task_row [OF Cons.prems this, of 5] obtain t db1 r
    where made: "?make = Inr (t, db1)" "ledger_inv db1" "task_by_key db1 (seed_key kw) = Some r" "t_id r = t"
      and grown: "tasks db1 = tasks db \<or> tasks db1 = tasks db @ [r] \<and> t_task_type r = CAPABILITY_TASK_TYPE \<and>
        t_payload r = to_task_payload rq \<and> t_idempotency_key r = seed_key kw \<and> t_status r = PENDING"
    by (metis zero_less_numeral)
  from Cons.IH [OF made(2), of "Suc i"] obtain ids db2 fresh
    where rest: "seed_tasks fr clock (Suc i) (map keyword_payload kws) db1 = (Inr ids, db2)" "ledger_inv db2"
      "map (\<lambda>kw. map_option t_id (task_by_key db2 (seed_key kw))) kws = map Some ids"
      "tasks db2 = tasks db1 @ fresh" "\<forall>r\<in>set fresh. \<exists>kw\<in>set kws. seeded fr kw r"
    by blast
  have run: "seed_tasks fr clock i (map keyword_payload (kw # kws)) db = (Inr (t # ids), db2)"
    using seed_tasks_Cons [of kw rq clock i db t db1, OF rq made(1) rest(1)] by simp
  have key: "map_option t_id (task_by_key db2 (seed_key kw)) = Some t"
    using made(3,4) rest(4) by (simp add: fetch_key_append)
  have "\<exists>more. tasks db1 = tasks db @ more \<and> (\<forall>r\<in>set more. seeded fr kw r)"
    using grown rq by (auto simp: seeded_def)
  then obtain more where "tasks db1 = tasks db @ more" "\<forall>r\<in>set more. seeded fr kw r" by blast
  with run key rest show ?case
    by (intro exI [of _ "t # ids"] exI [of _ db2] exI [of _ "more @ fresh"]) auto
qed auto

lemma seed_tasks_again:
  assumes "ledger_inv db" and "map (\<lambda>kw. map_option t_id (task_by_key db (seed_key kw))) kws = map Some ids"
  shows "\<exists>db'. seed_tasks fr clock i (map keyword_payload kws) db = (Inr ids, db') \<and>
    tasks db' = tasks db \<and> outbox db' = outbox db"
  using assms
proof (induction kws arbitrary: db i ids)
  case (Cons kw kws)
  obtain t ts where ids: "ids = t # ts" using Cons.prems(2) by (cases ids) auto
  obtain r where r: "task_by_key db (seed_key kw) = Some r" "t_id r = t" using Cons.prems(2) by (auto simp: ids)
  obtain rq where rq: "seed_request kw = Inr rq" using seed_request_Inr by blast
  have nonempty: "seed_key kw \<noteq> []" by (simp add: seed_key_def)
  from create_task_idempotent [OF Cons.prems(1) r(1) nonempty, of 5] obtain db1
    where made: "create_task CAPABILITY_TASK_TYPE (to_task_payload rq) (seed_key kw) 5 100 None (fst (clock i)) (snd (clock i)) db
        = Inr (t_id r, db1)" "tasks db1 = tasks db" "outbox db1 = outbox db"
    by (metis zero_less_numeral)
  have "ledger_inv db1" by (rule create_task_inv [OF Cons.prems(1) made(1)])
  from Cons.IH [OF this, of ts "Suc i"] Cons.prems(2) obtain db2
    where rest: "seed_tasks fr clock (Suc i) (map keyword_payload kws) db1 = (Inr ts, db2)" "tasks db2 = tasks db1" "outbox db2 = outbox db1"
    by (auto simp: ids made(2))
  with made r(2) seed_tasks_Cons [of kw rq clock i db t db1, OF rq _ rest(1)] show ?case by (simp add: ids)
qed auto

section \<open>The seeded tasks are planned\<close>

abbreviation planned_as :: "(rat \<Rightarrow> string) \<Rightarrow> pyval \<Rightarrow> string \<Rightarrow> task_row \<Rightarrow> bool" where
  "planned_as fr corr kw r \<equiv> (\<forall>ps mp pn. legacy_search_planner ps mp = Inr pn \<longrightarrow>
     (\<exists>p. and_then (request_from_task fr (t_task_type r) (t_payload r) corr) (plan_request fr pn) = Inr p \<and>
        pl_max_pages p = 1 \<and> pl_page_size p = min ps 20 \<and> dict_get (rq_params (pl_request p)) ''query'' = PStr kw))"

lemma seeded_plan:
  assumes planner: "legacy_search_planner ps mp = Inr pn" and kw: "strip kw = kw" "kw \<noteq> []" and r: "seeded fr kw r"
  shows "\<exists>p. and_then (request_from_task fr (t_task_type r) (t_payload r) corr) (plan_request fr pn) = Inr p \<and>
    pl_max_pages p = 1 \<and> pl_page_size p = min ps 20 \<and> dict_get (rq_params (pl_request p)) ''query'' = PStr kw"
proof -
  let ?req = "\<lambda>params. \<lparr>rq_capability_id = ''SEARCH_TWEETS'', rq_contract_version = ''1'', rq_params = params,
     rq_cursor = PNone, rq_page_size = PInt 20, rq_correlation_id = PStr (''seed:'' @ kw)\<rparr>"
  let ?v = "?req [(''include_replies'', PBool True), (''include_reposts'', PBool True), (''max_pages'', PInt 1),
     (''product'', PStr ''Latest''), (''query'', PStr kw)]"
  have "request_from_task fr (t_task_type r) (t_payload r) corr
    = Inr (?req [(''query'', PStr kw), (''product'', PStr ''Latest''), (''max_pages'', PInt 1)])"
    using r by (auto simp: seeded_def seed_request_Inr request_from_task_def capability_task_request_def optional_string_def
        optional_integer_def str_or_def make_request_def)
  moreover have pn: "pn = \<lparr>pn_catalog = [((''SEARCH_TWEETS'', ''1''), search_tweets_spec)], pn_routes = [legacy_route ps mp]\<rparr>"
    and mp: "1 \<le> mp"
    using planner by (simp_all add: legacy_search_planner_Inr)
  have size: "check_page_size (?req params) search_tweets_spec = Inr ()" for params
    by (simp add: check_page_size_def search_tweets_spec_def dict_get_or_def)
  have "validate fr (pn_catalog pn) (?req [(''query'', PStr kw), (''product'', PStr ''Latest''), (''max_pages'', PInt 1)]) = Inr ?v"
    using search_params_normal [of kw 1 fr, unfolded kw(1)] kw(2) size
    by (simp add: pn validate_def require_def make_request_def)
  moreover have "requested_page_size ?v search_tweets_spec = Inr 20"
    by (simp add: requested_page_size_def)
  ultimately show ?thesis
    using search_params_served [of 1 kw PNone "PInt 20" "PStr (''seed:'' @ kw)" ps mp] mp
    by (simp add: plan_request_def require_def dict_get_or_def pn) (simp add: legacy_route_def clamp_def min_def dict_get_def)
qed

lemma seed_keywords_stripped: "\<forall>kw\<in>set seed_keywords. strip kw = kw \<and> kw \<noteq> []"
  by (simp add: seed_keywords_def) code_simp

text \<open>
  C30: Seeding ensures its tasks and nothing else: from any well-formed ledger it returns the ids of five different tasks,
  each the one its keyword's idempotency key names, older tasks keep their rows, and every task it had to create is
  pending with a payload that the worker's planner turns into a plan for one page of the stripped keyword. Seeding again,
  at any later time, returns the same ids and changes neither tasks nor outbox.
\<close>

theorem seeding_ensures_tasks:
  assumes inv: "ledger_inv db"
  shows "\<exists>ids db' fresh. seed_tasks fr clock 0 TASK_PAYLOADS db = (Inr ids, db') \<and> ledger_inv db' \<and>
    length ids = 5 \<and> distinct ids \<and>
    map (\<lambda>kw. map_option t_id (task_by_key db' (seed_key kw))) seed_keywords = map Some ids \<and>
    tasks db' = tasks db @ fresh \<and>
    (\<forall>r\<in>set fresh. t_status r = PENDING \<and>
       (\<exists>kw\<in>set seed_keywords. t_idempotency_key r = seed_key kw \<and> planned_as fr corr kw r)) \<and>
    (\<exists>db''. seed_tasks fr clock' 0 TASK_PAYLOADS db' = (Inr ids, db'') \<and> tasks db'' = tasks db' \<and> outbox db'' = outbox db')"
proof -
  obtain ids db' fresh where run: "seed_tasks fr clock 0 TASK_PAYLOADS db = (Inr ids, db')" "ledger_inv db'"
    and keys: "map (\<lambda>kw. map_option t_id (task_by_key db' (seed_key kw))) seed_keywords = map Some ids"
    and grown: "tasks db' = tasks db @ fresh" "\<forall>r\<in>set fresh. \<exists>kw\<in>set seed_keywords. seeded fr kw r"
    using seed_tasks_run [OF inv, of fr clock 0 seed_keywords] unfolding TASK_PAYLOADS_keywords [symmetric] by (elim exE conjE)
  have len: "length ids = 5" using arg_cong [OF keys, of length] by (simp add: seed_keywords_def)
  have inj: "kw1 = kw2" if "map_option t_id (task_by_key db' (seed_key kw1)) = Some i"
    and "map_option t_id (task_by_key db' (seed_key kw2)) = Some i" for kw1 kw2 i
  proof -
    obtain r1 r2 where r: "task_by_key db' (seed_key kw1) = Some r1" "t_id r1 = i"
      "task_by_key db' (seed_key kw2) = Some r2" "t_id r2 = i"
      using \<open>map_option t_id (task_by_key db' (seed_key kw1)) = Some i\<close>
        \<open>map_option t_id (task_by_key db' (seed_key kw2)) = Some i\<close> by auto
    then have mem: "r1 \<in> set (tasks db')" "r2 \<in> set (tasks db')" "t_idempotency_key r1 = seed_key kw1" "t_idempotency_key r2 = seed_key kw2"
      by (auto dest: fetch_key_SomeD)
    then have "r1 = r2" using ledger_task_by_id [OF run(2)] r by (metis option.inject)
    with mem show ?thesis by (simp add: seed_key_def)
  qed
  have "distinct (map Some ids)" unfolding keys [symmetric]
  proof (subst distinct_map, intro conjI inj_onI)
    show "distinct seed_keywords" by (simp add: seed_keywords_def)
  next
    fix kw1 kw2
    assume mem: "kw1 \<in> set seed_keywords" "kw2 \<in> set seed_keywords"
      and same: "map_option t_id (task_by_key db' (seed_key kw1)) = map_option t_id (task_by_key db' (seed_key kw2))"
    have "map_option t_id (task_by_key db' (seed_key kw1)) \<in> set (map Some ids)" using mem(1) by (simp flip: keys)
    then show "kw1 = kw2" using same inj by auto
  qed
  then have dist: "distinct ids" by (simp add: distinct_map)
  have planned: "\<forall>r\<in>set fresh. t_status r = PENDING \<and>
      (\<exists>kw\<in>set seed_keywords. t_idempotency_key r = seed_key kw \<and> planned_as fr corr kw r)"
  proof
    fix r assume "r \<in> set fresh"
    then obtain kw where kw: "kw \<in> set seed_keywords" "seeded fr kw r" using grown(2) by blast
    have "strip kw = kw" "kw \<noteq> []" using seed_keywords_stripped kw(1) by simp_all
    then have "planned_as fr corr kw r" using seeded_plan [OF _ _ _ kw(2)] by blast
    with kw(1) have "\<exists>kw\<in>set seed_keywords. t_idempotency_key r = seed_key kw \<and> planned_as fr corr kw r"
      using kw(2) [unfolded seeded_def] by (intro bexI [of _ kw] conjI) (elim conjE)
    moreover have "t_status r = PENDING" using kw(2) by (simp add: seeded_def)
    ultimately show "t_status r = PENDING \<and>
      (\<exists>kw\<in>set seed_keywords. t_idempotency_key r = seed_key kw \<and> planned_as fr corr kw r)" by (intro conjI)
  qed
  have again: "\<exists>db''. seed_tasks fr clock' 0 TASK_PAYLOADS db' = (Inr ids, db'') \<and> tasks db'' = tasks db' \<and> outbox db'' = outbox db'"
    unfolding TASK_PAYLOADS_keywords by (rule seed_tasks_again [OF run(2) keys])
  show ?thesis
    by (rule exI [of _ ids], rule exI [of _ db'], rule exI [of _ fresh])
      (use run len dist keys grown(1) planned again in \<open>intro conjI\<close>)
qed

theorem seeding_ensures_tasks_witness:
  "\<exists>ids db'. seed_tasks (\<lambda>_. []) (\<lambda>_. (5, 5)) 0 TASK_PAYLOADS pending_db = (Inr ids, db') \<and> length ids = 5 \<and> distinct ids \<and>
     (\<exists>db''. seed_tasks (\<lambda>_. []) (\<lambda>_. (9, 9)) 0 TASK_PAYLOADS db' = (Inr ids, db'') \<and> tasks db'' = tasks db')"
  using seeding_ensures_tasks [OF sample_inv(1), of "\<lambda>_. []" "\<lambda>_. (5, 5)" PNone "\<lambda>_. (9, 9)"] by blast

end
