(* ===== verification/Pipeline.thy ===== *)
theory Pipeline
  imports WorkerProps StoreProps CollectorProps
begin

text \<open>
  One delivery from the lease to the acknowledgement, with the work in it: \<open>_execute_leased_work\<close> of \<open>worker.py\<close> collects
  the task's pages and stores their items, and \<open>handle_delivery\<close> runs it under the lease guard. Here the ledger, the session
  pool and the feed meet.
\<close>

section \<open>Model\<close>

text \<open>
  \<open>clocks i\<close> is the process's clock and the database's at the storing of item \<open>i\<close>. Other writers of the feed act before or
  after a batch here, not between its items.
\<close>

definition execute_leased_work ::
  "('env, 'db) session_ops \<Rightarrow> executor \<Rightarrow> store_env \<Rightarrow> task_lease \<Rightarrow> string \<Rightarrow> (nat \<Rightarrow> ('env, 'db) page_env) \<Rightarrow>
     (nat \<Rightarrow> time \<times> time) \<Rightarrow> 'db \<times> fdb \<Rightarrow> (exc + pydict \<times> nat \<times> nat) \<times> 'db \<times> fdb" where
  "execute_leased_work ops ex se task worker_id pages clocks stores =
     (case collect (se_float se) ops ex task worker_id pages (fst stores) of
        (Inl e, pool) \<Rightarrow> (Inl e, pool, snd stores)
      | (Inr (items, meta), pool) \<Rightarrow>
          (case persist_documents se task (map (\<lambda>(i, item). (item, clocks i)) (enumerate 0 items)) (0, 0) (snd stores) of
             (Inl e, fd) \<Rightarrow> (Inl e, pool, fd)
           | (Inr (stored, rejected), fd) \<Rightarrow> (Inr (meta, stored, rejected), pool, fd)))"

text \<open>How the end of the work reaches the guard.\<close>

definition operation_ends :: "time \<Rightarrow> exc + 'a \<Rightarrow> 'a guard_event" where
  "operation_ends now res = (case res of
     Inr v \<Rightarrow> OpReturns v None
   | Inl CancelledError \<Rightarrow> CancelRequested now
   | Inl e \<Rightarrow> OpRaises e)"

text \<open>
  \<open>handle_delivery\<close> with its operation: \<open>beats\<close> is what the guard sees while the work goes on. Without a lease, or with a
  guard that cannot be built, the work never starts. This is a run in which the work ends by itself with no renewal in flight; a
  guard that gives up earlier cancels the work at a point that only \<open>handle_delivery\<close>, whose operation is an event list, leaves open.
\<close>

definition deliver ::
  "('env, 'db) session_ops \<Rightarrow> executor \<Rightarrow> store_env \<Rightarrow> delivery \<Rightarrow> string \<Rightarrow> int \<Rightarrow> pyfloat \<Rightarrow>
     (pydict \<times> nat \<times> nat) guard_event list \<Rightarrow> time \<Rightarrow> handle_env \<Rightarrow> (nat \<Rightarrow> ('env, 'db) page_env) \<Rightarrow> (nat \<Rightarrow> time \<times> time) \<Rightarrow>
     cdb \<times> 'db \<times> fdb \<Rightarrow> handled option \<times> 'db \<times> fdb" where
  "deliver ops ex se m worker_id lease_seconds heartbeat_seconds beats now env pages clocks system =
     (case system of (db, stores) \<Rightarrow>
        (case (fst (lease_task (m_task_id m) (m_generation m) worker_id lease_seconds (e_lease_now env) db),
               guard_init lease_seconds heartbeat_seconds) of
           (Some task, Inr _) \<Rightarrow>
             (let (res, stores1) = execute_leased_work ops ex se task worker_id pages clocks stores
              in (handle_delivery m worker_id lease_seconds heartbeat_seconds (beats @ [operation_ends now res]) env db, stores1))
         | _ \<Rightarrow> (handle_delivery m worker_id lease_seconds heartbeat_seconds beats env db, stores)))"

section \<open>The guard while the work goes on\<close>

fun beating :: "task_lease \<Rightarrow> int \<Rightarrow> time \<Rightarrow> 'a guard_event list \<Rightarrow> bool" where
  "beating L s expires [] = True"
| "beating L s expires (Elsewhere f # es) = (leaves_row L f \<and> beating L s expires es)"
| "beating L s expires (Heartbeat now _ # es) = (now < expires \<and> beating L s (now + seconds s) es)"
| "beating L s expires _ = False"

lemma beating_run:
  assumes "beating L s expires es" and "ledger_inv db"
    and "task_by_id db (l_id L) = Some r" and "owns L r" and "t_lease_expires_at r = Some expires"
  shows "\<exists>db' r'. (\<forall>rest. run_guarded L m s (es @ rest) db = run_guarded L m s rest db') \<and> ledger_inv db' \<and>
    task_by_id db' (l_id L) = Some r' \<and> owns L r'"
  using assms
proof (induction L s expires es arbitrary: db r rule: beating.induct)
  case (2 L s expires f es)
  then show ?case by (auto simp: leaves_row_def)
next
  case (3 L s expires now reply es)
  let ?db = "snd (renew_lease L s now db)" and ?r = "extend_lease s now r"
  have ok: "fst (renew_lease L s now db)" using 3 by (auto simp: renew_lease_answer)
  have "renewable L now r" using 3 by (simp add: renewable_def)
  then have row: "task_by_id ?db (l_id L) = Some ?r" using 3 by (simp add: renew_lease_row)
  have "owns L ?r" using 3 by (simp add: owns_def)
  then have "\<exists>db' r'. (\<forall>rest. run_guarded L m s (es @ rest) ?db = run_guarded L m s rest db') \<and> ledger_inv db' \<and>
      task_by_id db' (l_id L) = Some r' \<and> owns L r'"
    using 3 row by (intro "3.IH") (auto simp: renew_lease_inv)
  with ok show ?case by (auto simp: renew_once_eq split: sum.splits)
qed auto

section \<open>The feed and the counts\<close>

lemma persist_inv: "fdb_inv db \<Longrightarrow> persist_documents se task items counts db = (r, db') \<Longrightarrow> fdb_inv db'"
proof (induction se task items counts db rule: persist_documents.induct)
  case (2 se task item clock now items s r db)
  show ?case
  proof (cases "valid_item se item")
    case None
    then show ?thesis using "2.IH"(1) [OF None] "2.prems" by simp
  next
    case (Some doc)
    obtain res db1 where up: "upsert_insight_record (se_sha256 se) (se_isoformat se) doc (Some (observation_key_of task doc))
        (task_meta (se_float se) task item) clock now db = (res, db1)" by fastforce
    have inv1: "fdb_inv db1" by (rule upsert_insight_inv [OF "2.prems"(1) up])
    show ?thesis
    proof (cases res)
      case (Inl e)
      then show ?thesis using "2.prems"(2) Some up inv1 by simp
    next
      case (Inr u)
      then show ?thesis using "2.IH"(2) [OF Some up [symmetric] Inr inv1] "2.prems"(2) Some up by simp
    qed
  qed
qed simp

lemma work_inv: "fdb_inv fd \<Longrightarrow> execute_leased_work ops ex se L w pages clocks (pool, fd) = (res, pool', fd') \<Longrightarrow> fdb_inv fd'"
  by (auto simp: execute_leased_work_def dest: persist_inv split: prod.splits sum.splits)

lemma collected_count:
  assumes "collect fr ops ex task w envs db = (Inr (items, meta), db')"
  shows "map_of meta ''items_collected'' = Some (PInt (int (length items)))"
  using assms by (auto simp: collect_def collection_metadata_def split: sum.splits prod.splits)

lemma work_counts:
  assumes "execute_leased_work ops ex se L w pages clocks (pool, fd) = (Inr (meta, stored, rejected), pool', fd')"
  shows "map_of meta ''items_collected'' = Some (PInt (int stored + int rejected))"
proof -
  obtain items where col: "collect (se_float se) ops ex L w pages pool = (Inr (items, meta), pool')"
    and per: "persist_documents se L (map (\<lambda>(i, item). (item, clocks i)) (enumerate 0 items)) (0, 0) fd = (Inr (stored, rejected), fd')"
    using assms by (auto simp: execute_leased_work_def split: prod.splits sum.splits)
  have "stored + rejected = length items" using persist_total [OF per] by simp
  with collected_count [OF col] show ?thesis by (metis of_nat_add)
qed

section \<open>What becomes of a delivery\<close>

lemma handle_failure_effect:
  assumes inv: "ledger_inv db" and row: "task_by_id db (l_id L) = Some r" "owns L r"
    and e: "e \<noteq> CancelledError" "\<forall>m. e \<noteq> TaskLeaseLost m"
    and env: "e_ack_failed env = None" "0 \<le> e_jitter env" "l_attempts L < 1024"
    and err: "classify e = (cls, may_retry, after)"
  shows "\<exists>h r'. handle_failure L env e db = h \<and> h_acked h \<and> h_raised h = None \<and> task_by_id (h_db h) (l_id L) = Some r' \<and>
    (if \<not> may_retry \<or> exhausted L then t_status r' = DEAD_LETTER \<and> t_generation r' = t_generation r
     else t_status r' = RETRY_SCHEDULED \<and> t_generation r' = t_generation r + 1)"
proof -
  obtain res db' where run: "transition_failure L e (e_jitter env) (e_utc env) (e_now env) db = (res, db')" by fastforce
  note effect = transition_failure_effect [OF inv row err env(2), where utc = "e_utc env" and now = "e_now env", unfolded run prod.case]
  obtain ok where "res = Inr ok" and "ok"
    and r': "\<exists>r'. task_by_id db' (l_id L) = Some r' \<and>
      (if \<not> may_retry \<or> exhausted L then t_status r' = DEAD_LETTER \<and> t_generation r' = t_generation r
       else t_status r' = RETRY_SCHEDULED \<and> t_generation r' = t_generation r + 1)"
    using effect env(3) by (cases res) (auto simp: mark_dead_def mark_retry_def clear_lease_def split: if_splits)
  then have "handle_failure L env e db = ack_message (e_ack_failed env) db'"
    using e run by (cases e) (simp_all add: handle_failure_def)
  with r' env(1) show ?thesis by (simp add: ack_message_def)
qed

lemma delivery_effect:
  assumes inv: "ledger_inv db" "fdb_inv fd"
    and lease: "fst (lease_task (m_task_id m) (m_generation m) w s (e_lease_now env) db) = Some L"
    and guard: "guard_init s hb = Inr g"
    and beats: "beating L s (l_expires_at L) beats"
    and calm: "leaves_row L (e_before env)" "e_complete env = None" "e_ack env = None" "e_ack_failed env = None" "0 \<le> e_jitter env"
    and few: "l_attempts L < 1024"
    and run: "deliver ops ex se m w s hb beats now env pages clocks (db, pool, fd) = (out, pool', fd')"
  shows "\<exists>res h r. execute_leased_work ops ex se L w pages clocks (pool, fd) = (res, pool', fd') \<and> out = Some h \<and>
    ledger_inv (h_db h) \<and> fdb_inv fd' \<and> task_by_id (h_db h) (m_task_id m) = Some r \<and>
    (case res of
       Inr (meta, stored, rejected) \<Rightarrow> h_acked h \<and> t_status r = DONE \<and> t_generation r = m_generation m \<and>
         t_result_metadata r = Some (result_metadata meta stored rejected) \<and>
         map_of meta ''items_collected'' = Some (PInt (int stored + int rejected))
     | Inl e \<Rightarrow>
         (e = CancelledError \<longrightarrow> \<not> h_acked h \<and> h_raised h = Some CancelledError \<and> t_status r = ENQUEUED \<and> t_generation r = m_generation m) \<and>
         (e \<noteq> CancelledError \<and> (\<forall>msg. e \<noteq> TaskLeaseLost msg) \<longrightarrow> h_acked h \<and>
           (case classify e of (cls, may_retry, after) \<Rightarrow>
              if \<not> may_retry \<or> exhausted L then t_status r = DEAD_LETTER \<and> t_generation r = m_generation m
              else t_status r = RETRY_SCHEDULED \<and> t_generation r = m_generation m + 1)))"
proof -
  obtain db1 where lease1: "lease_task (m_task_id m) (m_generation m) w s (e_lease_now env) db = (Some L, db1)"
    using lease by (metis prod.collapse)
  note L = lease_names_delivery [OF inv(1) lease1]
  from L(6) obtain r where r: "task_by_id db1 (l_id L) = Some r" "owns L r" "t_lease_expires_at r = Some (l_expires_at L)"
    unfolding L(1) by blast
  obtain res where work: "execute_leased_work ops ex se L w pages clocks (pool, fd) = (res, pool', fd')"
    and out: "out = handle_delivery m w s hb (beats @ [operation_ends now res]) env db"
    using run lease1 guard by (auto simp: deliver_def split: prod.splits)
  obtain db2 r2 where go: "\<And>rest. run_guarded L m s (beats @ rest) db1 = run_guarded L m s rest db2"
    and inv2: "ledger_inv db2" and r2: "task_by_id db2 (l_id L) = Some r2" "owns L r2"
    using beating_run [OF beats L(5) r] by metis
  let ?db3 = "e_before env db2"
  have inv3: "ledger_inv ?db3" and r3: "task_by_id ?db3 (l_id L) = Some r2"
    using calm(1) inv2 r2 by (auto simp: leaves_row_def)
  have gen: "t_generation r2 = m_generation m" using r2(2) L(2) by (simp add: owns_def)
  have feed: "fdb_inv fd'" by (rule work_inv [OF inv(2) work])
  show ?thesis
  proof (cases res)
    case (Inr v)
    obtain meta stored rejected where v: "v = (meta, stored, rejected)" by (cases v)
    let ?m = "Some (result_metadata meta stored rejected)"
    define db4 where "db4 = snd (complete_task L ?m (e_now env) ?db3)"
    have ok: "complete_task L ?m (e_now env) ?db3 = (True, db4)"
      using complete_task_answer [OF inv3, where L = L and m = ?m and now = "e_now env"] r3 r2(2)
      by (simp add: db4_def leased_by_def prod_eq_iff)
    have row: "task_by_id db4 (l_id L) = Some (mark_done ?m (e_now env) r2)"
      using r3 r2 by (simp add: db4_def complete_task_row [OF inv3])
    have inv4: "ledger_inv db4" unfolding db4_def by (rule complete_task_inv [OF inv3])
    have h: "out = Some (ack_message None db4)"
      using lease1 guard ok calm Inr v by (simp add: out handle_delivery_def handle_success_def operation_ends_def go)
    have "t_result_metadata (mark_done ?m (e_now env) r2) = ?m" "t_generation (mark_done ?m (e_now env) r2) = m_generation m"
      "t_status (mark_done ?m (e_now env) r2) = DONE"
      using gen by (simp_all add: mark_done_def clear_lease_def)
    then show ?thesis
      using h row inv4 feed work work_counts [OF work [unfolded Inr v]] L(1) Inr v by (simp add: ack_message_def)
  next
    case (Inl e)
    show ?thesis
    proof (cases "e = CancelledError \<or> (\<exists>msg. e = TaskLeaseLost msg)")
      case True
      note early = this
      show ?thesis
      proof (cases "e = CancelledError")
        case True
        let ?db4 = "snd (release_for_recovery L now db2)"
        have inv4: "ledger_inv (e_before env ?db4)" and row4: "task_by_id (e_before env ?db4) (l_id L) = Some (requeue now r2)"
          using calm(1) release_inv [OF inv2] r2 by (auto simp: leaves_row_def release_row)
        have h: "out = Some (no_ack (Some CancelledError) (snd (release_for_recovery L (e_now env) (e_before env ?db4))))"
          using lease1 guard True Inl by (simp add: out handle_delivery_def handle_failure_def operation_ends_def go)
        have "\<not> owns L (requeue now r2)" by (simp add: owns_def)
        then have "task_by_id (snd (release_for_recovery L (e_now env) (e_before env ?db4))) (l_id L) = Some (requeue now r2)"
          by (simp add: release_row row4)
        moreover have "ledger_inv (snd (release_for_recovery L (e_now env) (e_before env ?db4)))"
          by (rule release_inv [OF inv4])
        ultimately show ?thesis using h feed work True L(1) Inl gen by (simp add: no_ack_def)
      next
        case False
        with early obtain msg where e: "e = TaskLeaseLost msg" by blast
        then have "out = Some (no_ack None ?db3)"
          using lease1 guard Inl by (simp add: out handle_delivery_def handle_failure_def operation_ends_def go)
        then show ?thesis using feed work e L(1) Inl inv3 r3 by (simp add: no_ack_def)
      qed
    next
      case False
      obtain cls may_retry after where cl: "classify e = (cls, may_retry, after)" by (cases "classify e")
      obtain h r' where h: "handle_failure L env e ?db3 = h" "h_acked h" "task_by_id (h_db h) (l_id L) = Some r'"
        "if \<not> may_retry \<or> exhausted L then t_status r' = DEAD_LETTER \<and> t_generation r' = t_generation r2
         else t_status r' = RETRY_SCHEDULED \<and> t_generation r' = t_generation r2 + 1"
        using handle_failure_effect [OF inv3 r3 r2(2) _ _ calm(4,5) few cl] False by blast
      have "operation_ends now res = OpRaises e" using False Inl by (cases e) (simp_all add: operation_ends_def)
      then have out1: "out = Some h" using lease1 guard h(1) by (simp add: out handle_delivery_def go)
      have "ledger_inv (h_db h)" using handle_failure_inv [OF inv3] h(1) by blast
      then show ?thesis using out1 h(2-4) gen feed work False L(1) Inl by (simp add: cl)
    qed
  qed
qed

text \<open>
  C4: One delivery, whole: a worker that gets the lease, whose heartbeats come in time and whose acknowledgement goes through,
  runs the collection and the storage exactly once and settles the task by their outcome. If they succeed the task is
  \<open>DONE\<close> with metadata in which the items stored and rejected add up to the items collected; if they raise, the task is
  dead-lettered at its generation or scheduled at the next one, as the failure's class and the attempts say. In both
  cases the message is acknowledged; a cancelled run is not acknowledged and leaves the task enqueued at its
  generation. The ledger and the feed stay consistent.
\<close>

theorem delivery_outcome:
  assumes inv: "ledger_inv db" "fdb_inv fd"
    and lease: "fst (lease_task (m_task_id m) (m_generation m) w s (e_lease_now env) db) = Some L"
    and guard: "guard_init s hb = Inr g"
    and beats: "beating L s (l_expires_at L) beats"
    and calm: "leaves_row L (e_before env)" "e_complete env = None" "e_ack env = None" "e_ack_failed env = None" "0 \<le> e_jitter env"
    and few: "l_attempts L < 1024"
    and run: "deliver ops ex se m w s hb beats now env pages clocks (db, pool, fd) = (out, pool', fd')"
  shows "\<exists>res h r. execute_leased_work ops ex se L w pages clocks (pool, fd) = (res, pool', fd') \<and> out = Some h \<and>
    ledger_inv (h_db h) \<and> fdb_inv fd' \<and> task_by_id (h_db h) (m_task_id m) = Some r \<and>
    (case res of
       Inr (meta, stored, rejected) \<Rightarrow> h_acked h \<and> t_status r = DONE \<and> t_generation r = m_generation m \<and>
         t_result_metadata r = Some (result_metadata meta stored rejected) \<and>
         map_of meta ''items_collected'' = Some (PInt (int stored + int rejected))
     | Inl e \<Rightarrow>
         (e = CancelledError \<longrightarrow> \<not> h_acked h \<and> h_raised h = Some CancelledError \<and> t_status r = ENQUEUED \<and> t_generation r = m_generation m) \<and>
         (e \<noteq> CancelledError \<and> (\<forall>msg. e \<noteq> TaskLeaseLost msg) \<longrightarrow> h_acked h \<and>
           (case classify e of (cls, may_retry, after) \<Rightarrow>
              if \<not> may_retry \<or> exhausted L then t_status r = DEAD_LETTER \<and> t_generation r = m_generation m
              else t_status r = RETRY_SCHEDULED \<and> t_generation r = m_generation m + 1)))"
  by (rule delivery_effect [OF assms])

section \<open>A delivery\<close>

definition keyword_db :: cdb where
  "keyword_db = db_of (sample_task\<lparr>t_task_type := LEGACY_SEARCH_TASK_TYPE, t_payload := [(''search_keyword'', PStr ''bitcoin'')],
       t_status := ENQUEUED, t_enqueued_at := Some 1\<rparr>)
     (sample_event\<lparr>o_published_at := Some 1, o_message_id := Some ''1-0''\<rparr>)"

lemma keyword_db_inv: "ledger_inv keyword_db"
  by (simp add: keyword_db_def sample_defs sample_checks)

lemma sample_item_rejected: "valid_item sample_store (tag_item sample_batch [(''original_tweet_id'', PStr ''1'')]) = None"
  by code_simp

theorem delivery_outcome_witness:
  "\<exists>ex h r pool' fd'. make_executor sample_adapter None 20 2 = Inr ex \<and>
     deliver (token_repo 90 300) ex sample_store sample_delivery ''worker-1'' 120 (Fin 40) [Heartbeat (seconds 45) (Inr None)] 7
       quiet_env sample_page (\<lambda>_. (7, 7)) (keyword_db, sample_tdb, empty_fdb) = (Some h, pool', fd') \<and>
     h_acked h \<and> task_by_id (h_db h) 1 = Some r \<and> t_status r = DONE"
proof -
  obtain L where l: "fst (lease_task (m_task_id sample_delivery) (m_generation sample_delivery) ''worker-1'' 120
      (e_lease_now quiet_env) keyword_db) = Some L" and x: "l_expires_at L = 5 + seconds 120" "l_attempts L = 0"
    and task: "l_task_type L = LEGACY_SEARCH_TASK_TYPE" "l_payload L = [(''search_keyword'', PStr ''bitcoin'')]"
    by (simp add: lease_task_def leasable_def keyword_db_def sample_defs)
  obtain ex meta db' where ex: "make_executor sample_adapter None 20 2 = Inr ex"
    and col: "collect (se_float sample_store) (token_repo 90 300) ex L ''worker-1'' sample_page sample_tdb
       = (Inr (map (tag_item sample_batch) (cb_items sample_batch), meta), db')"
    using keyword_collection [OF task] by blast
  have work: "execute_leased_work (token_repo 90 300) ex sample_store L ''worker-1'' sample_page (\<lambda>_. (7, 7)) (sample_tdb, empty_fdb)
      = (Inr (meta, 0, 1), db', empty_fdb)"
    by (simp add: execute_leased_work_def col sample_item_rejected) (simp add: sample_batch_def sample_item_rejected [unfolded sample_batch_def])
  have g: "guard_init 120 (Fin 40) = Inr (120, Fin 40)" by (simp add: guard_init_def fl_of_int_def)
  have beats: "beating L 120 (l_expires_at L) [Heartbeat (seconds 45) (Inr None)]" by (simp add: x seconds_def)
  have calm: "leaves_row L (e_before quiet_env)" by (simp add: leaves_row_def)
  obtain out pool' fd' where run: "deliver (token_repo 90 300) ex sample_store sample_delivery ''worker-1'' 120 (Fin 40)
      [Heartbeat (seconds 45) (Inr None)] 7 quiet_env sample_page (\<lambda>_. (7, 7)) (keyword_db, sample_tdb, empty_fdb) = (out, pool', fd')"
    using prod_cases3 by blast
  obtain h r where "out = Some h" "h_acked h" "task_by_id (h_db h) 1 = Some r" "t_status r = DONE"
    using delivery_outcome [OF keyword_db_inv fdb_inv_empty l g beats calm _ _ _ _ _ run] work x(2) by auto
  with ex run show ?thesis by blast
qed

end
