(* ===== verification/EndToEnd.thy ===== *)
theory EndToEnd
  imports Pipeline AdapterProps Dispatcher Streams
begin

text \<open>
  The service in mock mode from the lease of a task to the rows in the feed: nothing in it is a parameter but hashing and
  the conversions of texts and integers, so that what it does is determined.
\<close>

section \<open>What the fixture delivers\<close>

definition mock_doc :: "string \<Rightarrow> string \<Rightarrow> int \<Rightarrow> document" where
  "mock_doc h body idx =
     \<lparr>d_platform = ''x'', d_tweet_id = ''mock_'' @ h @ ''_'' @ int_str idx, d_author_id = ''mock_author_'' @ int_str idx,
      d_author_handle = ''mock_handle_'' @ int_str idx, d_text = body, d_likes = idx * 100, d_retweets = idx * 25,
      d_label = ''NEUTRAL'', d_conversation_id = Some (''mock_conversation_'' @ h), d_source_created_at = None, d_captured_at = None\<rparr>"

definition mock_count :: "int \<Rightarrow> int" where
  "mock_count page_size = min page_size 3"

lemma mock_count_cases: "1 \<le> z \<Longrightarrow> mock_count z = 1 \<or> mock_count z = 2 \<or> mock_count z = 3"
  by (auto simp: mock_count_def)

lemma mock_ranges: "[1..1] = [1::int]" "[1..2] = [1, 2::int]" "[1..3] = [1, 2, 3::int]"
  by (simp_all add: upto.simps)

lemma mock_item_valid:
  assumes py: "plain_values (se_pydantic se)" and h: "length h \<le> 16" and idx: "idx \<in> {1, 2, 3}"
    and name: "cb_adapter_name batch = ''mock''" "cb_adapter_version batch = ''1''"
    and content: "normalize_text_content (se_float se) (PStr (''Synthetic fixture record for collection query: '' @ q)) = ''Synthetic'' @ r"
  shows "valid_item se (tag_item batch (mock_item h q idx)) = Some (mock_doc h (''Synthetic'' @ r) idx)"
    and "0 \<le> d_likes (mock_doc h body idx)"
    and "storable (mock_doc h (''Synthetic'' @ r) idx) (task_meta (se_float se) task (tag_item batch (mock_item h q idx)))"
proof -
  have one: "length (int_str idx) = 1" "0 \<le> idx" using idx by (auto simp: small_int_str)
  show "valid_item se (tag_item batch (mock_item h q idx)) = Some (mock_doc h (''Synthetic'' @ r) idx)"
    using mock_item_document [OF py h one content] by (simp add: mock_doc_def)
  show "0 \<le> d_likes (mock_doc h body idx)" using idx by (auto simp: mock_doc_def)
  have "task_meta (se_float se) task (tag_item batch (mock_item h q idx)) = \<lparr>om_task_id = Some (l_id task),
      om_task_generation = Some (l_generation task), om_adapter_name = Some ''mock'', om_adapter_version = Some ''1''\<rparr>"
    by (simp add: task_meta_def truthy_str_def dict_get_def tag_item_def map_of_setdefault mock_item_def name)
  then show "storable (mock_doc h (''Synthetic'' @ r) idx) (task_meta (se_float se) task (tag_item batch (mock_item h q idx)))"
    using h idx one by (auto simp: storable_def mock_doc_def max_int4_def)
qed

section \<open>The work\<close>

lemma mock_collection:
  assumes mode: "mock_mode s" and ex: "make_executor (primary_adapter s v) (recovery_adapter s) ps mp = Inr ex"
    and plan: "plan_task fr ex L = Inr plan"
    and answer: "ae_answer (pg_first (pages 0)) = adapter_answer fr te be"
  obtains q meta where "map_of (rq_params (pl_request plan)) ''query'' = Some (PStr q)"
    and "collect fr ops ex L w pages pool =
      (Inr (map (tag_item (mock_collect (be_sha256 be) \<lparr>cr_query = q, cr_product = ''Latest'', cr_cursor = c, cr_page_size = pl_page_size plan\<rparr>))
         (map (mock_item (take 16 (be_sha256 be q)) q) [1..mock_count (pl_page_size plan)]), meta), ae_others (pg_first (pages 0)) pool)"
proof -
  note bounds = executor_plan_bounds [OF ex plan]
  obtain q where q: "map_of (rq_params (pl_request plan)) ''query'' = Some (PStr q)" using bounds(5) by blast
  obtain m where m: "nat (pl_max_pages plan) = Suc m" using bounds(1) by (cases "nat (pl_max_pages plan)") auto
  have parts: "ex_primary ex = mock_adapter" using ex mode by (auto simp: make_executor_def and_then_Inr primary_adapter_def)
  have page: "collect_page ops mock_adapter rec req w (pages 0) pool = (Inr (mock_collect (be_sha256 be) req), ae_others (pg_first (pages 0)) pool)" for rec req
    by (simp add: collect_page_def collect_with_session_def answer adapter_answer_def) (simp add: mock_adapter_def)
  have "\<exists>meta. collect fr ops ex L w pages pool =
      (Inr (map (tag_item (mock_collect (be_sha256 be) \<lparr>cr_query = q, cr_product = ''Latest'', cr_cursor = c, cr_page_size = pl_page_size plan\<rparr>))
         (map (mock_item (take 16 (be_sha256 be q)) q) [1..mock_count (pl_page_size plan)]), meta), ae_others (pg_first (pages 0)) pool)"
    using q bounds(6)
    by (simp add: collect_def plan required_param_def m parts page Let_def add_batch_def)
      (simp add: mock_collect_def Let_def mock_count_def tag_item_def)
  with q that show thesis by blast
qed

lemma mock_work:
  assumes mode: "mock_mode s" and ex: "make_executor (primary_adapter s v) (recovery_adapter s) ps mp = Inr ex"
    and py: "plain_values (se_pydantic se)" and plan: "plan_task (se_float se) ex L = Inr plan"
    and answer: "ae_answer (pg_first (pages 0)) = adapter_answer (se_float se) te be"
    and feed: "fdb_inv fd" "likes_ok fd" "total_likes fd + 600 \<le> max_int4"
  obtains q meta body fd' where "map_of (rq_params (pl_request plan)) ''query'' = Some (PStr q)"
    and "execute_leased_work ops ex se L w pages clocks (pool, fd) =
      (Inr (meta, nat (mock_count (pl_page_size plan)), 0), ae_others (pg_first (pages 0)) pool, fd')"
    and "fdb_inv fd'"
    and "\<forall>idx. 1 \<le> idx \<and> idx \<le> mock_count (pl_page_size plan) \<longrightarrow> stored_doc fd' (mock_doc (take 16 (be_sha256 be q)) body idx)"
proof -
  obtain q meta where q: "map_of (rq_params (pl_request plan)) ''query'' = Some (PStr q)"
    and col: "collect (se_float se) ops ex L w pages pool =
      (Inr (map (tag_item (mock_collect (be_sha256 be) \<lparr>cr_query = q, cr_product = ''Latest'', cr_cursor = None, cr_page_size = pl_page_size plan\<rparr>))
         (map (mock_item (take 16 (be_sha256 be q)) q) [1..mock_count (pl_page_size plan)]), meta), ae_others (pg_first (pages 0)) pool)"
    by (rule mock_collection [where pages = pages and w = w and ops = ops and pool = pool and c = None, OF mode ex plan answer])
  define h where "h = take 16 (be_sha256 be q)"
  define batch where "batch = mock_collect (be_sha256 be) \<lparr>cr_query = q, cr_product = ''Latest'', cr_cursor = None, cr_page_size = pl_page_size plan\<rparr>"
  define n where "n = mock_count (pl_page_size plan)"
  obtain r where content: "normalize_text_content (se_float se) (PStr (''Synthetic fixture record for collection query: '' @ q)) = ''Synthetic'' @ r"
    using mock_text by blast
  have n: "n = 1 \<or> n = 2 \<or> n = 3" unfolding n_def by (rule mock_count_cases [OF executor_plan_bounds(3) [OF ex plan]])
  have names: "cb_adapter_name batch = ''mock''" "cb_adapter_version batch = ''1''" by (simp_all add: batch_def mock_collect_def Let_def)
  have "length h \<le> 16" by (simp add: h_def)
  note item = mock_item_valid [OF py this _ names content]
  let ?items = "map (\<lambda>(i, item). (item, clocks i)) (enumerate 0 (map (tag_item batch) (map (mock_item h q) [1..n])))"
  let ?docs = "map (mock_doc h (''Synthetic'' @ r)) [1..n]"
  have valid: "list_all2 (\<lambda>(item, _) doc. valid_item se item = Some doc \<and> 0 \<le> d_likes doc \<and> storable doc (task_meta (se_float se) L item)) ?items ?docs"
    using n item by (elim disjE) (simp_all add: mock_ranges)
  have "sum_list (map d_likes ?docs) \<le> 600" using n by (elim disjE) (simp_all add: mock_ranges mock_doc_def)
  then have fits: "total_likes fd + sum_list (map d_likes ?docs) \<le> max_int4" using feed(3) by linarith
  obtain fd' where run: "persist_documents se L ?items (0, 0) fd = (Inr (0 + length ?items, 0), fd')" "fdb_inv fd'"
    and kept: "\<forall>doc. doc \<in> set ?docs \<or> stored_doc fd doc \<longrightarrow> stored_doc fd' doc"
    using persist_succeeds [OF feed(1,2) valid fits] by blast
  have "length ?items = nat n" using n by (elim disjE) (simp_all add: mock_ranges)
  then have work: "execute_leased_work ops ex se L w pages clocks (pool, fd) = (Inr (meta, nat n, 0), ae_others (pg_first (pages 0)) pool, fd')"
    using run(1) by (simp add: execute_leased_work_def col [folded h_def batch_def n_def])
  have docs: "\<forall>idx. 1 \<le> idx \<and> idx \<le> mock_count (pl_page_size plan) \<longrightarrow>
      stored_doc fd' (mock_doc (take 16 (be_sha256 be q)) (''Synthetic'' @ r) idx)"
    using kept by (simp add: h_def n_def)
  show thesis by (rule that [OF q work [unfolded n_def] run(2) docs])
qed

section \<open>The service in mock mode\<close>

text \<open>
  A worker that gets the lease of a task that can be planned, and is left alone, finishes it with \<open>min page_size 3\<close> items
  stored and none rejected, and the feed holds them.
\<close>

lemma mock_task_done:
  assumes inv: "ledger_inv db" and feed: "fdb_inv fd" "likes_ok fd" "total_likes fd + 600 \<le> max_int4"
    and mode: "mock_mode st" and ex: "make_executor (primary_adapter st v) (recovery_adapter st) ps mp = Inr ex"
    and py: "plain_values (se_pydantic se)" and plan: "plan_task (se_float se) ex L = Inr plan"
    and answer: "ae_answer (pg_first (pages 0)) = adapter_answer (se_float se) te be"
    and lease: "fst (lease_task (m_task_id m) (m_generation m) w s (e_lease_now env) db) = Some L"
    and guard: "guard_init s hb = Inr g" and beats: "beating L s (l_expires_at L) beats"
    and calm: "leaves_row L (e_before env)" "e_complete env = None" "e_ack env = None" "e_ack_failed env = None" "0 \<le> e_jitter env"
    and few: "l_attempts L < 1024"
  shows "\<exists>q h r meta pool' fd'. map_of (rq_params (pl_request plan)) ''query'' = Some (PStr q) \<and>
    deliver ops ex se m w s hb beats now env pages clocks (db, pool, fd) = (Some h, pool', fd') \<and>
    h_acked h \<and> task_by_id (h_db h) (m_task_id m) = Some r \<and> t_status r = DONE \<and>
    t_result_metadata r = Some (result_metadata meta (nat (min (pl_page_size plan) 3)) 0) \<and> fdb_inv fd' \<and>
    (\<forall>idx. 1 \<le> idx \<and> idx \<le> min (pl_page_size plan) 3 \<longrightarrow>
       (\<exists>f. feed_by_tweet fd' (''mock_'' @ take 16 (be_sha256 be q) @ ''_'' @ int_str idx) = Some f \<and> idx * 100 \<le> f_likes f))"
proof -
  obtain q meta body fd' where q: "map_of (rq_params (pl_request plan)) ''query'' = Some (PStr q)"
    and work: "execute_leased_work ops ex se L w pages clocks (pool, fd) =
      (Inr (meta, nat (mock_count (pl_page_size plan)), 0), ae_others (pg_first (pages 0)) pool, fd')"
    and inv': "fdb_inv fd'"
    and docs: "\<forall>idx. 1 \<le> idx \<and> idx \<le> mock_count (pl_page_size plan) \<longrightarrow> stored_doc fd' (mock_doc (take 16 (be_sha256 be q)) body idx)"
    by (rule mock_work [where pages = pages and w = w and ops = ops and pool = pool and clocks = clocks, OF mode ex py plan answer feed]) (rule that; assumption)
  obtain out pool' fd'' where run: "deliver ops ex se m w s hb beats now env pages clocks (db, pool, fd) = (out, pool', fd'')"
    using prod_cases3 by blast
  obtain h r where "out = Some h" "h_acked h" "task_by_id (h_db h) (m_task_id m) = Some r" "t_status r = DONE" "fd'' = fd'"
    "t_result_metadata r = Some (result_metadata meta (nat (mock_count (pl_page_size plan))) 0)"
    using delivery_effect [OF inv feed(1) lease guard beats calm few run] work by auto
  moreover have "\<exists>f. feed_by_tweet fd' (''mock_'' @ take 16 (be_sha256 be q) @ ''_'' @ int_str idx) = Some f \<and> idx * 100 \<le> f_likes f"
    if "1 \<le> idx \<and> idx \<le> min (pl_page_size plan) 3" for idx
    using docs [rule_format, of idx] that by (auto simp: mock_doc_def mock_count_def)
  ultimately show ?thesis using q run inv' by (simp add: mock_count_def) blast
qed

section \<open>From its creation to the feed\<close>

text \<open>
  C5: A keyword task is done, from its creation to the rows of the feed: when \<open>create_task\<close> has committed it and a
  dispatcher that had nothing else to do runs one round with Redis up, exactly its event is published; the entry is
  decoded, whatever the client decodes itself, to a delivery of the task; and a worker in mock mode that handles the delivery
  once the task is due, and is left alone, ends it \<open>DONE\<close>, stores \<open>min collector_page_size 3\<close> items, rejects none, and acknowledges the
  message. The feed then holds the items under the digest of the stripped keyword.
\<close>

theorem created_task_done:
  assumes inv: "ledger_inv db" and feed: "fdb_inv fd" "likes_ok fd" "total_likes fd + 600 \<le> max_int4"
    and made: "create_task LEGACY_SEARCH_TASK_TYPE [(''search_keyword'', PStr kw)] key maxa prio None utc now db = Inr (i, db1)"
    and new: "task_by_key db key = None" "strip kw \<noteq> []" "sql_bigint i"
    and idle: "\<forall>e\<in>set (outbox db). \<not> claimable (rd_now re) db e"
    and round: "0 < b" "rd_locked re = []" "utc \<le> rd_now re" "fst (rd_replies re 0) = Inr mid"
    and mode: "mock_mode st" and ex: "make_executor (primary_adapter st v) (recovery_adapter st) ps mp = Inr ex" "mp \<le> 10"
    and py: "plain_values (se_pydantic se)"
    and answer: "ae_answer (pg_first (pages 0)) = adapter_answer (se_float se) te be"
    and guard: "guard_init s hb = Inr g" and due: "utc \<le> e_lease_now env"
    and calm: "\<forall>L. beating L s (e_lease_now env + seconds s) beats \<and> leaves_row L (e_before env)"
      "e_complete env = None" "e_ack env = None" "e_ack_failed env = None" "0 \<le> e_jitter env"
  shows "\<exists>ev db1' db2 h r meta pool' fd'.
    claim_ready b (rd_token re) cs (rd_locked re) (rd_utc re) (rd_now re) db1 = Inr ([ev], db1') \<and>
    dispatch_once b cs re db1 = Inr (1, db2) \<and>
    (let m = \<lparr>m_message_id = mid, m_task_id = i, m_generation = 0\<rparr> in
       poll_delivery (Inr (Some [(stream, [(stored_as decoding mid, Some (stored_fields decoding (published_fields ev)))])])) none = Inr (Some m) \<and>
       deliver ops ex se m w s hb beats later env pages clocks (db2, pool, fd) = (Some h, pool', fd')) \<and>
    h_acked h \<and> task_by_id (h_db h) i = Some r \<and> t_status r = DONE \<and>
    t_result_metadata r = Some (result_metadata meta (nat (min ps 3)) 0) \<and> fdb_inv fd' \<and>
    (\<forall>idx. 1 \<le> idx \<and> idx \<le> min ps 3 \<longrightarrow>
       (\<exists>f. feed_by_tweet fd' (''mock_'' @ take 16 (be_sha256 be (strip kw)) @ ''_'' @ int_str idx) = Some f \<and> idx * 100 \<le> f_likes f))"
proof -
  obtain ev db1' db2 where claim: "claim_ready b (rd_token re) cs (rd_locked re) (rd_utc re) (rd_now re) db1 = Inr ([ev], db1')"
    and ev: "c_task_id ev = i" "c_generation ev = 0" and sent: "dispatch_once b cs re db1 = Inr (1, db2)" and inv2: "ledger_inv db2"
    and row: "task_by_id db2 i = Some (mark_enqueued (rd_now re)
      ((new_task LEGACY_SEARCH_TASK_TYPE [(''search_keyword'', PStr kw)] maxa utc key prio None None now)\<lparr>t_id := i\<rparr>))"
    using created_task_dispatched [OF inv new(1) made idle round, where cs = cs] by blast
  let ?m = "\<lparr>m_message_id = mid, m_task_id = i, m_generation = 0\<rparr>"
  have "sql_bigint 0" by (simp add: sql_bigint_def)
  then have decoded: "poll_delivery (Inr (Some [(stream, [(stored_as decoding mid, Some (stored_fields decoding (published_fields ev)))])])) none
      = Inr (Some ?m)"
    using entry_decoded [of ev ?m mid decoding stream none] new(3) ev by simp
  obtain L where L: "fst (lease_task i 0 w s (e_lease_now env) db2) = Some L"
    and task: "l_task_type L = LEGACY_SEARCH_TASK_TYPE" "l_payload L = [(''search_keyword'', PStr kw)]" "l_attempts L = 0"
      "l_expires_at L = e_lease_now env + seconds s"
  proof -
    have "leasable (e_lease_now env) i 0 (mark_enqueued (rd_now re)
      ((new_task LEGACY_SEARCH_TASK_TYPE [(''search_keyword'', PStr kw)] maxa utc key prio None None now)\<lparr>t_id := i\<rparr>))"
      using due by (simp add: leasable_def new_task_def)
    then have "fst (lease_task i 0 w s (e_lease_now env) db2) = Some (lease_of (mark_enqueued (rd_now re)
      ((new_task LEGACY_SEARCH_TASK_TYPE [(''search_keyword'', PStr kw)] maxa utc key prio None None now)\<lparr>t_id := i\<rparr>)) w
      (e_lease_now env + seconds s))"
      using lease_task_outcome [OF inv2, where i = i and g = 0 and w = w and s = s and now = "e_lease_now env"] row
      by (auto split: prod.splits option.splits)
    then show thesis by (rule that) (simp_all add: lease_of_def mark_enqueued_def new_task_def)
  qed
  obtain plan where plan: "plan_task (se_float se) ex L = Inr plan" and size: "pl_page_size plan = min ps 20"
    and query: "map_of (rq_params (pl_request plan)) ''query'' = Some (PStr (strip kw))"
    using keyword_plan [OF ex task(1,2) new(2)] by blast
  have lease: "fst (lease_task (m_task_id ?m) (m_generation ?m) w s (e_lease_now env) db2) = Some L" using L by simp
  have beats: "beating L s (l_expires_at L) beats" using calm(1) by (simp add: task(4))
  have few: "l_attempts L < 1024" by (simp add: task(3))
  obtain h r meta pool' fd' where "deliver ops ex se ?m w s hb beats later env pages clocks (db2, pool, fd) = (Some h, pool', fd')"
    "h_acked h" "task_by_id (h_db h) i = Some r" "t_status r = DONE"
    "t_result_metadata r = Some (result_metadata meta (nat (min ps 3)) 0)" "fdb_inv fd'"
    "\<forall>idx. 1 \<le> idx \<and> idx \<le> min ps 3 \<longrightarrow>
       (\<exists>f. feed_by_tweet fd' (''mock_'' @ take 16 (be_sha256 be (strip kw)) @ ''_'' @ int_str idx) = Some f \<and> idx * 100 \<le> f_likes f)"
    using mock_task_done [where pages = pages and now = later and clocks = clocks and pool = pool and ops = ops,
        OF inv2 feed mode ex(1) py plan answer lease guard beats conjunct2 [OF spec [OF calm(1)]] calm(2-5) few] by (auto simp: size query min.assoc)
  note ended = this
  show ?thesis
    by (rule exI [of _ ev], rule exI [of _ db1'], rule exI [of _ db2], rule exI [of _ h], rule exI [of _ r], rule exI [of _ meta],
        rule exI [of _ pool'], rule exI [of _ fd'])
      (use claim sent decoded ended in \<open>simp add: Let_def\<close>)
qed

definition mock_pages :: "nat \<Rightarrow> (pool_env, tdb) page_env" where
  "mock_pages n = (sample_page n)\<lparr>pg_first := mock_attempt\<rparr>"

theorem created_task_done_witness:
  "\<exists>st ex db1 db2 h r pool' fd' f. from_env [''MOCK_MODE'' \<mapsto> ''True''] = Inr st \<and>
     make_executor (primary_adapter st ''2'') (recovery_adapter st) 20 2 = Inr ex \<and>
     create_task LEGACY_SEARCH_TASK_TYPE [(''search_keyword'', PStr ''bitcoin'')] ''new'' 5 100 None 5 5 enqueued_db = Inr (2, db1) \<and>
     dispatch_once 100 30 (sample_round 0) db1 = Inr (1, db2) \<and>
     deliver (token_repo 90 300) ex sample_store \<lparr>m_message_id = ''1-0'', m_task_id = 2, m_generation = 0\<rparr> ''worker-1'' 120 (Fin 40) []
       7 quiet_env mock_pages (\<lambda>_. (7, 7)) (db2, sample_tdb, empty_fdb) = (Some h, pool', fd') \<and>
     h_acked h \<and> task_by_id (h_db h) 2 = Some r \<and> t_status r = DONE \<and> fdb_inv fd' \<and>
     feed_by_tweet fd' (''mock_'' @ take 16 (strip ''bitcoin'') @ ''_2'') = Some f \<and> 200 \<le> f_likes f"
proof -
  obtain st where env: "from_env [''MOCK_MODE'' \<mapsto> ''True''] = Inr st" and st: "mock_mode st" using mock_settings by blast
  obtain ex where ex: "make_executor (primary_adapter st ''2'') (recovery_adapter st) 20 2 = Inr ex"
    by (auto simp: make_executor_def and_then_Inr legacy_search_planner_Inr)
  obtain db1 where made: "create_task LEGACY_SEARCH_TASK_TYPE [(''search_keyword'', PStr ''bitcoin'')] ''new'' 5 100 None 5 5 enqueued_db
      = Inr (2, db1)" and new: "task_by_key enqueued_db ''new'' = None"
    by (simp add: create_task_def insert_task_def sample_defs Let_def)
  have kw: "strip ''bitcoin'' \<noteq> []" by code_simp
  have i: "sql_bigint 2" by (simp add: sql_bigint_def)
  have idle: "\<forall>e\<in>set (outbox enqueued_db). \<not> claimable (rd_now (sample_round 0)) enqueued_db e"
    by (simp add: claimable_def sample_defs)
  have round: "0 < (100::int)" "rd_locked (sample_round 0) = []" "5 \<le> rd_now (sample_round 0)"
    "fst (rd_replies (sample_round 0) 0) = Inr ''1-0''" by (simp_all add: sample_round_def)
  have py: "plain_values (se_pydantic sample_store)" by (simp add: plain_values_def sample_store_def)
  have room: "likes_ok empty_fdb" "total_likes empty_fdb + 600 \<le> max_int4" by (simp_all add: likes_ok_def empty_fdb_def max_int4_def)
  have answer: "ae_answer (pg_first (mock_pages 0)) = adapter_answer (se_float sample_store) mock_twikit mock_browser"
    by (simp add: mock_pages_def mock_attempt_def sample_store_def)
  have g: "guard_init 120 (Fin 40) = Inr (120, Fin 40)" by (simp add: guard_init_def fl_of_int_def)
  have calm: "\<forall>L. beating L 120 (e_lease_now quiet_env + seconds 120) [] \<and> leaves_row L (e_before quiet_env)"
    "e_complete quiet_env = None" "e_ack quiet_env = None" "e_ack_failed quiet_env = None" "0 \<le> e_jitter quiet_env" "5 \<le> e_lease_now quiet_env"
    by (simp_all add: leaves_row_def)
  have "(2::int) \<le> 10" by simp
  from created_task_done [where later = 7 and clocks = "\<lambda>_. (7, 7)" and ops = "token_repo 90 300" and pool = sample_tdb and pages = mock_pages
      and cs = 30 and decoding = True, OF sample_inv(2) fdb_inv_empty room made new kw i idle round st ex this py answer g calm(6) calm(1-5)]
  show ?thesis using env ex made by (fastforce simp: Let_def mock_browser_def small_int_str dest: spec [of _ 2])
qed

end
