(* ===== verification/Spec2Isabelle.thy ===== *)
theory Spec2Isabelle
  imports SystemProps CollectorProps TextProps StoreProps AdapterProps Dispatcher Daemons Contracts Seeding EndToEnd
begin

text \<open>
  A verification library for the ingestion service of this repository (Python 3.11, asyncpg on PostgreSQL, Redis streams).

  \<^bold>\<open>The program.\<close> Producers (\<open>seed_test.py\<close>, or anything that calls \<open>create_task\<close>) write tasks into the ledger, the tables
  \<open>worker_tasks\<close>, \<open>task_outbox\<close> and \<open>worker_dead_letters\<close>. The dispatcher (\<open>dispatcher.py\<close>, \<open>xingestion/outbox.py\<close>) claims
  events of the outbox and adds them to a Redis stream. Workers (\<open>worker.py\<close>) read the stream, lease the task, keep the
  lease alive (\<open>xingestion/lease_guard.py\<close>), plan the task against the capability contracts
  (\<open>xingestion/capabilities.py\<close>), collect pages through a source adapter (\<open>xingestion/collectors\<close>) under a session borrowed
  from the token pool (\<open>TokenRepository\<close> of \<open>xingestion/control_plane.py\<close>), store the items in the social feed
  (\<open>analytics_parser.py\<close>), complete or fail the task, and acknowledge the message. Dead letters are replayed by
  \<open>xingestion/replay.py\<close>. Around them run the token repair, the cleanup, the velocity alerts and the hourly briefs, and
  \<open>api_server.py\<close> shows the tables.

  \<^bold>\<open>The theories.\<close> Each component has a theory of definitions and, where it is not small, one of lemmas (\<open>...Props\<close>).
  \<^item> \<open>Prelude\<close>: tables as lists of rows and the four operators in which SQL statements are written; \<open>safe_system\<close>, the contract
    of a transition system with an invariant. \<open>PyValue\<close>, \<open>PyScalar\<close>, \<open>PyFloat\<close>: Python values, exceptions, conversions, \<open>str\<close>, \<open>int\<close>,
    dates, binary64 rounding.
  \<^item> \<open>Schema\<close>: the rows of the control plane. \<open>Ledger\<close>, \<open>LedgerProps\<close>: \<open>TaskRepository\<close>, one function per transaction; the
    invariant \<open>ledger_inv\<close> and the contract of the operations that only the owner of a lease may do. \<open>LeaseGuard\<close>: \<open>TaskLeaseGuard\<close>.
  \<^item> \<open>Outbox\<close>, \<open>OutboxProps\<close>: \<open>DurableOutboxDispatcher\<close> and the older \<open>OutboxDispatcher\<close>. \<open>Dispatcher\<close>: the loop of
    \<open>dispatcher.py\<close>. \<open>Streams\<close>: \<open>RedisStreamQueue\<close>. \<open>Replay\<close>: \<open>DeadLetterReplayService\<close>.
  \<^item> \<open>Worker\<close>, \<open>WorkerProps\<close>: failure classes, backoff, \<open>transition_failure\<close>, \<open>handle_delivery\<close>. \<open>Pipeline\<close>: a whole delivery with
    \<open>_execute_leased_work\<close> in it. \<open>EndToEnd\<close>: a keyword task in mock mode, from \<open>create_task\<close> to the feed.
  \<^item> \<open>Lifecycle\<close>: the life cycle of a task as an automaton on status and generation, which every operation of the ledger
    refines. \<open>System\<close>, \<open>SystemProps\<close>: all processes of the control plane as one transition relation.
  \<^item> \<open>Tokens\<close>, \<open>TokenProps\<close>: the token pool, its repair and its seeding, and the contract \<open>session_pool\<close> under which collectors
    use it. \<open>Capabilities\<close>, \<open>CapabilityProps\<close>, \<open>Contracts\<close>: contracts, validation, planner, and the shipped JSON document.
    \<open>Collector\<close>, \<open>CollectorProps\<close>: \<open>IngestionExecutor\<close>. \<open>Adapters\<close>, \<open>AdapterProps\<close>: the three adapters.
  \<^item> \<open>TextModel\<close>, \<open>TextProps\<close>, \<open>Feed\<close>, \<open>FeedProps\<close>, \<open>StoreProps\<close>: normalisation, keywords, \<open>upsert_insight_record\<close>,
    \<open>persist_documents\<close>, retention and alerts.
  \<^item> \<open>Config\<close>, \<open>ConfigProps\<close>: \<open>Settings.from_env\<close>. \<open>Seeding\<close>: the seeders. \<open>Daemons\<close>: the loops of the background processes.
    \<open>Dashboard\<close>, \<open>DashboardProps\<close>: the read API and the briefs.

  \<^bold>\<open>How state and code correspond.\<close> A table is a list of rows, a row a record with the columns as fields; sequences are
  counters that a conflicting insert consumes too. A transaction is one function from the database to the database (and an
  answer), its times and the rows that others lock are arguments. A checkout of a token is three, one per statement, because what commits
  between them matters. An exception is a value of \<open>exc\<close>, a fallible call returns a sum. Times
  are microseconds. Waiting is modelled by what is awaited: a guarded run is a list of events, a daemon a list of passes. The
  system relation interleaves the statements and Redis commands of all processes in any order, with crashes between
  any two and with messages delivered any number of times.

  \<^bold>\<open>What is shown.\<close> No task is lost, none gets stuck, every generation is settled at most once, attempts stay
  in their budget, terminal states are final, and each step follows the life cycle (\<open>SystemProps\<close>). A worker whose lease is gone
  cannot change the task (\<open>LeaseGuard\<close>); messages are acknowledged only when settled, redeliveries are harmless (\<open>WorkerProps\<close>); a
  whole delivery ends as its work does (\<open>Pipeline\<close>), and in mock mode a created keyword task is dispatched, delivered, collected,
  stored and finished (\<open>EndToEnd\<close>). Claims commit the task before the event is visible, in priority
  order (\<open>OutboxProps\<close>); no dead letter is replayed twice in any run of the system (\<open>SystemProps\<close>); the dispatcher's busy phase ends (\<open>Dispatcher\<close>); what is published is what is decoded (\<open>Streams\<close>). A checkout
  takes the free token that has waited longest; with at most \<open>W\<close> checkouts open at a time no token is lent more than \<open>W - 1\<close> times beyond its limit, a
  bound that is reached, and every collection returns its sessions (\<open>TokenProps\<close>, \<open>CollectorProps\<close>). Requests
  survive storage, plans are bounded by contract and settings (\<open>CapabilityProps\<close>), and what a contract document says is what the catalog
  made of it enforces (\<open>Contracts\<close>). The rollups are a recount of the feed after any sequence of upserts, and a batch delivered again adds
  nothing (\<open>FeedProps\<close>, \<open>StoreProps\<close>). Settings that are accepted suit the components that use them (\<open>ConfigProps\<close>). The
  daemons outlive failing passes, all but the brief and the repair daemon (\<open>Daemons\<close>); the trend list and the brief show what they
  should (\<open>DashboardProps\<close>).

  \<^bold>\<open>Interfaces.\<close> \<open>fenced_op\<close> (\<open>LedgerProps\<close>, with its extensions) is what the five operations of a lease holder share and is
  interpreted on each of them; \<open>session_pool\<close> is what a collection needs of a pool and is interpreted on the token repository;
  \<open>safe_system\<close> is interpreted on the control plane, the token pool and the feed.

  \<^bold>\<open>Termination and fuel.\<close> Nothing needs fuel: the page loop counts down the plan's pages, the dispatcher's loop takes an
  event out of the unpublished ones in every round but the last, scans recur on the rest of the text, and a run of a guard or a
  daemon is a finite list; a guard whose events end while it waits has the value None.

  \<^bold>\<open>Parameters.\<close> Code that is not in the repository is an argument: pydantic's conversions, SHA-256, \<open>isoformat\<close>, the decimal
  text of a float, \<open>json.loads\<close>, twikit, playwright, pyotp, the replies of Redis, the language model, PostgreSQL's collation and
  white space, and the token of a claim.

  \<^bold>\<open>Limits of the model.\<close> Checkouts are modelled statement by statement at READ COMMITTED, where their count of another table goes
  stale. The other transactions are atomic. Those of the ledger, the outbox and the replay change rows whose conditions PostgreSQL
  rechecks under the row's lock; upserts of the feed are taken one after the other, although two that overlap in a bucket can lose
  a count (\<open>FeedProps.overlapping_rebuilds_undercount\<close>). The foreign key of an observation's task and the refusal of NUL characters are
  left out. Database
  failures are modelled where the code has a clause for them. Column ranges are modelled for the feed (\<open>storable\<close>, the INT sums of
  rollups and briefs) and left out of the other tables, as is the range of a datetime. Texts are Latin-1; \<open>-0.0\<close> is 0. Stored payloads are dictionaries in the
  order written, not jsonb's. Writers of other processes act between the statements of a delivery but not between the items of one batch.

  \<^bold>\<open>Not modelled.\<close> \<open>scripts/apply_migrations.py\<close> (it hands SQL files to the server), the statements of the migrations that move old
  data, connecting, logging, signal handling, FastAPI's routing and serialisation, VACUUM, unit files and tests.
\<close>

end
